(* ===== verification/Prelude.thy ===== *)
theory Prelude
  imports Main "HOL-Library.Word"
begin

text \<open>
  The types and the automation every theory of the development shares: the integer types of
  \<^verbatim>\<open>include/type.h\<close>, the shifts of the target machine, the faults the models return as values,
  and the generic lemmas on words and lists.

  The kernel is compiled by gcc for x86-64 with \<^verbatim>\<open>-O0\<close> (\<^verbatim>\<open>cOS/kernel/Makefile\<close>), so an unsigned
  64-bit integer is a \<open>64 word\<close>, and a signed 32-bit integer is an \<open>int\<close> whose results pass
  through \<open>wrap32\<close>, the two's complement wrap-around of the target.
\<close>

unbundle bit_operations_syntax

section \<open>Integer types\<close>

type_synonym uint8 = "8 word"
type_synonym byte = "8 word"
type_synonym uint16 = "16 word"
type_synonym uint32 = "32 word"
type_synonym uint64 = "64 word"
type_synonym uintptr = "64 word"

named_theorems word_simps \<open>facts that move machine words to numbers\<close>
named_theorems layout_simps \<open>constants of the memory layout, unfolded\<close>

text \<open>The wrap-around of a signed 32-bit result.\<close>

definition wrap32 :: "int \<Rightarrow> int" where
  "wrap32 x = signed_take_bit 31 x"

lemma wrap32_id [simp]: "- 2147483648 \<le> x \<Longrightarrow> x < 2147483648 \<Longrightarrow> wrap32 x = x"
  by (simp add: wrap32_def signed_take_bit_int_eq_self)

lemma wrap32_bounds: "- 2147483648 \<le> wrap32 x" "wrap32 x < 2147483648"
  using signed_take_bit_int_greater_eq_minus_exp [of 31 x] signed_take_bit_int_less_exp [of 31 x]
  by (simp_all add: wrap32_def)

text \<open>
  A shift of a 64-bit register by a variable count: \<^verbatim>\<open>shlq %cl\<close> and \<^verbatim>\<open>shrq %cl\<close> use the low six
  bits of the count. The count 64, which C leaves undefined, therefore shifts by nothing.
\<close>

definition shl64 :: "uint64 \<Rightarrow> nat \<Rightarrow> uint64" where
  "shl64 x n = push_bit (n mod 64) x"

definition shr64 :: "uint64 \<Rightarrow> nat \<Rightarrow> uint64" where
  "shr64 x n = drop_bit (n mod 64) x"

lemma shl64_less [simp]: "n < 64 \<Longrightarrow> shl64 x n = push_bit n x"
  by (simp add: shl64_def)

lemma shr64_less [simp]: "n < 64 \<Longrightarrow> shr64 x n = drop_bit n x"
  by (simp add: shr64_def)

lemma shl64_64 [simp]: "shl64 x 64 = x"
  by (simp add: shl64_def)

section \<open>Faults as values\<close>

text \<open>
  What the hardware or the C abstract machine does not survive is a value of the model:
  a read or write through a null pointer, a \<^verbatim>\<open>va_arg\<close> with no argument left, a write past a
  local or global array, an instruction that raises \<open>#DE\<close>, an access the page tables do not map.
\<close>

datatype fault =
    NullDeref
  | ArgsExhausted
  | ArrayOverflow
  | DivideError
  | PageFault

definition bindR :: "('e + 'a) \<Rightarrow> ('a \<Rightarrow> 'e + 'b) \<Rightarrow> 'e + 'b" where
  "bindR m f = (case m of Inl e \<Rightarrow> Inl e | Inr a \<Rightarrow> f a)"

lemma bindR_simps [simp]:
  "bindR (Inl e) f = Inl e"
  "bindR (Inr a) f = f a"
  by (simp_all add: bindR_def)

lemma bindR_eq_Inr: "bindR m f = Inr b \<longleftrightarrow> (\<exists>a. m = Inr a \<and> f a = Inr b)"
  by (cases m) auto

lemma bindR_eq_Inl: "bindR m f = Inl e \<longleftrightarrow> m = Inl e \<or> (\<exists>a. m = Inr a \<and> f a = Inl e)"
  by (cases m) auto

text \<open>A function whose last statement is \<^verbatim>\<open>while (1);\<close> ends in the state it loops with.\<close>

datatype 's ending = Loops 's

text \<open>A loop over a list of indices whose body can fault.\<close>

fun foldR :: "('a \<Rightarrow> 's \<Rightarrow> 'e + 's) \<Rightarrow> 'a list \<Rightarrow> 's \<Rightarrow> 'e + 's" where
  "foldR f [] s = Inr s"
| "foldR f (x # xs) s = bindR (f x s) (foldR f xs)"

lemma foldR_cong: "(\<And>x s. x \<in> set xs \<Longrightarrow> f x s = g x s) \<Longrightarrow> foldR f xs s = foldR g xs s"
proof (induction xs arbitrary: s)
  case Nil
  then show ?case by simp
next
  case (Cons x xs)
  then have "foldR f xs = foldR g xs" by (simp add: fun_eq_iff)
  with Cons.prems show ?case by simp
qed

lemma foldR_append: "foldR f (xs @ ys) s = bindR (foldR f xs s) (foldR f ys)"
proof (induction xs arbitrary: s)
  case Nil
  then show ?case by simp
next
  case (Cons x xs)
  then show ?case by (cases "f x s") simp_all
qed

lemma foldR_inv:
  assumes "\<And>x s. x \<in> set xs \<Longrightarrow> I s \<Longrightarrow> \<exists>s'. f x s = Inr s' \<and> I s'" and "I s"
  shows "\<exists>s'. foldR f xs s = Inr s' \<and> I s'"
  using assms
proof (induction xs arbitrary: s)
  case Nil
  then show ?case by simp
next
  case (Cons x xs)
  then obtain s1 where "f x s = Inr s1" "I s1" by (metis list.set_intros(1))
  with Cons show ?case by simp
qed

section \<open>Words and numbers\<close>

lemma unat_drop_bit [word_simps]: "unat (drop_bit n (x :: uint64)) = unat x div 2 ^ n"
  by (metis drop_bit_eq_div unat_drop_bit_eq)

lemma unat_mod64 [word_simps]: "unat ((x :: uint64) mod 64) = unat x mod 64"
  by (simp add: unat_mod)

lemma unat64_less [simp]: "unat (x :: uint64) < 18446744073709551616"
  by (rule order_less_le_trans [OF unsigned_less]) simp

lemma bit_push_one: "bit (push_bit n (1 :: uint64)) i \<longleftrightarrow> i = n \<and> n < 64"
  by (auto simp: bit_push_bit_iff bit_1_iff simp del: push_bit_of_1)

lemma word64_eqI: "(\<And>i. i < 64 \<Longrightarrow> bit (x :: uint64) i = bit y i) \<Longrightarrow> x = y"
  by (rule bit_word_eqI) simp

text \<open>Masking with \<^verbatim>\<open>~(size - 1)\<close> for a power of two rounds down.\<close>

lemma mask_down: "(x :: uint64) AND NOT (push_bit n 1 - 1) = push_bit n (drop_bit n x)"
  by (auto simp: bit_eq_iff bit_and_iff bit_not_iff bit_push_bit_iff bit_drop_bit_eq bit_mask_iff
      simp flip: mask_eq_exp_minus_1)

lemma unat_round_down [word_simps]:
  "unat (push_bit n (drop_bit n (x :: uint64))) = unat x div 2 ^ n * 2 ^ n"
proof -
  have "unat (push_bit n (drop_bit n x)) = push_bit n (unat x div 2 ^ n) mod 18446744073709551616"
    by (simp add: unsigned_push_bit_eq take_bit_eq_mod word_simps)
  moreover have "unat x div 2 ^ n * 2 ^ n < 18446744073709551616"
    using div_times_less_eq_dividend [of "unat x" "2 ^ n"] unat64_less [of x] by linarith
  ultimately show ?thesis by (simp add: push_bit_eq_mult)
qed

lemma unat_add_small: "unat x + unat y < 2 ^ 64 \<Longrightarrow> unat (x + y :: uint64) = unat x + unat y"
  by (simp add: unat_word_ariths)

lemma less_length_takeWhile:
  "j < length (takeWhile P xs) \<longleftrightarrow> j < length xs \<and> (\<forall>i \<le> j. P (xs ! i))"
proof (induction xs arbitrary: j)
  case Nil
  then show ?case by simp
next
  case (Cons x xs)
  have "(\<forall>i \<le> Suc k. P ((x # xs) ! i)) \<longleftrightarrow> P x \<and> (\<forall>i \<le> k. P (xs ! i))" for k
    using All_less_Suc2 [of "Suc k" "\<lambda>i. P ((x # xs) ! i)"] by (simp add: less_Suc_eq_le)
  with Cons show ?case by (cases j) auto
qed

lemma unat_of_nat_small: "n < 18446744073709551616 \<Longrightarrow> unat (of_nat n :: uint64) = n"
  by (simp add: unat_of_nat take_bit_nat_eq_self)

lemma unat_add_nat:
  assumes "unat x + c < 18446744073709551616"
  shows "unat (x + of_nat c :: uint64) = unat x + c"
  using assms by (subst unat_add_small) (simp_all add: unat_of_nat take_bit_nat_eq_self)

end
