(* ===== verification/Lib_List.thy ===== *)
theory Lib_List
  imports Prelude
begin

text \<open>
  The intrusive doubly linked list of \<^verbatim>\<open>include/lib.h\<close>: \<^verbatim>\<open>struct List\<close> and its operations on an
  explicit store of \<^verbatim>\<open>prev\<close> and \<^verbatim>\<open>next\<close> pointers, so that aliasing between the arguments and the
  nodes of the ring is part of the model. A ring is abstracted by the list of its nodes.
\<close>

section \<open>The store and the operations\<close>

record list_heap =
  lprev :: "uintptr \<Rightarrow> uintptr"
  lnext :: "uintptr \<Rightarrow> uintptr"

definition set_prev :: "uintptr \<Rightarrow> uintptr \<Rightarrow> list_heap \<Rightarrow> list_heap" where
  "set_prev p v h = h\<lparr>lprev := (lprev h)(p := v)\<rparr>"

definition set_next :: "uintptr \<Rightarrow> uintptr \<Rightarrow> list_heap \<Rightarrow> list_heap" where
  "set_next p v h = h\<lparr>lnext := (lnext h)(p := v)\<rparr>"

lemma set_prev_simps [simp]:
  "lprev (set_prev p v h) = (lprev h)(p := v)"
  "lnext (set_prev p v h) = lnext h"
  by (simp_all add: set_prev_def)

lemma set_next_simps [simp]:
  "lnext (set_next p v h) = (lnext h)(p := v)"
  "lprev (set_next p v h) = lprev h"
  by (simp_all add: set_next_def)

definition list_init :: "uintptr \<Rightarrow> list_heap \<Rightarrow> list_heap" where
  "list_init l h = set_next l l (set_prev l l h)"

definition list_add_to_behind :: "uintptr \<Rightarrow> uintptr \<Rightarrow> list_heap \<Rightarrow> list_heap" where
  "list_add_to_behind entry new h =
     (let h1 = set_next new (lnext h entry) h;
          h2 = set_prev new entry h1;
          h3 = set_prev (lnext h2 new) new h2
      in set_next entry new h3)"

definition list_add_to_before :: "uintptr \<Rightarrow> uintptr \<Rightarrow> list_heap \<Rightarrow> list_heap" where
  "list_add_to_before entry new h =
     (let h1 = set_next new entry h;
          h2 = set_next (lprev h1 entry) new h1;
          h3 = set_prev new (lprev h2 entry) h2
      in set_prev entry new h3)"

definition list_del :: "uintptr \<Rightarrow> list_heap \<Rightarrow> list_heap" where
  "list_del entry h =
     (let h1 = set_prev (lnext h entry) (lprev h entry) h
      in set_next (lprev h1 entry) (lnext h1 entry) h1)"

definition list_is_empty :: "uintptr \<Rightarrow> list_heap \<Rightarrow> bool" where
  "list_is_empty entry h \<longleftrightarrow> entry = lnext h entry \<and> lprev h entry = entry"

definition list_prev :: "uintptr \<Rightarrow> list_heap \<Rightarrow> uintptr" where
  "list_prev entry h = (if lprev h entry \<noteq> 0 then lprev h entry else 0)"

definition list_next :: "uintptr \<Rightarrow> list_heap \<Rightarrow> uintptr" where
  "list_next entry h = (if lnext h entry \<noteq> 0 then lnext h entry else 0)"

definition container_of :: "uintptr \<Rightarrow> uint64 \<Rightarrow> uintptr" where
  "container_of p offset = p - offset"

section \<open>Rings\<close>

text \<open>
  \<open>chain h a xs b\<close>: from \<open>a\<close> through the nodes \<open>xs\<close> to \<open>b\<close>, every link set in both directions.
  A ring is a chain from a node back to itself through distinct nodes.
\<close>

fun chain :: "list_heap \<Rightarrow> uintptr \<Rightarrow> uintptr list \<Rightarrow> uintptr \<Rightarrow> bool" where
  "chain h a [] b \<longleftrightarrow> lnext h a = b \<and> lprev h b = a"
| "chain h a (x # xs) b \<longleftrightarrow> lnext h a = x \<and> lprev h x = a \<and> chain h x xs b"

definition ring :: "list_heap \<Rightarrow> uintptr \<Rightarrow> uintptr list \<Rightarrow> bool" where
  "ring h a xs \<longleftrightarrow> distinct (a # xs) \<and> chain h a xs a"

lemma chain_append: "chain h a (xs @ y # ys) b \<longleftrightarrow> chain h a xs y \<and> chain h y ys b"
  by (induction xs arbitrary: a) auto

lemma chain_frame:
  "(\<And>p. p \<in> insert a (set xs) \<Longrightarrow> lnext h' p = lnext h p) \<Longrightarrow>
   (\<And>p. p \<in> insert b (set xs) \<Longrightarrow> lprev h' p = lprev h p) \<Longrightarrow>
   chain h a xs b \<Longrightarrow> chain h' a xs b"
  by (induction xs arbitrary: a) auto

lemma chain_last: "chain h a xs b \<Longrightarrow> lprev h b = last (a # xs)"
  by (induction xs arbitrary: a) auto

lemma chain_first: "chain h a xs b \<Longrightarrow> lnext h a = hd (xs @ [b])"
  by (cases xs) auto

lemma ring_rotate: "ring h a (xs @ b # ys) \<Longrightarrow> ring h b (ys @ a # xs)"
  by (auto simp: ring_def chain_append)

lemma ring_next: "ring h a xs \<Longrightarrow> lnext h a = hd (xs @ [a])"
  by (simp add: ring_def chain_first)

lemma ring_prev: "ring h a xs \<Longrightarrow> lprev h a = last (a # xs)"
  unfolding ring_def by (rule chain_last) simp

lemma ring_init: "ring (list_init l h) l []"
  by (simp add: ring_def list_init_def)

lemma ring_add_behind:
  assumes r: "ring h a xs" and new: "n \<notin> set (a # xs)"
  shows "ring (list_add_to_behind a n h) a (n # xs)"
proof (cases xs)
  case Nil
  with r new show ?thesis
    by (auto simp: ring_def list_add_to_behind_def Let_def)
next
  case (Cons y ys)
  let ?h = "list_add_to_behind a n h"
  from r Cons have c: "chain h y ys a" and d: "distinct (a # y # ys)" and "lnext h a = y"
    by (auto simp: ring_def)
  then have links: "lnext ?h a = n" "lprev ?h n = a" "lnext ?h n = y" "lprev ?h y = n"
    using new Cons by (auto simp: list_add_to_behind_def Let_def)
  have "chain ?h y ys a"
    using c by (rule chain_frame [rotated 2])
      (use d new Cons \<open>lnext h a = y\<close> in \<open>auto simp: list_add_to_behind_def Let_def\<close>)
  with links d new Cons show ?thesis by (auto simp: ring_def)
qed

lemma ring_add_before:
  assumes r: "ring h a xs" and new: "n \<notin> set (a # xs)"
  shows "ring (list_add_to_before a n h) a (xs @ [n])"
proof (cases xs rule: rev_cases)
  case Nil
  with r new show ?thesis
    by (auto simp: ring_def list_add_to_before_def Let_def)
next
  case (snoc ys y)
  let ?h = "list_add_to_before a n h"
  from r snoc have c: "chain h a ys y" and d: "distinct (a # ys @ [y])" and "lprev h a = y"
    by (auto simp: ring_def chain_append)
  then have links: "lnext ?h y = n" "lprev ?h n = y" "lnext ?h n = a" "lprev ?h a = n"
    using new snoc by (auto simp: list_add_to_before_def Let_def)
  have "chain ?h a ys y"
    using c by (rule chain_frame [rotated 2])
      (use d new snoc \<open>lprev h a = y\<close> in \<open>auto simp: list_add_to_before_def Let_def\<close>)
  with links d new snoc show ?thesis by (auto simp: ring_def chain_append)
qed

lemma ring_del:
  assumes r: "ring h a (x # xs)"
  shows "ring (list_del a h) x xs"
proof (cases xs rule: rev_cases)
  case Nil
  with r show ?thesis by (auto simp: ring_def list_del_def Let_def)
next
  case (snoc ys y)
  let ?h = "list_del a h"
  from r snoc have c: "chain h x ys y" and d: "distinct (a # x # ys @ [y])"
    and ends: "lprev h a = y" "lnext h a = x"
    by (auto simp: ring_def chain_append)
  then have links: "lnext ?h y = x" "lprev ?h x = y"
    by (auto simp: list_del_def Let_def)
  have "chain ?h x ys y"
    using c by (rule chain_frame [rotated 2])
      (use d ends in \<open>auto simp: list_del_def Let_def\<close>)
  with links d snoc show ?thesis by (auto simp: ring_def chain_append)
qed

lemma ring_is_empty: "ring h a xs \<Longrightarrow> list_is_empty a h \<longleftrightarrow> xs = []"
  by (cases xs) (auto simp: ring_def list_is_empty_def)

section \<open>Rings as queues\<close>

text \<open>
  What the scheduler relies on: a queue anchored at a node, to whose end \<open>add\<close> appends, that \<open>walk\<close>
  steps through and that can be viewed from any of its nodes.
\<close>

locale ring_queue =
  fixes rep :: "'h \<Rightarrow> 'p \<Rightarrow> 'p list \<Rightarrow> bool"
    and start :: "'p \<Rightarrow> 'h \<Rightarrow> 'h"
    and add :: "'p \<Rightarrow> 'p \<Rightarrow> 'h \<Rightarrow> 'h"
    and remove :: "'p \<Rightarrow> 'h \<Rightarrow> 'h"
    and walk :: "'h \<Rightarrow> 'p \<Rightarrow> 'p"
  assumes rep_start: "rep (start a h) a []"
    and rep_add: "rep h a xs \<Longrightarrow> n \<notin> set (a # xs) \<Longrightarrow> rep (add a n h) a (xs @ [n])"
    and rep_remove: "rep h a (x # xs) \<Longrightarrow> rep (remove a h) x xs"
    and rep_view: "rep h a (xs @ b # ys) \<Longrightarrow> rep h b (ys @ a # xs)"
    and rep_walk: "rep h a xs \<Longrightarrow> walk h a = hd (xs @ [a])"
begin

lemma rep_adds:
  "rep h a xs \<Longrightarrow> distinct (a # xs @ ns) \<Longrightarrow> rep (fold (add a) ns h) a (xs @ ns)"
proof (induction ns arbitrary: h xs)
  case Nil
  then show ?case by simp
next
  case (Cons n ns)
  then have "rep (add a n h) a (xs @ [n])" by (intro rep_add) auto
  from Cons.IH [OF this] Cons.prems show ?case by simp
qed

lemma walk_reaches:
  "rep h a xs \<Longrightarrow> i \<le> length xs \<Longrightarrow> (walk h ^^ i) a = (a # xs) ! i"
proof (induction i)
  case 0
  then show ?case by simp
next
  case (Suc i)
  show ?case
  proof (cases i)
    case 0
    with Suc.prems show ?thesis by (cases xs) (simp_all add: rep_walk)
  next
    case (Suc j)
    with Suc.prems have j: "j < length xs" "Suc j < length xs" by simp_all
    have "rep h a (take j xs @ xs ! j # drop (Suc j) xs)"
      using Suc.prems(1) by (simp only: id_take_nth_drop [OF j(1), symmetric])
    then have "rep h (xs ! j) (drop (Suc j) xs @ a # take j xs)" by (rule rep_view)
    then have "walk h (xs ! j) = xs ! Suc j"
      using j by (simp add: rep_walk hd_append hd_drop_conv_nth)
    with Suc.IH Suc.prems Suc j show ?thesis by simp
  qed
qed

lemma walk_returns: "rep h a xs \<Longrightarrow> (walk h ^^ Suc (length xs)) a = a"
proof (cases xs rule: rev_cases)
  case Nil
  assume "rep h a xs"
  with Nil show ?thesis by (simp add: rep_walk)
next
  case (snoc ys y)
  assume r: "rep h a xs"
  then have "rep h a (ys @ y # [])" using snoc by simp
  then have "rep h y ([] @ a # ys)" by (rule rep_view)
  then have "walk h y = a" by (simp add: rep_walk)
  moreover have "(walk h ^^ length xs) a = y"
    unfolding walk_reaches [OF r order_refl] using snoc by simp
  ultimately show ?thesis by (simp del: funpow.simps add: funpow.simps(2))
qed

lemma remove_member: "rep h a (xs @ x # ys) \<Longrightarrow> rep (remove x h) a (xs @ ys)"
proof -
  assume "rep h a (xs @ x # ys)"
  then have r: "rep h x (ys @ a # xs)" by (rule rep_view)
  show ?thesis
  proof (cases ys)
    case Nil
    with r have "rep (remove x h) a xs" by (intro rep_remove) simp
    with Nil show ?thesis by simp
  next
    case (Cons z zs)
    with r have "rep (remove x h) z (zs @ a # xs)" by (intro rep_remove) simp
    then have "rep (remove x h) a (xs @ z # zs)" by (rule rep_view)
    with Cons show ?thesis by simp
  qed
qed

end

text \<open>Following \<^verbatim>\<open>list_next\<close>; in a ring of real nodes it is never null.\<close>

definition list_walk :: "list_heap \<Rightarrow> uintptr \<Rightarrow> uintptr" where
  "list_walk h p = list_next p h"

lemma list_walk_next [simp]: "list_walk h p = lnext h p"
  by (simp add: list_walk_def list_next_def)

interpretation rq: ring_queue ring list_init list_add_to_before list_del list_walk
  by unfold_locales (auto simp: ring_init ring_next intro: ring_add_before ring_del ring_rotate)

section \<open>Properties\<close>

text \<open>
  Property C24: the list is a queue. Adding nodes one after the other with \<^verbatim>\<open>list_add_to_before\<close> to
  a ring leaves a ring that \<^verbatim>\<open>list_next\<close> walks from the head through the old nodes and then the new
  ones in the order they were added, and back to the head.
\<close>

theorem list_add_to_before_queues:
  assumes "ring h a xs" and "distinct (a # xs @ ns)"
  shows "(\<forall>i \<le> length (xs @ ns).
      (list_walk (fold (list_add_to_before a) ns h) ^^ i) a = (a # xs @ ns) ! i) \<and>
    (list_walk (fold (list_add_to_before a) ns h) ^^ Suc (length (xs @ ns))) a = a"
  using rq.walk_reaches [OF rq.rep_adds [OF assms]] rq.walk_returns [OF rq.rep_adds [OF assms]]
  by blast

theorem list_add_to_before_queues_witness:
  "(list_walk (fold (list_add_to_before 8) [16, 24] (list_init 8 \<lparr>lprev = \<lambda>_. 0, lnext = \<lambda>_. 0\<rparr>)) ^^ 2) 8 = 24"
  using list_add_to_before_queues [OF ring_init, of 8 "[16, 24]"] by auto

text \<open>
  \<^verbatim>\<open>list_del\<close> takes exactly its node out of the ring, wherever it is, and the order of
  the others is kept; the links of the node itself are left as they were.
\<close>

theorem list_del_unlinks:
  assumes "ring h a (xs @ x # ys)"
  shows "ring (list_del x h) a (xs @ ys) \<and>
    lnext (list_del x h) x = lnext h x \<and> lprev (list_del x h) x = lprev h x"
proof -
  have "ring h x (ys @ a # xs)" by (rule ring_rotate [OF assms])
  then have "lnext h x \<noteq> x" "lprev h x \<noteq> x"
    using ring_next [of h x "ys @ a # xs"] ring_prev [of h x "ys @ a # xs"]
    by (cases ys; auto simp: ring_def split: if_splits)+
  then show ?thesis
    using rq.remove_member [OF assms] by (auto simp: list_del_def Let_def)
qed

theorem list_del_unlinks_witness:
  "ring (list_del 16 (list_add_to_before 8 24 (list_add_to_before 8 16
     (list_init 8 \<lparr>lprev = \<lambda>_. 0, lnext = \<lambda>_. 0\<rparr>)))) 8 [24]"
proof -
  have "ring (list_add_to_before 8 24 (list_add_to_before 8 16
      (list_init 8 \<lparr>lprev = \<lambda>_. 0, lnext = \<lambda>_. 0\<rparr>))) 8 ([] @ 16 # [24])"
    by (auto simp: ring_def list_init_def list_add_to_before_def Let_def)
  from list_del_unlinks [OF this] show ?thesis by simp
qed

text \<open>
  \<^verbatim>\<open>list_add_to_behind\<close> inserts right after its node, and \<^verbatim>\<open>list_del\<close> of the inserted
  node restores every link of the ring.
\<close>

theorem list_del_undoes_add_to_behind:
  assumes "ring h a xs" and "n \<notin> set (a # xs)"
  shows "ring (list_add_to_behind a n h) a (n # xs) \<and> ring (list_del n (list_add_to_behind a n h)) a xs \<and>
    (\<forall>p \<in> set (a # xs). lnext (list_del n (list_add_to_behind a n h)) p = lnext h p \<and>
      lprev (list_del n (list_add_to_behind a n h)) p = lprev h p)"
proof -
  have r: "ring (list_add_to_behind a n h) a ([] @ n # xs)"
    using ring_add_behind [OF assms] by simp
  have next_a: "lprev h (lnext h a) = a"
    using assms(1) by (cases xs) (auto simp: ring_def)
  have "\<forall>p \<in> set (a # xs). lnext (list_del n (list_add_to_behind a n h)) p = lnext h p \<and>
      lprev (list_del n (list_add_to_behind a n h)) p = lprev h p"
    using assms(2) next_a ring_next [OF assms(1)]
    by (cases xs) (auto simp: list_del_def list_add_to_behind_def Let_def)
  with r rq.remove_member [OF r] show ?thesis by simp
qed

theorem list_del_undoes_add_to_behind_witness:
  "ring (list_del 16 (list_add_to_behind 8 16 (list_init 8 \<lparr>lprev = \<lambda>_. 0, lnext = \<lambda>_. 0\<rparr>))) 8 []"
  using list_del_undoes_add_to_behind [OF ring_init, of 16 8 "\<lparr>lprev = \<lambda>_. 0, lnext = \<lambda>_. 0\<rparr>"] by simp

end
