(* ===== verification/Lib_String.thy ===== *)
theory Lib_String
  imports Prelude
begin

text \<open>
  The memory and string routines of \<^verbatim>\<open>include/lib.h\<close>, which are inline assembly. The string
  instructions they use are functions on the registers they read and a byte memory; addresses wrap
  at 64 bits. A routine that may run past every terminator is an option: \<open>None\<close> is a run without end.
\<close>

section \<open>Memory and string instructions\<close>

type_synonym mem8 = "uintptr \<Rightarrow> uint8"

definition load :: "mem8 \<Rightarrow> uintptr \<Rightarrow> nat \<Rightarrow> uint8 list" where
  "load m a n = map (\<lambda>i. m (a + of_nat i)) [0 ..< n]"

fun store :: "mem8 \<Rightarrow> uintptr \<Rightarrow> uint8 list \<Rightarrow> mem8" where
  "store m a [] = m"
| "store m a (b # bs) = store (m(a := b)) (a + 1) bs"

text \<open>\<^verbatim>\<open>movsb\<close>, \<^verbatim>\<open>movsw\<close>, \<^verbatim>\<open>movsl\<close>, \<^verbatim>\<open>movsq\<close>: \<open>w\<close> bytes are read, then written.\<close>

definition movs :: "nat \<Rightarrow> uintptr \<times> uintptr \<times> mem8 \<Rightarrow> uintptr \<times> uintptr \<times> mem8" where
  "movs w = (\<lambda>(si, di, m). (si + of_nat w, di + of_nat w, store m di (load m si w)))"

text \<open>\<^verbatim>\<open>stosb\<close> to \<^verbatim>\<open>stosq\<close>: the low \<open>w\<close> bytes of \<^verbatim>\<open>rax\<close>, little-endian.\<close>

definition bytes_of :: "uint64 \<Rightarrow> uint8 list" where
  "bytes_of v = map (\<lambda>i. ucast (drop_bit (8 * i) v)) [0 ..< 8]"

definition stos :: "nat \<Rightarrow> uint64 \<Rightarrow> uintptr \<times> mem8 \<Rightarrow> uintptr \<times> mem8" where
  "stos w rax = (\<lambda>(di, m). (di + of_nat w, store m di (take w (bytes_of rax))))"

text \<open>\<^verbatim>\<open>repne scasb\<close> with \<^verbatim>\<open>al = 0\<close>: what it leaves in \<^verbatim>\<open>rcx\<close> and \<^verbatim>\<open>rdi\<close>.\<close>

function scas0 :: "uint64 \<Rightarrow> uintptr \<Rightarrow> mem8 \<Rightarrow> uint64 \<times> uintptr" where
  "scas0 rcx di m =
     (if rcx = 0 then (rcx, di)
      else if m di = 0 then (rcx - 1, di + 1)
      else scas0 (rcx - 1) (di + 1) m)"
  by pat_completeness auto
termination
  by (relation "measure (\<lambda>(rcx, di, m). unat rcx)") (auto simp: unat_minus_one unat_gt_0)

declare scas0.simps [simp del]

section \<open>The routines\<close>

definition memcpy :: "uintptr \<Rightarrow> uintptr \<Rightarrow> uint64 \<Rightarrow> mem8 \<Rightarrow> mem8" where
  "memcpy Dst Src Num m =
     (let s0 = (movs 8 ^^ unat (Num div 8)) (Src, Dst, m);
          s1 = (if Num AND 4 = 0 then s0 else movs 4 s0);
          s2 = (if Num AND 2 = 0 then s1 else movs 2 s1);
          s3 = (if Num AND 1 = 0 then s2 else movs 1 s2)
      in snd (snd s3))"

definition memset :: "uintptr \<Rightarrow> uint8 \<Rightarrow> uint64 \<Rightarrow> mem8 \<Rightarrow> mem8" where
  "memset Address C Count m =
     (let tmp = ucast C * 0x0101010101010101;
          s0 = (stos 8 tmp ^^ unat (Count div 8)) (Address, m);
          s1 = (if Count AND 4 = 0 then s0 else stos 4 tmp s0);
          s2 = (if Count AND 2 = 0 then s1 else stos 2 tmp s1);
          s3 = (if Count AND 1 = 0 then s2 else stos 1 tmp s2)
      in snd s3)"

text \<open>
  The flags a comparison leaves, as the conditional jumps read them: \<^verbatim>\<open>je\<close> and \<^verbatim>\<open>jl\<close>. \<^verbatim>\<open>cmpsb\<close>
  subtracts the byte at \<^verbatim>\<open>rdi\<close> from the byte at \<^verbatim>\<open>rsi\<close>. With a count of zero \<^verbatim>\<open>repe cmpsb\<close> leaves
  the flags it finds, so they are an argument of \<^verbatim>\<open>memcmp\<close>.
\<close>

record flags =
  f_je :: bool
  f_jl :: bool

definition cmp8 :: "uint8 \<Rightarrow> uint8 \<Rightarrow> flags" where
  "cmp8 a b = \<lparr>f_je = (a = b), f_jl = (sint a < sint b)\<rparr>"

fun repe_cmps :: "nat \<Rightarrow> uintptr \<Rightarrow> uintptr \<Rightarrow> mem8 \<Rightarrow> flags \<Rightarrow> flags" where
  "repe_cmps 0 si di m f = f"
| "repe_cmps (Suc n) si di m f =
     (let f1 = cmp8 (m si) (m di) in if f_je f1 then repe_cmps n (si + 1) (di + 1) m f1 else f1)"

definition memcmp :: "uintptr \<Rightarrow> uintptr \<Rightarrow> uint64 \<Rightarrow> flags \<Rightarrow> mem8 \<Rightarrow> int" where
  "memcmp FirstPart SecondPart Count f0 m =
     (let f = repe_cmps (unat Count) SecondPart FirstPart m f0
      in if f_je f then 0 else if f_jl f then 1 else - 1)"

partial_function (option) strcpy_loop :: "uintptr \<Rightarrow> uintptr \<Rightarrow> mem8 \<Rightarrow> mem8 option" where
  "strcpy_loop si di m =
     (let al = m si; m1 = m(di := al)
      in if al \<noteq> 0 then strcpy_loop (si + 1) (di + 1) m1 else Some m1)"

definition strcpy :: "uintptr \<Rightarrow> uintptr \<Rightarrow> mem8 \<Rightarrow> mem8 option" where
  "strcpy Dst Src m = strcpy_loop Src Dst m"

lemma dec_less: "\<not> sint (c - 1) < 0 \<Longrightarrow> unat (c - 1) < unat (c :: uint64)"
proof -
  assume "\<not> sint (c - 1) < 0"
  then have "c \<noteq> 0" by auto
  then show "unat (c - 1) < unat c" by (simp add: unat_minus_one unat_gt_0)
qed

function strncpy_loop :: "uint64 \<Rightarrow> uintptr \<Rightarrow> uintptr \<Rightarrow> mem8 \<Rightarrow> mem8" where
  "strncpy_loop rcx si di m =
     (let c = rcx - 1 in
      if sint c < 0 then m
      else let al = m si; m1 = m(di := al)
           in if al \<noteq> 0 then strncpy_loop c (si + 1) (di + 1) m1
              else store m1 (di + 1) (replicate (unat c) 0))"
  by pat_completeness auto
termination
  by (relation "measure (\<lambda>(rcx, si, di, m). unat rcx)") (simp_all add: dec_less)

declare strncpy_loop.simps [simp del]

definition strncpy :: "uintptr \<Rightarrow> uintptr \<Rightarrow> uint64 \<Rightarrow> mem8 \<Rightarrow> mem8" where
  "strncpy Dest Src Count m = strncpy_loop Count Src Dest m"

definition strcat :: "uintptr \<Rightarrow> uintptr \<Rightarrow> mem8 \<Rightarrow> mem8 option" where
  "strcat Dest Src m = strcpy_loop Src (snd (scas0 0xffffffff Dest m) - 1) m"

partial_function (option) strcmp_loop :: "uintptr \<Rightarrow> uintptr \<Rightarrow> mem8 \<Rightarrow> int option" where
  "strcmp_loop si di m =
     (let f = cmp8 (m si) (m di)
      in if \<not> f_je f then Some (if f_jl f then 1 else - 1)
         else if m si \<noteq> 0 then strcmp_loop (si + 1) (di + 1) m else Some 0)"

definition strcmp :: "uintptr \<Rightarrow> uintptr \<Rightarrow> mem8 \<Rightarrow> int option" where
  "strcmp FirstPart SecondPart m = strcmp_loop SecondPart FirstPart m"

function strncmp_loop :: "uint64 \<Rightarrow> uintptr \<Rightarrow> uintptr \<Rightarrow> mem8 \<Rightarrow> int" where
  "strncmp_loop rcx si di m =
     (let c = rcx - 1 in
      if sint c < 0 then 0
      else let f = cmp8 (m si) (m di)
           in if \<not> f_je f then (if f_jl f then 1 else - 1)
              else if m si \<noteq> 0 then strncmp_loop c (si + 1) (di + 1) m else 0)"
  by pat_completeness auto
termination
  by (relation "measure (\<lambda>(rcx, si, di, m). unat rcx)")
    (simp_all add: dec_less)

declare strncmp_loop.simps [simp del]

definition strncmp :: "uintptr \<Rightarrow> uintptr \<Rightarrow> uint64 \<Rightarrow> mem8 \<Rightarrow> int" where
  "strncmp FirstPart SecondPart Count m = strncmp_loop Count SecondPart FirstPart m"

definition strlen :: "uintptr \<Rightarrow> mem8 \<Rightarrow> int" where
  "strlen String m =
     (let ecx = (ucast (fst (scas0 0xffffffff String m)) :: uint32) in sint (NOT ecx - 1))"

definition bit_set :: "uint64 \<Rightarrow> uint64 \<Rightarrow> uint64" where
  "bit_set v nr = v OR shl64 1 (unat nr)"

definition bit_get :: "uint64 \<Rightarrow> uint64 \<Rightarrow> uint64" where
  "bit_get v nr = v AND shl64 1 (unat nr)"

definition bit_clean :: "uint64 \<Rightarrow> uint64 \<Rightarrow> uint64" where
  "bit_clean v nr = v AND NOT (shl64 1 (unat nr))"

text \<open>\<^verbatim>\<open>get_remainder(n, base)\<close>: the quotient replaces \<open>n\<close>, the remainder is the value.\<close>

definition get_remainder :: "uint64 \<Rightarrow> uint64 \<Rightarrow> fault + int \<times> uint64" where
  "get_remainder n base =
     (if base = 0 then Inl DivideError else Inr (sint (ucast (n mod base) :: uint32), n div base))"

section \<open>Blocks of memory\<close>

text \<open>
  A block of \<open>n\<close> bytes at \<open>a\<close>, which may wrap around the end of the address space: the addresses
  whose distance from \<open>a\<close> is below \<open>n\<close>.
\<close>

definition block :: "uintptr \<Rightarrow> nat \<Rightarrow> uintptr set" where
  "block a n = {x. unat (x - a) < n}"

lemma block_iff: "x \<in> block a n \<longleftrightarrow> unat (x - a) < n"
  by (simp add: block_def)

lemma block_offset: "x \<in> block a n \<Longrightarrow> x = a + of_nat (unat (x - a))"
  by simp

lemma block_nth: "n \<le> 2 ^ 64 \<Longrightarrow> i < n \<Longrightarrow> a + of_nat i \<in> block a n"
  by (simp add: block_iff unat_of_nat take_bit_nat_eq_self)

lemma distance_Suc:
  assumes "x \<noteq> a"
  shows "unat (x - a :: uintptr) = Suc (unat (x - (a + 1)))"
proof -
  have eq: "x - (a + 1) = (x - a) - 1" by simp
  have "unat ((x - a) - 1) = unat (x - a) - 1" "unat (x - a) \<noteq> 0"
    using assms by (simp_all add: unat_minus_one unat_eq_zero)
  then show ?thesis unfolding eq by linarith
qed

lemma block_Suc:
  assumes "n < 2 ^ 64"
  shows "block a (Suc n) = insert a (block (a + 1) n)"
proof (rule set_eqI)
  fix x
  show "x \<in> block a (Suc n) \<longleftrightarrow> x \<in> insert a (block (a + 1) n)"
    by (cases "x = a") (simp_all add: block_iff distance_Suc)
qed

lemma block_not_first: "n < 2 ^ 64 \<Longrightarrow> a \<notin> block (a + 1) n"
  using unsigned_minus_1_eq_mask [where ?'a = nat and ?'b = 64]
  by (simp add: block_iff mask_eq_exp_minus_1)

lemma store_other: "x \<notin> block a (length bs) \<Longrightarrow> length bs \<le> 2 ^ 64 \<Longrightarrow> store m a bs x = m x"
  by (induction bs arbitrary: m a) (simp_all add: block_Suc)

lemma store_at:
  "length bs \<le> 2 ^ 64 \<Longrightarrow> x \<in> block a (length bs) \<Longrightarrow> store m a bs x = bs ! unat (x - a)"
proof (induction bs arbitrary: m a)
  case Nil
  then show ?case by (simp add: block_iff)
next
  case (Cons b bs)
  show ?case
  proof (cases "x = a")
    case True
    with Cons.prems show ?thesis
      by (simp add: store_other block_not_first)
  next
    case False
    with Cons.prems have x: "x \<in> block (a + 1) (length bs)" by (simp add: block_Suc)
    from distance_Suc [OF False] Cons x show ?thesis by simp
  qed
qed

lemma store_eq:
  "length bs \<le> 2 ^ 64 \<Longrightarrow>
   store m a bs = (\<lambda>x. if x \<in> block a (length bs) then bs ! unat (x - a) else m x)"
  by (auto simp: fun_eq_iff store_at store_other)

lemma block_0 [simp]: "block a 0 = {}"
  by (simp add: block_def)

lemma block_split:
  "c + w < 2 ^ 64 \<Longrightarrow> block a (c + w) = block a c \<union> block (a + of_nat c) w"
proof (induction c arbitrary: a)
  case 0
  then show ?case by simp
next
  case (Suc c)
  then show ?case
    using block_Suc [of "c + w" a] block_Suc [of c a] by (simp add: algebra_simps)
qed

lemma length_bytes_of [simp]: "length (bytes_of v) = 8"
  by (simp add: bytes_of_def)

lemma length_load [simp]: "length (load m a n) = n"
  by (simp add: load_def)

text \<open>How the count splits into quadwords and the rest that the low bits select.\<close>

lemma count_split:
  fixes v :: uint64
  shows "unat v = 8 * unat (v div 8) + (if v AND 4 = 0 then 0 else 4) +
    (if v AND 2 = 0 then 0 else 2) + (if v AND 1 = 0 then 0 else 1)"
proof -
  have and_bit: "v AND push_bit k 1 = 0 \<longleftrightarrow> even (unat v div 2 ^ k)" if "k < 64" for k
  proof -
    have "v AND push_bit k 1 = 0 \<longleftrightarrow> \<not> bit v k"
      using that by (auto intro!: word64_eqI simp: bit_and_iff bit_push_one simp del: push_bit_of_1
          dest: arg_cong [where f = "\<lambda>x. bit x k"])
    moreover have "bit v k \<longleftrightarrow> bit (unat v) k" by (simp add: bit_unsigned_iff)
    ultimately show ?thesis by (simp only: bit_iff_odd [of "unat v"]) simp
  qed
  have "(v AND 4 = 0) = even (unat v div 4)" "(v AND 2 = 0) = even (unat v div 2)"
    "(v AND 1 = 0) = even (unat v)"
    using and_bit [of 2] and_bit [of 1] and_bit [of 0] by simp_all
  moreover have "n = 8 * (n div 8) + (if even (n div 4) then 0 else 4) +
      (if even (n div 2) then 0 else 2) + (if even n then 0 else 1)" for n :: nat
    by presburger
  ultimately show ?thesis by (simp add: unat_div)
qed

text \<open>
  The common shape of \<^verbatim>\<open>memcpy\<close> and \<^verbatim>\<open>memset\<close>: quadwords by a repeated instruction, then a
  doubleword, a word and a byte as the low bits of the count say. \<open>st c\<close> is the state after \<open>c\<close> bytes.
\<close>

lemma rep_then_rest:
  fixes v :: uint64
  assumes step: "\<And>c w. w \<le> 8 \<Longrightarrow> c + w \<le> unat v \<Longrightarrow> f w (st c) = st (c + w)"
    and first: "s0 = (f 8 ^^ unat (v div 8)) (st 0)"
    and rest: "s1 = (if v AND 4 = 0 then s0 else f 4 s0)"
      "s2 = (if v AND 2 = 0 then s1 else f 2 s1)" "s3 = (if v AND 1 = 0 then s2 else f 1 s2)"
  shows "s3 = st (unat v)"
proof -
  have pow: "8 * k \<le> unat v \<Longrightarrow> (f 8 ^^ k) (st 0) = st (8 * k)" for k
    using step by (induction k) (simp_all add: add.commute)
  note n = count_split [of v]
  have s0: "s0 = st (8 * unat (v div 8))"
    unfolding first by (rule pow) (use n in linarith)
  have s1: "s1 = st (8 * unat (v div 8) + (if v AND 4 = 0 then 0 else 4))"
    unfolding rest(1) s0 using n step [of 4 "8 * unat (v div 8)"] by (simp split: if_splits)
  have s2: "s2 = st (8 * unat (v div 8) + (if v AND 4 = 0 then 0 else 4) + (if v AND 2 = 0 then 0 else 2))"
    unfolding rest(2) s1 using n step [of 2 "8 * unat (v div 8) + (if v AND 4 = 0 then 0 else 4)"]
    by (simp split: if_splits)
  show ?thesis
    unfolding rest(3) s2 using n step [of 1 "8 * unat (v div 8) + (if v AND 4 = 0 then 0 else 4) +
      (if v AND 2 = 0 then 0 else 2)"]
    by (cases "v AND 1 = 0") simp_all
qed

section \<open>Copying and filling\<close>

definition copied :: "uintptr \<Rightarrow> uintptr \<Rightarrow> nat \<Rightarrow> mem8 \<Rightarrow> mem8" where
  "copied dst src c m = (\<lambda>x. if x \<in> block dst c then m (src + (x - dst)) else m x)"

definition filled :: "uintptr \<Rightarrow> uint8 \<Rightarrow> nat \<Rightarrow> mem8 \<Rightarrow> mem8" where
  "filled a b c m = (\<lambda>x. if x \<in> block a c then b else m x)"

lemma movs_copied:
  assumes disj: "block src n \<inter> block dst n = {}" and le: "c + w \<le> n" and n: "n < 2 ^ 64"
  shows "movs w (src + of_nat c, dst + of_nat c, copied dst src c m) =
    (src + of_nat (c + w), dst + of_nat (c + w), copied dst src (c + w) m)"
proof -
  have "copied dst src c m (src + of_nat c + of_nat i) = m (src + of_nat c + of_nat i)" if "i < w" for i
  proof -
    have "src + of_nat (c + i) \<in> block src n"
      using that le n by (intro block_nth) simp_all
    moreover have "block dst c \<subseteq> block dst n" using le by (auto simp: block_iff)
    ultimately show ?thesis using disj by (auto simp: copied_def add.assoc)
  qed
  then have load: "load (copied dst src c m) (src + of_nat c) w = map (\<lambda>i. m (src + of_nat c + of_nat i)) [0 ..< w]"
    by (simp add: load_def)
  have split: "block dst (c + w) = block dst c \<union> block (dst + of_nat c) w"
    using le n by (intro block_split) simp
  have "store (copied dst src c m) (dst + of_nat c) (map (\<lambda>i. m (src + of_nat c + of_nat i)) [0 ..< w])
      = copied dst src (c + w) m"
  proof
    fix x
    show "store (copied dst src c m) (dst + of_nat c) (map (\<lambda>i. m (src + of_nat c + of_nat i)) [0 ..< w]) x
        = copied dst src (c + w) m x"
    proof (cases "x \<in> block (dst + of_nat c) w")
      case True
      then have "unat (x - (dst + of_nat c)) < w" by (simp add: block_iff)
      with True le n show ?thesis
        by (simp add: store_at copied_def split algebra_simps)
    next
      case False
      with le n show ?thesis by (simp add: store_other copied_def split)
    qed
  qed
  then show ?thesis by (simp add: movs_def load add.assoc)
qed

lemma copied_0 [simp]: "copied dst src 0 m = m"
  by (simp add: copied_def)

lemma filled_0 [simp]: "filled a b 0 m = m"
  by (simp add: filled_def)

lemma memcpy_copied:
  assumes "block Src (unat Num) \<inter> block Dst (unat Num) = {}"
  shows "memcpy Dst Src Num m = copied Dst Src (unat Num) m"
proof -
  let ?st = "\<lambda>c. (Src + of_nat c, Dst + of_nat c, copied Dst Src c m)"
  have step: "movs w (?st c) = ?st (c + w)" if "w \<le> 8" "c + w \<le> unat Num" for c w
    by (rule movs_copied [OF assms that(2)]) simp
  show ?thesis
    unfolding memcpy_def Let_def
    by (subst rep_then_rest [of Num movs ?st, OF step _ refl refl refl]) simp_all
qed

lemma byte_of_product:
  assumes "c < 256" and "l < B" and "x = l + c * B + h * (B * 256)"
  shows "x div B mod 256 = (c :: nat)"
proof -
  have "x = l + (c + h * 256) * B" using assms(3) by (simp add: algebra_simps)
  then have "x div B = c + h * 256" using assms(2) by simp
  then show ?thesis using assms(1) by simp
qed

lemma bytes_of_fill: "bytes_of (ucast C * 0x0101010101010101) = replicate 8 (C :: uint8)"
proof -
  let ?c = "unat C" and ?v = "ucast C * 0x0101010101010101 :: uint64"
  have c: "?c < 256" using unsigned_less [of C] by simp
  have v: "unat ?v = ?c * 72340172838076673"
  proof -
    have "?v = of_nat (?c * 72340172838076673)"
      by (simp only: of_nat_mult of_nat_unat of_nat_numeral)
    then have "unat ?v = unat (of_nat (?c * 72340172838076673) :: uint64)" by (rule arg_cong)
    also have "\<dots> = ?c * 72340172838076673"
      by (rule unat_of_nat_small) (use c in simp)
    finally show ?thesis .
  qed
  have byte: "(ucast (drop_bit (8 * i) ?v) :: uint8) = C" if "unat ?v div 2 ^ (8 * i) mod 256 = ?c" for i
    using that unfolding word_unat_eq_iff
    by (simp add: unsigned_ucast_eq unat_drop_bit take_bit_eq_mod)
  have "map (\<lambda>i. ucast (drop_bit (8 * i) ?v) :: uint8) [0 ..< 8] = map (\<lambda>i. C) [0 ..< 8]"
  proof (rule map_cong [OF refl], rule byte)
    fix i :: nat
    assume "i \<in> set [0 ..< 8]"
    then consider "i = 0" | "i = 1" | "i = 2" | "i = 3" | "i = 4" | "i = 5" | "i = 6" | "i = 7"
      by fastforce
    then show "unat ?v div 2 ^ (8 * i) mod 256 = ?c"
    proof cases
      case 1
      show ?thesis unfolding v by (rule byte_of_product [OF c, of 0 _ _ "?c * 282578800148737"]) (simp_all add: 1)
    next
      case 2
      show ?thesis unfolding v by (rule byte_of_product [OF c, of "?c * 1" _ _ "?c * 1103823438081"])
        (use c in \<open>simp_all add: 2\<close>)
    next
      case 3
      show ?thesis unfolding v by (rule byte_of_product [OF c, of "?c * 257" _ _ "?c * 4311810305"])
        (use c in \<open>simp_all add: 3\<close>)
    next
      case 4
      show ?thesis unfolding v by (rule byte_of_product [OF c, of "?c * 65793" _ _ "?c * 16843009"])
        (use c in \<open>simp_all add: 4\<close>)
    next
      case 5
      show ?thesis unfolding v by (rule byte_of_product [OF c, of "?c * 16843009" _ _ "?c * 65793"])
        (use c in \<open>simp_all add: 5\<close>)
    next
      case 6
      show ?thesis unfolding v by (rule byte_of_product [OF c, of "?c * 4311810305" _ _ "?c * 257"])
        (use c in \<open>simp_all add: 6\<close>)
    next
      case 7
      show ?thesis unfolding v by (rule byte_of_product [OF c, of "?c * 1103823438081" _ _ "?c * 1"])
        (use c in \<open>simp_all add: 7\<close>)
    next
      case 8
      show ?thesis unfolding v by (rule byte_of_product [OF c, of "?c * 282578800148737" _ _ 0])
        (use c in \<open>simp_all add: 8\<close>)
    qed
  qed
  then show ?thesis by (simp add: bytes_of_def map_replicate_const)
qed

lemma stos_filled:
  assumes "bytes_of v = replicate 8 b" and "w \<le> 8" and "c + w < 2 ^ 64"
  shows "stos w v (a + of_nat c, filled a b c m) = (a + of_nat (c + w), filled a b (c + w) m)"
proof -
  have split: "block a (c + w) = block a c \<union> block (a + of_nat c) w"
    using assms(3) by (rule block_split)
  have "store (filled a b c m) (a + of_nat c) (replicate w b) = filled a b (c + w) m"
    using assms(3) by (auto simp: store_eq filled_def split fun_eq_iff block_iff)
  with assms(1,2) show ?thesis by (simp add: stos_def take_replicate min_def add.assoc)
qed

lemma memset_filled: "memset Address C Count m = filled Address C (unat Count) m"
proof -
  let ?v = "ucast C * 0x0101010101010101 :: uint64"
  let ?st = "\<lambda>c. (Address + of_nat c, filled Address C c m)"
  have step: "stos w ?v (?st c) = ?st (c + w)" if "w \<le> 8" "c + w \<le> unat Count" for c w
    by (rule stos_filled [OF bytes_of_fill that(1)])
      (rule le_less_trans [OF that(2)], simp)
  show ?thesis
    unfolding memset_def Let_def
    by (subst rep_then_rest [of Count "\<lambda>w. stos w ?v" ?st, OF step _ refl refl refl]) simp_all
qed

section \<open>Terminated strings\<close>

text \<open>\<open>cstr m a n\<close>: the first zero byte at or after \<open>a\<close> is at distance \<open>n\<close>.\<close>

definition cstr :: "mem8 \<Rightarrow> uintptr \<Rightarrow> nat \<Rightarrow> bool" where
  "cstr m a n \<longleftrightarrow> n < 2 ^ 64 \<and> m (a + of_nat n) = 0 \<and> (\<forall>i < n. m (a + of_nat i) \<noteq> 0)"

lemma cstr_0 [simp]: "cstr m a 0 \<longleftrightarrow> m a = 0"
  by (simp add: cstr_def)

lemma cstr_Suc: "cstr m a (Suc n) \<longleftrightarrow> Suc n < 2 ^ 64 \<and> m a \<noteq> 0 \<and> cstr m (a + 1) n"
  by (auto simp: cstr_def All_less_Suc2 add.assoc)

lemma block_tail:
  assumes "x \<in> block (a + of_nat c) w" and "c + w < 2 ^ 64"
  shows "unat (x - a) = c + unat (x - (a + of_nat c))"
proof -
  have "x - (a + of_nat c) + of_nat c = x - a" by simp
  then show ?thesis
    using assms unat_add_nat [of "x - (a + of_nat c)" c] by (simp add: block_iff)
qed

text \<open>The scan stops one past the terminator.\<close>

lemma scas0_found:
  "cstr m di n \<Longrightarrow> n < unat rcx \<Longrightarrow> scas0 rcx di m = (rcx - of_nat (n + 1), di + of_nat (n + 1))"
proof (induction n arbitrary: rcx di)
  case 0
  then show ?case by (subst scas0.simps) (auto simp: unat_eq_zero)
next
  case (Suc n)
  have "rcx \<noteq> 0" using Suc.prems(2) by auto
  moreover from this have "unat (rcx - 1) = unat rcx - 1" by (simp add: unat_minus_one)
  moreover have "scas0 (rcx - 1) (di + 1) m = (rcx - 1 - of_nat (n + 1), di + 1 + of_nat (n + 1))"
    using Suc calculation by (intro Suc.IH) (auto simp: cstr_Suc)
  ultimately show ?case
    using Suc.prems by (subst scas0.simps) (simp add: cstr_Suc algebra_simps)
qed

lemma copied_one:
  assumes "block src (Suc n) \<inter> block dst (Suc n) = {}" and "c \<le> n" and "n + 1 < 2 ^ 64"
  shows "(copied dst src c m)(dst + of_nat c := copied dst src c m (src + of_nat c)) = copied dst src (Suc c) m"
    and "copied dst src c m (src + of_nat c) = m (src + of_nat c)"
proof -
  have "movs 1 (src + of_nat c, dst + of_nat c, copied dst src c m) =
      (src + of_nat (c + 1), dst + of_nat (c + 1), copied dst src (c + 1) m)"
    by (rule movs_copied [OF assms(1)]) (use assms(2,3) in simp_all)
  then show "(copied dst src c m)(dst + of_nat c := copied dst src c m (src + of_nat c)) = copied dst src (Suc c) m"
    by (simp add: movs_def load_def)
  have "src + of_nat c \<in> block src (Suc n)" using assms(2,3) by (intro block_nth) simp_all
  moreover have "block dst c \<subseteq> block dst (Suc n)" using assms(2) by (auto simp: block_iff)
  ultimately show "copied dst src c m (src + of_nat c) = m (src + of_nat c)"
    using assms(1) by (auto simp: copied_def)
qed

lemma strcpy_loop_copied:
  assumes "block src (Suc n) \<inter> block dst (Suc n) = {}" and "cstr m src n" and "n + 1 < 2 ^ 64"
  shows "c \<le> n \<Longrightarrow> strcpy_loop (src + of_nat c) (dst + of_nat c) (copied dst src c m) =
    Some (copied dst src (Suc n) m)"
proof (induction "n - c" arbitrary: c)
  case 0
  with copied_one [OF assms(1) _ assms(3), of n m] assms(2) show ?case
    by (subst strcpy_loop.simps) (simp add: cstr_def Let_def)
next
  case (Suc k)
  then have "c < n" by simp
  with assms(2) have "m (src + of_nat c) \<noteq> 0" by (simp add: cstr_def)
  moreover have "strcpy_loop (src + of_nat (Suc c)) (dst + of_nat (Suc c)) (copied dst src (Suc c) m) =
      Some (copied dst src (Suc n) m)"
    using Suc by (intro Suc.hyps) simp_all
  ultimately show ?case
    using copied_one [OF assms(1) Suc.prems assms(3), of m]
    by (subst strcpy_loop.simps) (simp add: Let_def add.assoc add.commute add.left_commute)
qed

text \<open>
  The bounded copy, seen from offset \<open>c\<close>: \<open>padded c\<close> has copied \<open>c\<close> bytes; the rest is copied up to
  the terminator and filled with zeros.
\<close>

definition padded :: "uintptr \<Rightarrow> uintptr \<Rightarrow> nat \<Rightarrow> nat \<Rightarrow> mem8 \<Rightarrow> mem8" where
  "padded dst src n k m = (\<lambda>x. if x \<in> block dst k
     then (if unat (x - dst) < n then m (src + (x - dst)) else 0) else m x)"

lemma dec_count:
  assumes "0 < k" and "k < 2 ^ 63"
  shows "unat (of_nat k - 1 :: uint64) = k - 1" and "\<not> sint (of_nat k - 1 :: uint64) < 0"
proof -
  have eq: "(of_nat k - 1 :: uint64) = of_nat (k - 1)" using assms(1) by simp
  show u: "unat (of_nat k - 1 :: uint64) = k - 1"
    unfolding eq using assms(2) by (intro unat_of_nat_small) simp
  show "\<not> sint (of_nat k - 1 :: uint64) < 0"
    unfolding eq not_less using assms(2) by (simp add: signed_of_nat signed_take_bit_int_eq_self)
qed

lemma strncpy_loop_padded:
  assumes "block src k \<inter> block dst k = {}" and "k < 2 ^ 63" and "\<forall>i < min n k. m (src + of_nat i) \<noteq> 0"
    and "n < k \<longrightarrow> m (src + of_nat n) = 0"
  shows "c \<le> k \<Longrightarrow> c \<le> n \<Longrightarrow>
    strncpy_loop (of_nat (k - c)) (src + of_nat c) (dst + of_nat c) (copied dst src c m) = padded dst src n k m"
proof (induction "k - c" arbitrary: c)
  case 0
  have "copied dst src k m = padded dst src n k m"
    using 0 by (auto simp: copied_def padded_def fun_eq_iff block_iff)
  with 0 show ?case by (subst strncpy_loop.simps) simp
next
  case (Suc j)
  then have lt: "c < k" "c \<le> k - 1" "k - 1 + 1 < 2 ^ 64" "Suc (k - 1) = k"
    using assms(2) by simp_all
  note one = copied_one [of src "k - 1" dst c m, unfolded lt(4), OF assms(1) lt(2,3)]
  have dec: "\<not> sint (of_nat (k - c) - 1 :: uint64) < 0" "unat (of_nat (k - c) - 1 :: uint64) = k - c - 1"
    using dec_count [of "k - c"] assms(2) lt(1) by simp_all
  show ?case
  proof (cases "c = n")
    case True
    then have z: "m (src + of_nat c) = 0" using assms(4) lt(1) by simp
    have "store (copied dst src (Suc c) m) (dst + of_nat c + 1) (replicate (k - c - 1) 0) = padded dst src n k m"
    proof
      fix x
      have split: "block dst k = block dst (Suc c) \<union> block (dst + of_nat c + 1) (k - c - 1)"
        using block_split [of "Suc c" "k - c - 1" dst] lt assms(2)
        by (simp add: algebra_simps)
      show "store (copied dst src (Suc c) m) (dst + of_nat c + 1) (replicate (k - c - 1) 0) x = padded dst src n k m x"
      proof (cases "x \<in> block (dst + of_nat c + 1) (k - c - 1)")
        case tail: True
        then have "\<not> unat (x - dst) < n"
          using block_tail [of x dst "Suc c" "k - c - 1"] assms(2) lt(1) True
          by (simp add: algebra_simps)
        with tail assms(2) show ?thesis
          by (simp add: store_eq padded_def split) (simp add: block_iff)
      next
        case False
        have "x - dst = of_nat c" if "unat (x - dst) < Suc c" "\<not> unat (x - dst) < c"
        proof -
          from that have "unat (x - dst) = c" by simp
          then have "of_nat (unat (x - dst)) = (of_nat c :: uint64)" by (rule arg_cong)
          then show ?thesis by simp
        qed
        with False z True assms(2) show ?thesis
          by (auto simp: store_eq padded_def copied_def split block_iff)
      qed
    qed
    with z one dec show ?thesis
      by (subst strncpy_loop.simps) (simp add: Let_def)
  next
    case False
    with Suc.prems have "c < n" by simp
    then have nz: "m (src + of_nat c) \<noteq> 0" using assms(3) lt(1) by simp
    have "strncpy_loop (of_nat (k - Suc c)) (src + of_nat (Suc c)) (dst + of_nat (Suc c))
        (copied dst src (Suc c) m) = padded dst src n k m"
      using Suc \<open>c < n\<close> by (intro Suc.hyps) simp_all
    moreover have "(of_nat (k - c) - 1 :: uint64) = of_nat (k - Suc c)" using lt(1) by (simp add: of_nat_diff)
    ultimately show ?thesis
      using nz one dec
      by (subst strncpy_loop.simps) (simp add: Let_def add.assoc add.commute add.left_commute)
  qed
qed

text \<open>What a comparison returns when the first position that ends it is \<open>n\<close>.\<close>

definition verdict :: "uint8 \<Rightarrow> uint8 \<Rightarrow> int" where
  "verdict first second = (if first = second then 0 else if sint second < sint first then 1 else - 1)"

definition ends_at :: "mem8 \<Rightarrow> uintptr \<Rightarrow> uintptr \<Rightarrow> nat \<Rightarrow> bool" where
  "ends_at m a b n \<longleftrightarrow> (\<forall>i < n. m (a + of_nat i) = m (b + of_nat i) \<and> m (b + of_nat i) \<noteq> 0) \<and>
     (m (a + of_nat n) = m (b + of_nat n) \<longrightarrow> m (b + of_nat n) = 0)"

lemma ends_at_Suc:
  "ends_at m a b (Suc n) \<longleftrightarrow> m a = m b \<and> m b \<noteq> 0 \<and> ends_at m (a + 1) (b + 1) n"
  by (auto simp: ends_at_def All_less_Suc2 add.assoc)

lemma strcmp_loop_ends:
  "ends_at m a b n \<Longrightarrow> strcmp_loop b a m = Some (verdict (m (a + of_nat n)) (m (b + of_nat n)))"
proof (induction n arbitrary: a b)
  case 0
  then show ?case
    by (subst strcmp_loop.simps) (auto simp: ends_at_def cmp8_def verdict_def Let_def)
next
  case (Suc n)
  then have "strcmp_loop (b + 1) (a + 1) m =
      Some (verdict (m (a + 1 + of_nat n)) (m (b + 1 + of_nat n)))"
    by (simp add: ends_at_Suc)
  with Suc.prems show ?case
    by (subst strcmp_loop.simps) (simp add: ends_at_Suc cmp8_def Let_def add.assoc)
qed

lemma ends_at_exists:
  assumes "cstr m a p" and "cstr m b q"
  shows "\<exists>n. n \<le> p \<and> n \<le> q \<and> ends_at m a b n \<and>
    (m (a + of_nat n) = m (b + of_nat n) \<longleftrightarrow> load m a p = load m b q)"
  using assms
proof (induction p arbitrary: a b q)
  case 0
  then show ?case
    by (intro exI [of _ 0]) (cases q, auto simp: ends_at_def cstr_Suc load_def)
next
  case (Suc p)
  have load_Suc: "load m a 0 = []" "load m a (Suc n) = m a # load m (a + 1) n" for a n
    by (simp_all add: load_def upt_conv_Cons o_def add.assoc del: upt_Suc flip: map_Suc_upt)
  show ?case
  proof (cases "m a = m b")
    case False
    then show ?thesis
      using Suc.prems by (intro exI [of _ 0]) (cases q, auto simp: ends_at_def load_Suc)
  next
    case True
    with Suc.prems obtain q' where q: "q = Suc q'" by (cases q) (auto simp: cstr_Suc)
    with Suc.prems obtain n where "n \<le> p" "n \<le> q'" "ends_at m (a + 1) (b + 1) n"
      "m (a + 1 + of_nat n) = m (b + 1 + of_nat n) \<longleftrightarrow> load m (a + 1) p = load m (b + 1) q'"
      using Suc.IH [of "a + 1" "b + 1" q'] by (auto simp: cstr_Suc)
    with Suc.prems q True show ?thesis
      by (intro exI [of _ "Suc n"]) (simp add: ends_at_Suc cstr_Suc load_Suc add.assoc)
  qed
qed

lemma repe_cmps_equal:
  "(\<And>i. i < n \<Longrightarrow> m (si + of_nat i) = m (di + of_nat i)) \<Longrightarrow> f_je (repe_cmps n si di m f) = (n = 0 \<longrightarrow> f_je f)"
proof (induction n arbitrary: si di f)
  case 0
  then show ?case by simp
next
  case (Suc n)
  from Suc.prems [of 0] have "m si = m di" by simp
  moreover have "m (si + 1 + of_nat i) = m (di + 1 + of_nat i)" if "i < n" for i
    using Suc.prems [of "Suc i"] that by (simp add: add.assoc)
  ultimately show ?case
    using Suc.IH [of "si + 1" "di + 1" "cmp8 (m di) (m di)"] by (simp add: cmp8_def Let_def)
qed

lemma repe_cmps_differ:
  "i < n \<Longrightarrow> (\<And>j. j < i \<Longrightarrow> m (si + of_nat j) = m (di + of_nat j)) \<Longrightarrow>
   m (si + of_nat i) \<noteq> m (di + of_nat i) \<Longrightarrow>
   repe_cmps n si di m f = cmp8 (m (si + of_nat i)) (m (di + of_nat i))"
proof (induction i arbitrary: n si di f)
  case 0
  then show ?case by (cases n) (simp_all add: cmp8_def Let_def)
next
  case (Suc i)
  obtain k where k: "n = Suc k" "i < k" using Suc.prems(1) by (cases n) auto
  from Suc.prems(2) [of 0] have "m si = m di" by simp
  moreover have "m (si + 1 + of_nat j) = m (di + 1 + of_nat j)" if "j < i" for j
    using Suc.prems(2) [of "Suc j"] that by (simp add: add.assoc)
  ultimately show ?case
    using Suc.IH [OF k(2), of "si + 1" "di + 1" "cmp8 (m di) (m di)"] Suc.prems(3) k
    by (simp add: cmp8_def Let_def add.assoc)
qed

section \<open>What clients of the block operations rely on\<close>

locale block_ops =
  fixes copy :: "uintptr \<Rightarrow> uintptr \<Rightarrow> uint64 \<Rightarrow> mem8 \<Rightarrow> mem8"
    and fill :: "uintptr \<Rightarrow> uint8 \<Rightarrow> uint64 \<Rightarrow> mem8 \<Rightarrow> mem8"
  assumes copy_block: "block src (unat n) \<inter> block dst (unat n) = {} \<Longrightarrow>
      copy dst src n m x = (if x \<in> block dst (unat n) then m (src + (x - dst)) else m x)"
    and fill_block: "fill a b n m x = (if x \<in> block a (unat n) then b else m x)"
begin

lemma block_move: "x \<in> block a n \<Longrightarrow> b + (x - a) \<in> block b n"
  by (simp add: block_iff)

lemma copy_back:
  assumes "block src (unat n) \<inter> block dst (unat n) = {}"
  shows "copy src dst n (copy dst src n m) = copy dst src n m"
proof
  fix x
  have d: "block dst (unat n) \<inter> block src (unat n) = {}" using assms by blast
  show "copy src dst n (copy dst src n m) x = copy dst src n m x"
    using block_move [of x src "unat n" dst] assms by (auto simp: copy_block [OF d] copy_block [OF assms])
qed

lemma fill_twice: "fill a b n (fill a c n m) = fill a b n m"
  by (rule ext) (simp add: fill_block)

lemma fill_then_copy:
  assumes "block src (unat n) \<inter> block a (unat k) = {}" and "unat n \<le> unat k" and "x \<in> block a (unat k)"
  shows "copy a src n (fill a b k m) x = (if x \<in> block a (unat n) then m (src + (x - a)) else b)"
proof -
  have "block a (unat n) \<subseteq> block a (unat k)" using assms(2) by (auto simp: block_iff)
  with assms(1) have "block src (unat n) \<inter> block a (unat n) = {}" by blast
  moreover have "src + (x - a) \<notin> block a (unat k)" if "x \<in> block a (unat n)"
    using block_move [OF that, of src] assms(1) by blast
  ultimately show ?thesis using assms(3) by (simp add: copy_block fill_block)
qed

end

interpretation bo: block_ops memcpy memset
  by unfold_locales (simp_all add: memcpy_copied copied_def memset_filled filled_def)

section \<open>Properties\<close>

text \<open>
  Property C22: \<^verbatim>\<open>memcpy\<close> copies exactly \<^verbatim>\<open>Num\<close> bytes, for every count and whatever its remainder
  modulo eight, when source and destination do not overlap: byte \<open>i\<close> of the destination is byte \<open>i\<close>
  of the source and no other byte changes.
\<close>

theorem memcpy_exact:
  assumes "block Src (unat Num) \<inter> block Dst (unat Num) = {}"
  shows "memcpy Dst Src Num m x =
    (if unat (x - Dst) < unat Num then m (Src + (x - Dst)) else m x)"
  using bo.copy_block [OF assms] by (simp add: block_iff)

definition hello :: mem8 where
  "hello = (\<lambda>a. if a = 0x1000 then 72 else if a = 0x1001 then 105 else if a = 0x2000 then 72
     else if a = 0x2001 then 111 else if a = 0x1002 \<or> a = 0x2002 then 0 else 46)"

lemma block_inner: "unat off + n \<le> k \<Longrightarrow> k < 2 ^ 64 \<Longrightarrow> block (a + off) n \<subseteq> block a k"
proof
  fix x
  assume n: "unat off + n \<le> k" "k < 2 ^ 64" and "x \<in> block (a + off) n"
  then have x: "unat (x - (a + off)) < n" by (simp add: block_iff)
  have "x - a = (x - (a + off)) + off" by simp
  moreover have "unat ((x - (a + off)) + off) = unat (x - (a + off)) + unat off"
    by (rule unat_add_small) (use n x in simp)
  ultimately show "x \<in> block a k" using n x by (simp add: block_iff)
qed

lemma block_three: "block a 3 = {a, a + 1, a + 2}"
proof -
  have "block a 3 = block a (Suc (Suc (Suc 0)))" by (simp add: numeral_3_eq_3)
  also have "\<dots> = {a, a + 1, a + 2}" by (simp add: block_Suc add.assoc)
  finally show ?thesis .
qed

theorem memcpy_exact_witness: "memcpy 0x2000 0x1000 3 hello 0x2001 = 105"
  by (subst memcpy_exact) (simp_all add: block_three hello_def)

text \<open>
  \<^verbatim>\<open>memset\<close> writes its byte to exactly \<^verbatim>\<open>Count\<close> addresses from \<^verbatim>\<open>Address\<close>, wrapping
  around the end of memory, and a structure cleared with it and then filled by a shorter \<^verbatim>\<open>memcpy\<close>
  reads as the copied bytes followed by zeros.
\<close>

theorem memset_then_memcpy:
  "memset a b k m x = (if unat (x - a) < unat k then b else m x) \<and>
   (block src (unat n) \<inter> block a (unat k) = {} \<and> unat n \<le> unat k \<and> unat (x - a) < unat k \<longrightarrow>
     memcpy a src n (memset a b k m) x = (if unat (x - a) < unat n then m (src + (x - a)) else b))"
  using bo.fill_then_copy [of src n a k x b m] by (auto simp: bo.fill_block block_iff)

theorem memset_then_memcpy_witness:
  "memcpy 0x1000 0x2000 2 (memset 0x1000 7 3 hello) 0x1001 = 111 \<and>
   memcpy 0x1000 0x2000 2 (memset 0x1000 7 3 hello) 0x1002 = 7"
proof -
  have "block 0x2000 (unat (2 :: uint64)) \<inter> block 0x1000 (unat (3 :: uint64)) = {}"
    by (auto simp: block_three) (auto simp: block_iff)
  then show ?thesis
    using memset_then_memcpy [where a = "0x1000" and b = 7 and k = 3 and m = hello and x = "0x1001"
        and src = "0x2000" and n = 2]
      memset_then_memcpy [where a = "0x1000" and b = 7 and k = 3 and m = hello and x = "0x1002"
        and src = "0x2000" and n = 2]
    by (simp add: hello_def)
qed

text \<open>
  \<^verbatim>\<open>memcmp\<close> on a positive count returns 0 for equal blocks and otherwise compares the
  first bytes that differ, as signed values. On a count of zero it returns what the flags of the
  preceding code happen to say.
\<close>

theorem memcmp_first_difference:
  shows "(unat Count > 0 \<and> (\<forall>i < unat Count. m (a + of_nat i) = m (b + of_nat i)) \<longrightarrow>
      memcmp a b Count f m = 0) \<and>
    (\<forall>i < unat Count. (\<forall>j < i. m (a + of_nat j) = m (b + of_nat j)) \<and>
      m (a + of_nat i) \<noteq> m (b + of_nat i) \<longrightarrow>
      memcmp a b Count f m = (if sint (m (b + of_nat i)) < sint (m (a + of_nat i)) then 1 else - 1)) \<and>
    memcmp a b 0 f m = (if f_je f then 0 else if f_jl f then 1 else - 1)"
proof (intro conjI allI impI)
  assume eq: "unat Count > 0 \<and> (\<forall>i < unat Count. m (a + of_nat i) = m (b + of_nat i))"
  then have "f_je (repe_cmps (unat Count) b a m f)"
    using repe_cmps_equal [of "unat Count" m b a f] by auto
  then show "memcmp a b Count f m = 0" by (simp add: memcmp_def)
next
  fix i
  assume "i < unat Count" and d: "(\<forall>j < i. m (a + of_nat j) = m (b + of_nat j)) \<and>
      m (a + of_nat i) \<noteq> m (b + of_nat i)"
  then have "repe_cmps (unat Count) b a m f = cmp8 (m (b + of_nat i)) (m (a + of_nat i))"
    by (intro repe_cmps_differ) auto
  moreover have "m (b + of_nat i) \<noteq> m (a + of_nat i)" using d by metis
  ultimately show "memcmp a b Count f m = (if sint (m (b + of_nat i)) < sint (m (a + of_nat i)) then 1 else - 1)"
    by (simp add: memcmp_def cmp8_def)
qed (simp add: memcmp_def)

theorem memcmp_first_difference_witness:
  "memcmp 0x1000 0x2000 3 \<lparr>f_je = False, f_jl = True\<rparr> hello = - 1 \<and>
   memcmp 0x1000 0x2000 0 \<lparr>f_je = False, f_jl = True\<rparr> hello = 1"
proof -
  have d: "(\<forall>j < 1. hello (0x1000 + of_nat j) = hello (0x2000 + of_nat j)) \<and>
      hello (0x1000 + of_nat 1) \<noteq> hello (0x2000 + of_nat 1)"
    by (simp add: hello_def)
  have "1 < unat (3 :: uint64)" by simp
  with d memcmp_first_difference [where Count = 3 and m = hello and a = "0x1000" and b = "0x2000"
      and f = "\<lparr>f_je = False, f_jl = True\<rparr>"]
  have "memcmp 0x1000 0x2000 3 \<lparr>f_je = False, f_jl = True\<rparr> hello =
      (if sint (hello (0x2000 + of_nat 1)) < sint (hello (0x1000 + of_nat 1)) then 1 else - 1)"
    by blast
  then show ?thesis
    using memcmp_first_difference [where Count = 3 and m = hello and a = "0x1000" and b = "0x2000"
      and f = "\<lparr>f_je = False, f_jl = True\<rparr>"]
    by (simp add: hello_def)
qed

lemma strlen_cstr:
  assumes "cstr m a n" and "n < 2 ^ 31"
  shows "strlen a m = int n"
proof -
  have "scas0 0xffffffff a m = (0xffffffff - of_nat (n + 1), a + of_nat (n + 1))"
    using assms by (intro scas0_found) simp_all
  moreover have "(ucast (0xffffffff - of_nat (n + 1) :: uint64) :: uint32) = - 1 - of_nat (n + 1)"
  proof -
    have "(0xffffffff - of_nat (n + 1) :: uint64) = of_nat (4294967294 - n)"
      using assms(2) by (simp add: of_nat_diff)
    then have "unat (0xffffffff - of_nat (n + 1) :: uint64) = 4294967294 - n"
      by (simp only: unat_of_nat_small)
    then have "(ucast (0xffffffff - of_nat (n + 1) :: uint64) :: uint32) = of_nat (4294967294 - n)"
      by (metis of_nat_unat)
    also have "\<dots> = - 1 - of_nat (n + 1)"
      using assms(2) by (simp add: of_nat_diff)
    finally show ?thesis .
  qed
  moreover have "NOT (- 1 - of_nat (n + 1)) - 1 = (of_nat n :: uint32)"
    by (simp add: not_eq_complement)
  moreover have "sint (of_nat n :: uint32) = int n"
    using assms(2) by (simp add: signed_of_nat signed_take_bit_int_eq_self)
  ultimately show ?thesis by (simp add: strlen_def Let_def)
qed

text \<open>
  Property C35: \<^verbatim>\<open>strcpy\<close> of a terminated string to a place that does not overlap it returns, copies
  the string with its terminator and nothing else, and the copy has the length of the string and
  compares equal to it.
\<close>

theorem strcpy_copies:
  assumes "cstr m Src n" and "n < 2 ^ 31" and "block Src (n + 1) \<inter> block Dst (n + 1) = {}"
  shows "\<exists>m'. strcpy Dst Src m = Some m' \<and>
    (\<forall>x. m' x = (if unat (x - Dst) < n + 1 then m (Src + (x - Dst)) else m x)) \<and>
    strlen Dst m' = int n \<and> strcmp Dst Src m' = Some 0"
proof -
  let ?m = "copied Dst Src (Suc n) m"
  have "strcpy Dst Src m = Some ?m"
    using strcpy_loop_copied [of Src n Dst m 0] assms by (simp add: strcpy_def)
  moreover have x: "?m x = (if unat (x - Dst) < n + 1 then m (Src + (x - Dst)) else m x)" for x
    by (simp add: copied_def block_iff)
  moreover have dst: "?m (Dst + of_nat i) = m (Src + of_nat i)" if "i \<le> n" for i
    using that assms(2) by (simp add: x unat_of_nat_small)
  moreover have src: "?m (Src + of_nat i) = m (Src + of_nat i)" if "i \<le> n" for i
  proof -
    have "Src + of_nat i \<in> block Src (n + 1)" using that assms(2) by (intro block_nth) simp_all
    with assms(3) have "Src + of_nat i \<notin> block Dst (n + 1)" by blast
    then show ?thesis by (simp add: copied_def)
  qed
  moreover have "cstr ?m Dst n" using assms(1) dst by (simp add: cstr_def)
  then have "strlen Dst ?m = int n" using assms(2) by (rule strlen_cstr)
  moreover have "ends_at ?m Dst Src n" using assms(1) dst src by (simp add: ends_at_def cstr_def)
  then have "strcmp Dst Src ?m = Some 0"
    using dst [of n] src [of n] by (simp add: strcmp_def strcmp_loop_ends verdict_def)
  ultimately show ?thesis by blast
qed

lemma cstr_hello: "cstr hello 0x1000 2" "cstr hello 0x2000 2"
proof -
  have "cstr hello 0x1000 (Suc (Suc 0))" "cstr hello 0x2000 (Suc (Suc 0))"
    by (simp_all add: cstr_Suc hello_def)
  then show "cstr hello 0x1000 2" "cstr hello 0x2000 2" by (simp_all add: numeral_2_eq_2)
qed

theorem strcpy_copies_witness:
  "\<exists>m'. strcpy 0x3000 0x1000 hello = Some m' \<and> m' 0x3001 = 105 \<and> strlen 0x3000 m' = 2"
proof -
  have "block 0x1000 (2 + 1) \<inter> block 0x3000 (2 + 1) = {}"
    by (auto simp: block_three)
  then obtain m' where "strcpy 0x3000 0x1000 hello = Some m'"
    "\<forall>x. m' x = (if unat (x - 0x3000) < 2 + 1 then hello (0x1000 + (x - 0x3000)) else hello x)"
    "strlen 0x3000 m' = int 2"
    using strcpy_copies [where Dst = "0x3000", OF cstr_hello(1)] by auto
  then show ?thesis by (simp add: hello_def)
qed

text \<open>
  \<^verbatim>\<open>strncpy\<close> always writes exactly \<^verbatim>\<open>Count\<close> bytes: the string up to its terminator and
  zeros from there on, and no terminator when the string has at least \<^verbatim>\<open>Count\<close> characters. A count
  that is negative as a signed number writes nothing, except the smallest one, whose decrement wraps.
\<close>

theorem strncpy_pads:
  assumes "block Src k \<inter> block Dst k = {}" and "k < 2 ^ 63" and "cstr m Src n"
  shows "strncpy Dst Src (of_nat k) m x =
    (if unat (x - Dst) < k then (if unat (x - Dst) < n then m (Src + (x - Dst)) else 0) else m x)"
proof -
  have "strncpy_loop (of_nat (k - 0)) (Src + of_nat 0) (Dst + of_nat 0) (copied Dst Src 0 m) = padded Dst Src n k m"
    by (rule strncpy_loop_padded [OF assms(1,2)]) (use assms(3) in \<open>auto simp: cstr_def\<close>)
  then show ?thesis by (simp add: strncpy_def padded_def block_iff)
qed

theorem strncpy_pads_witness:
  "strncpy 0x3000 0x1000 3 hello 0x3001 = 105 \<and> strncpy 0x3000 0x1000 3 hello 0x3002 = 0 \<and>
   strncpy 0x3000 0x1000 3 hello 0x3003 = 46"
proof -
  have "block 0x1000 3 \<inter> block 0x3000 3 = {}"
    by (auto simp: block_three)
  from strncpy_pads [OF this _ cstr_hello(1)] show ?thesis
    by (simp add: hello_def)
qed

text \<open>
  \<^verbatim>\<open>strcmp\<close> on terminated strings returns, is 0 exactly when they are equal, and
  otherwise the order of the first bytes that differ, as signed characters, decides between 1 and -1.
\<close>

theorem strcmp_decides:
  assumes "cstr m a p" and "cstr m b q"
  shows "\<exists>r n. strcmp a b m = Some r \<and> n \<le> p \<and> n \<le> q \<and>
    (r = 0 \<longleftrightarrow> load m a p = load m b q) \<and>
    (\<forall>i < n. m (a + of_nat i) = m (b + of_nat i)) \<and>
    (r \<noteq> 0 \<longrightarrow> r = (if sint (m (b + of_nat n)) < sint (m (a + of_nat n)) then 1 else - 1))"
proof -
  obtain n where n: "n \<le> p" "n \<le> q" "ends_at m a b n"
    "m (a + of_nat n) = m (b + of_nat n) \<longleftrightarrow> load m a p = load m b q"
    using ends_at_exists [OF assms] by blast
  have "strcmp a b m = Some (verdict (m (a + of_nat n)) (m (b + of_nat n)))"
    unfolding strcmp_def by (rule strcmp_loop_ends [OF n(3)])
  moreover have "\<forall>i < n. m (a + of_nat i) = m (b + of_nat i)" using n(3) by (simp add: ends_at_def)
  ultimately show ?thesis
    using n by (intro exI [of _ "verdict (m (a + of_nat n)) (m (b + of_nat n))"] exI [of _ n])
      (simp add: verdict_def)
qed

theorem strcmp_decides_witness: "\<exists>r. strcmp 0x1000 0x2000 hello = Some r \<and> r \<noteq> 0"
proof -
  have "load hello 0x1000 2 \<noteq> load hello 0x2000 2" by (simp add: load_def hello_def upt_conv_Cons)
  with strcmp_decides [OF cstr_hello] show ?thesis by fastforce
qed

text \<open>
  \<^verbatim>\<open>strcat\<close> finds the terminator of a destination shorter than 4 GB and copies the
  source with its terminator over it; the bytes of the destination before it stay.
\<close>

theorem strcat_appends:
  assumes "cstr m Dest d" and "d < 0xffffffff" and "cstr m Src n" and "n + 1 < 2 ^ 64"
    and "block Src (n + 1) \<inter> block (Dest + of_nat d) (n + 1) = {}"
  shows "\<exists>m'. strcat Dest Src m = Some m' \<and>
    (\<forall>x. m' x = (if unat (x - (Dest + of_nat d)) < n + 1 then m (Src + (x - (Dest + of_nat d))) else m x))"
proof -
  have "scas0 0xffffffff Dest m = (0xffffffff - of_nat (d + 1), Dest + of_nat (d + 1))"
    using assms(1,2) by (intro scas0_found) simp_all
  then have "strcat Dest Src m = strcpy_loop Src (Dest + of_nat d) m"
    by (simp add: strcat_def)
  also have "\<dots> = Some (copied (Dest + of_nat d) Src (Suc n) m)"
    using strcpy_loop_copied [of Src n "Dest + of_nat d" m 0] assms(3-5) by simp
  finally show ?thesis by (simp add: copied_def block_iff)
qed

theorem strcat_appends_witness:
  "\<exists>m'. strcat 0x1000 0x2000 hello = Some m' \<and> m' 0x1002 = 72 \<and> m' 0x1003 = 111 \<and> m' 0x1004 = 0"
proof -
  have "block 0x2000 (2 + 1) \<inter> block (0x1000 + of_nat 2) (2 + 1) = {}"
    by (auto simp: block_three)
  with strcat_appends [OF cstr_hello(1) _ cstr_hello(2)] obtain m' where
    "strcat 0x1000 0x2000 hello = Some m'"
    "\<forall>x. m' x = (if unat (x - (0x1000 + of_nat 2)) < 2 + 1 then hello (0x2000 + (x - (0x1000 + of_nat 2)))
       else hello x)"
    by auto
  then show ?thesis by (simp add: hello_def)
qed

end
