(* ===== verification/Lib_Port.thy ===== *)
theory Lib_Port
  imports Lib_String
begin

text \<open>
  The port instructions of \<^verbatim>\<open>include/lib.h\<close> and the interrupt flag. The state is the interrupt flag and
  the trace of port accesses, last first; what a device answers is an argument: for a single read a
  value for every port, for a run of reads the words in order. \<^verbatim>\<open>mfence\<close>, \<^verbatim>\<open>nop\<close> and the clobber
  \<^verbatim>\<open>"memory"\<close> have no effect on this state.
\<close>

section \<open>The instructions\<close>

datatype port_access =
    Out uint16 uint8 | In uint16 | Out32 uint16 uint32 | In32 uint16 | OutW uint16 uint16 | InW uint16

record port_state =
  ports :: "port_access list"
  if_flag :: bool

definition access :: "port_access \<Rightarrow> 'a port_state_scheme \<Rightarrow> 'a port_state_scheme" where
  "access a s = s\<lparr>ports := a # ports s\<rparr>"

definition sti :: "'a port_state_scheme \<Rightarrow> 'a port_state_scheme" where
  "sti s = s\<lparr>if_flag := True\<rparr>"

definition cli :: "'a port_state_scheme \<Rightarrow> 'a port_state_scheme" where
  "cli s = s\<lparr>if_flag := False\<rparr>"

definition io_in8 :: "(uint16 \<Rightarrow> uint8) \<Rightarrow> uint16 \<Rightarrow> 'a port_state_scheme \<Rightarrow> uint8 \<times> 'a port_state_scheme" where
  "io_in8 device port s = (device port, access (In port) s)"

definition io_in32 :: "(uint16 \<Rightarrow> uint32) \<Rightarrow> uint16 \<Rightarrow> 'a port_state_scheme \<Rightarrow> uint32 \<times> 'a port_state_scheme" where
  "io_in32 device port s = (device port, access (In32 port) s)"

definition io_out8 :: "uint16 \<Rightarrow> uint8 \<Rightarrow> 'a port_state_scheme \<Rightarrow> 'a port_state_scheme" where
  "io_out8 port value s = access (Out port value) s"

definition io_out32 :: "uint16 \<Rightarrow> uint32 \<Rightarrow> 'a port_state_scheme \<Rightarrow> 'a port_state_scheme" where
  "io_out32 port value s = access (Out32 port value) s"

text \<open>\<^verbatim>\<open>insw\<close> and \<^verbatim>\<open>outsw\<close> with the direction flag clear: one word, low byte first, and the pointer moves
  by two. \<^verbatim>\<open>rep\<close> repeats them as often as \<^verbatim>\<open>rcx\<close> says.\<close>

definition word_at :: "mem8 \<Rightarrow> uintptr \<Rightarrow> uint16" where
  "word_at m a = ucast (m a) OR push_bit 8 (ucast (m (a + 1)))"

definition word_bytes :: "uint16 \<Rightarrow> uint8 list" where
  "word_bytes w = [ucast w, ucast (drop_bit 8 w)]"

fun rep_insw ::
  "uint16 \<Rightarrow> nat \<Rightarrow> (nat \<Rightarrow> uint16) \<Rightarrow> uintptr \<Rightarrow> mem8 \<times> 'a port_state_scheme \<Rightarrow> mem8 \<times> 'a port_state_scheme" where
  "rep_insw port 0 device di ms = ms"
| "rep_insw port (Suc n) device di (m, s) =
     rep_insw port n (\<lambda>i. device (Suc i)) (di + 2) (store m di (word_bytes (device 0)), access (InW port) s)"

fun rep_outsw ::
  "uint16 \<Rightarrow> nat \<Rightarrow> uintptr \<Rightarrow> mem8 \<Rightarrow> 'a port_state_scheme \<Rightarrow> 'a port_state_scheme" where
  "rep_outsw port 0 si m s = s"
| "rep_outsw port (Suc n) si m s = rep_outsw port n (si + 2) m (access (OutW port (word_at m si)) s)"

definition port_insw ::
  "(nat \<Rightarrow> uint16) \<Rightarrow> uint16 \<Rightarrow> uintptr \<Rightarrow> uint64 \<Rightarrow> mem8 \<times> 'a port_state_scheme \<Rightarrow> mem8 \<times> 'a port_state_scheme" where
  "port_insw device port buffer nr ms = rep_insw port (unat nr) device buffer ms"

definition port_outsw :: "uint16 \<Rightarrow> uintptr \<Rightarrow> uint64 \<Rightarrow> mem8 \<Rightarrow> 'a port_state_scheme \<Rightarrow> 'a port_state_scheme" where
  "port_outsw port buffer nr m s = rep_outsw port (unat nr) buffer m s"

section \<open>Traces\<close>

lemma access_simps [simp]:
  "ports (access a s) = a # ports s" "if_flag (access a s) = if_flag s"
  by (simp_all add: access_def)

text \<open>What was written to a port byte by byte, and word by word, in order.\<close>

fun writes :: "uint16 \<Rightarrow> port_access list \<Rightarrow> uint8 list" where
  "writes p [] = []"
| "writes p (Out q v # tr) = (if q = p then writes p tr @ [v] else writes p tr)"
| "writes p (_ # tr) = writes p tr"

fun words_to :: "uint16 \<Rightarrow> port_access list \<Rightarrow> uint16 list" where
  "words_to p [] = []"
| "words_to p (OutW q v # tr) = (if q = p then words_to p tr @ [v] else words_to p tr)"
| "words_to p (_ # tr) = words_to p tr"

lemma rep_outsw_words:
  "words_to port (ports (rep_outsw port n si m s)) =
     words_to port (ports s) @ map (\<lambda>i. word_at m (si + 2 * of_nat i)) [0 ..< n]"
proof (induction n arbitrary: si s)
  case 0
  then show ?case by simp
next
  case (Suc n)
  have "map (\<lambda>i. word_at m (si + 2 + 2 * of_nat i)) [0 ..< n] = map (\<lambda>i. word_at m (si + 2 * of_nat i)) [1 ..< Suc n]"
    by (rule nth_equalityI) (simp_all add: algebra_simps del: upt_Suc)
  moreover have "[0 ..< Suc n] = 0 # [1 ..< Suc n]" by (simp add: upt_rec del: upt_Suc)
  ultimately show ?case using Suc by (simp del: upt_Suc)
qed

lemma length_word_bytes [simp]: "length (word_bytes w) = 2"
  by (simp add: word_bytes_def)

lemma word_bytes_at: "word_bytes (word_at m a) = [m a, m (a + 1)]"
  by (auto simp: word_bytes_def word_at_def bit_eq_iff bit_unsigned_iff bit_or_iff bit_push_bit_iff bit_drop_bit_eq
      dest: bit_imp_le_length)

lemma store_append: "store m a (xs @ ys) = store (store m a xs) (a + of_nat (length xs)) ys"
  by (induction xs arbitrary: m a) (simp_all add: algebra_simps)

text \<open>A run of reads stores the words one behind the other.\<close>

lemma rep_insw_ports: "ports (snd (rep_insw port n device di (m, s))) = replicate n (InW port) @ ports s"
  by (induction n arbitrary: device di m s) (simp_all add: replicate_app_Cons_same)

lemma rep_insw_stores:
  "fst (rep_insw port n device di (m, s)) = store m di (concat (map (\<lambda>i. word_bytes (device i)) [0 ..< n]))"
proof (induction n arbitrary: device di m s)
  case 0
  then show ?case by simp
next
  case (Suc n)
  have "concat (map (\<lambda>i. word_bytes (device i)) [0 ..< Suc n]) =
      word_bytes (device 0) @ concat (map (\<lambda>i. word_bytes (device (Suc i))) [0 ..< n])"
    by (subst upt_rec) (simp add: map_Suc_upt [symmetric] comp_def del: upt_Suc)
  moreover have "di + of_nat (length (word_bytes (device 0))) = di + 2" by simp
  ultimately show ?case by (simp only: store_append rep_insw.simps Suc.IH)
qed

lemma concat_words: "i < 2 * n \<Longrightarrow>
  length (concat (map (\<lambda>k. word_bytes (w k)) [0 ..< n])) = 2 * n \<and>
  concat (map (\<lambda>k. word_bytes (w k)) [0 ..< n]) ! i = word_bytes (w (i div 2)) ! (i mod 2)"
proof (induction n)
  case 0
  then show ?case by simp
next
  case (Suc n)
  have len: "length (concat (map (\<lambda>k. word_bytes (w k)) [0 ..< n])) = 2 * n"
    by (induction n) simp_all
  show ?case
  proof (cases "i < 2 * n")
    case True
    with Suc len show ?thesis by (simp add: nth_append)
  next
    case False
    with Suc.prems have "i div 2 = n" "i - 2 * n = i mod 2" by presburger+
    with False len show ?thesis by (simp add: nth_append)
  qed
qed

section \<open>Properties\<close>

text \<open>
  A device that gives back what \<^verbatim>\<open>port_outsw\<close> wrote to it makes \<^verbatim>\<open>port_insw\<close> copy the
  buffer. Of two buffers of \<open>nr\<close> words at any alignment, overlapping or not, the second gets the bytes
  the first had; no other byte of memory changes, and each access moves one word through the port, in
  the order of the addresses.
\<close>

theorem insw_reads_what_outsw_wrote:
  assumes "words_to port (ports s) = []" and "unat nr < 2 ^ 63"
    and "s1 = port_outsw port src nr m s" and "(m2, s2) = port_insw (nth (words_to port (ports s1))) port dst nr (m, s1)"
  shows "m2 = copied dst src (2 * unat nr) m \<and> length (words_to port (ports s1)) = unat nr \<and>
    ports s2 = replicate (unat nr) (InW port) @ ports s1"
proof -
  let ?n = "unat nr" and ?w = "\<lambda>i. word_at m (src + 2 * of_nat i)"
  have words: "words_to port (ports s1) = map ?w [0 ..< ?n]"
    using assms(1) by (simp add: assms(3) port_outsw_def rep_outsw_words)
  define bs where "bs = concat (map (\<lambda>i. word_bytes (words_to port (ports s1) ! i)) [0 ..< ?n])"
  have bs: "bs = concat (map (\<lambda>i. word_bytes (?w i)) [0 ..< ?n])"
    unfolding bs_def words by (intro arg_cong [where f = concat] map_cong) simp_all
  have m2: "m2 = store m dst bs" "ports s2 = replicate ?n (InW port) @ ports s1"
    using rep_insw_stores [of port ?n "nth (words_to port (ports s1))" dst m s1]
      rep_insw_ports [of port ?n "nth (words_to port (ports s1))" dst m s1] assms(4) [symmetric]
    by (simp_all add: port_insw_def bs_def)
  have len: "length bs = 2 * ?n"
    using concat_words [of 0 ?n ?w] by (cases "?n = 0") (simp_all add: bs)
  have "store m dst bs x = copied dst src (2 * ?n) m x" for x
  proof (cases "x \<in> block dst (2 * ?n)")
    case True
    define i where "i = unat (x - dst)"
    have i: "i < 2 * ?n" "x - dst = of_nat i" using True by (simp_all add: i_def block_iff)
    have "src + 2 * of_nat (i div 2) + of_nat (i mod 2) = src + of_nat (i div 2 * 2 + i mod 2)"
      by (simp only: of_nat_add of_nat_mult of_nat_numeral mult.commute [of _ 2] add.assoc)
    then have at: "src + 2 * of_nat (i div 2) + of_nat (i mod 2) = src + (x - dst)" using i(2) by simp
    have "store m dst bs x = word_bytes (?w (i div 2)) ! (i mod 2)"
      using concat_words [OF i(1), of ?w] store_at [of bs x dst m] True assms(2) len
      by (simp only: bs [symmetric] i_def [symmetric]) simp
    also have "\<dots> = m (src + 2 * of_nat (i div 2) + of_nat (i mod 2))"
      by (cases "i mod 2 = 0") (simp_all add: word_bytes_at)
    finally show ?thesis using True at by (simp add: copied_def)
  next
    case False
    then show ?thesis using assms(2) len by (simp add: copied_def store_other)
  qed
  then show ?thesis using m2 by (simp add: words fun_eq_iff)
qed

theorem insw_reads_what_outsw_wrote_witness:
  "fst (port_insw (nth (words_to 0x1f0 (ports (port_outsw 0x1f0 0x1000 2 hello \<lparr>ports = [], if_flag = False\<rparr>)))) 0x1f0
     0x2001 2 (hello, port_outsw 0x1f0 0x1000 2 hello \<lparr>ports = [], if_flag = False\<rparr>)) 0x2002 = 105"
proof -
  let ?s = "port_outsw 0x1f0 0x1000 2 hello \<lparr>ports = [], if_flag = False\<rparr>"
  have "fst (port_insw (nth (words_to 0x1f0 (ports ?s))) 0x1f0 0x2001 2 (hello, ?s)) = copied 0x2001 0x1000 (2 * unat (2 :: uint64)) hello"
    using insw_reads_what_outsw_wrote [OF _ _ refl prod.collapse, of "0x1f0" "\<lparr>ports = [], if_flag = False\<rparr>" 2 "0x1000" hello "0x2001"]
    by simp
  then show ?thesis by (simp add: copied_def block_iff hello_def)
qed

end
