(* ===== verification/Mem_Types.thy ===== *)
theory Mem_Types
  imports Prelude
begin

text \<open>
  The data of the memory manager, \<^verbatim>\<open>include/memory.h\<close>: the constants and macros, the structures
  \<^verbatim>\<open>E820\<close>, \<^verbatim>\<open>Page\<close>, \<^verbatim>\<open>Zone\<close> and \<^verbatim>\<open>Global_Memory_Desc\<close>, and the globals of \<^verbatim>\<open>memory.c\<close>.

  The arrays the descriptor points to (\<^verbatim>\<open>bits_map\<close>, \<^verbatim>\<open>pages_struct\<close>, \<^verbatim>\<open>zones_struct\<close>) are views of
  the memory that starts at the pointer: a function from the index to the element, total because
  the code reads and writes past the ends without a check. The pointers themselves are the fields
  \<open>*_ptr\<close>. A \<^verbatim>\<open>Zone*\<close> or \<^verbatim>\<open>Page*\<close> inside a structure is the index of its element; the null
  pointer of a page that belongs to no zone is \<open>None\<close>.
\<close>

section \<open>Constants\<close>

definition RAM :: uint32 where "RAM = 1"
definition ROM :: uint32 where "ROM = 2"
definition RESERVED :: uint32 where "RESERVED = 2"
definition ACPI_RECLAIM :: uint32 where "ACPI_RECLAIM = 3"
definition ACPI_NVS :: uint32 where "ACPI_NVS = 4"

definition PTRS_PER_PAGE :: nat where "PTRS_PER_PAGE = 512"
definition PAGE_OFFSET :: uint64 where "PAGE_OFFSET = 0xffff800000000000"
definition PAGE_GDT_SHIFT :: nat where "PAGE_GDT_SHIFT = 39"
definition PAGE_1G_SHIFT :: nat where "PAGE_1G_SHIFT = 30"
definition PAGE_2M_SHIFT :: nat where "PAGE_2M_SHIFT = 21"
definition PAGE_4K_SHIFT :: nat where "PAGE_4K_SHIFT = 12"

definition PAGE_1G_SIZE :: uint64 where "PAGE_1G_SIZE = push_bit PAGE_1G_SHIFT 1"
definition PAGE_2M_SIZE :: uint64 where "PAGE_2M_SIZE = push_bit PAGE_2M_SHIFT 1"
definition PAGE_4K_SIZE :: uint64 where "PAGE_4K_SIZE = push_bit PAGE_4K_SHIFT 1"

definition PAGE_1G_MASK :: uint64 where "PAGE_1G_MASK = NOT (PAGE_1G_SIZE - 1)"
definition PAGE_2M_MASK :: uint64 where "PAGE_2M_MASK = NOT (PAGE_2M_SIZE - 1)"
definition PAGE_4K_MASK :: uint64 where "PAGE_4K_MASK = NOT (PAGE_4K_SIZE - 1)"

definition PAGE_1G_ALIGN :: "uintptr \<Rightarrow> uint64" where
  "PAGE_1G_ALIGN a = (a + PAGE_1G_SIZE - 1) AND PAGE_1G_MASK"
definition PAGE_2M_ALIGN :: "uintptr \<Rightarrow> uint64" where
  "PAGE_2M_ALIGN a = (a + PAGE_2M_SIZE - 1) AND PAGE_2M_MASK"
definition PAGE_4K_ALIGN :: "uintptr \<Rightarrow> uint64" where
  "PAGE_4K_ALIGN a = (a + PAGE_4K_SIZE - 1) AND PAGE_4K_MASK"

definition Virt_To_Phy :: "uintptr \<Rightarrow> uintptr" where "Virt_To_Phy a = a - PAGE_OFFSET"
definition Phy_To_Virt :: "uintptr \<Rightarrow> uintptr" where "Phy_To_Virt a = a + PAGE_OFFSET"

definition MAX_NR_ZONES :: nat where "MAX_NR_ZONES = 10"
definition ZONE_DMA :: int where "ZONE_DMA = 1"
definition ZONE_NORMAL :: int where "ZONE_NORMAL = 2"
definition ZONE_UNMAPPED :: int where "ZONE_UNMAPPED = 4"

definition PG_PTable_Maped :: uint64 where "PG_PTable_Maped = 0x1"
definition PG_Kernel_Init :: uint64 where "PG_Kernel_Init = 0x2"
definition PG_Referenced :: uint64 where "PG_Referenced = 0x4"
definition PG_Dirty :: uint64 where "PG_Dirty = 0x8"
definition PG_Active :: uint64 where "PG_Active = 0x10"
definition PG_Up_To_Date :: uint64 where "PG_Up_To_Date = 0x20"
definition PG_Device :: uint64 where "PG_Device = 0x40"
definition PG_Kernel :: uint64 where "PG_Kernel = 0x80"
definition PG_K_Share_To_U :: uint64 where "PG_K_Share_To_U = 0x100"
definition PG_Slab :: uint64 where "PG_Slab = 0x200"

lemmas [layout_simps] =
  PAGE_1G_SHIFT_def PAGE_2M_SHIFT_def PAGE_4K_SHIFT_def
  PAGE_1G_SIZE_def PAGE_2M_SIZE_def PAGE_4K_SIZE_def
  PAGE_1G_MASK_def PAGE_2M_MASK_def PAGE_4K_MASK_def

section \<open>Structures\<close>

record E820 =
  E_addr :: uintptr
  E_len :: uint64
  E_type :: uint32

record Page =
  p_zone :: "nat option"
  phy_addr :: uintptr
  p_attribute :: uint64
  ref_cnt :: uint64
  age :: uint64

text \<open>
  \<open>z_GMD_struct\<close> is true when the field points to \<^verbatim>\<open>memory_management_struct\<close>, the only object
  of its type, and false when it is null.
\<close>

record Zone =
  z_page_group :: nat
  z_page_len :: uint64
  zone_start_addr :: uintptr
  zone_end_addr :: uintptr
  zone_len :: uint64
  z_attribute :: uint64
  z_GMD_struct :: bool
  page_using_cnt :: uint64
  page_free_cnt :: uint64
  total_page_lnk :: uint64

text \<open>
  \<^verbatim>\<open>sizeof\<close> of the structures the code measures: five and ten eight-byte fields.
\<close>

definition sizeof_Page :: uint64 where "sizeof_Page = 40"
definition sizeof_Zone :: uint64 where "sizeof_Zone = 80"

text \<open>
  \<^verbatim>\<open>Global_Memory_Desc memory_management_struct\<close> with the arrays it points to, the globals of
  \<^verbatim>\<open>memory.c\<close>, the page map level 4 table that \<^verbatim>\<open>CR3\<close> points to, and the messages printed.
\<close>

record kmem =
  e820 :: "nat \<Rightarrow> E820"
  e820_len :: uint64
  bits_map :: "nat \<Rightarrow> uint64"
  bits_map_ptr :: uintptr
  bits_size :: uint64
  bits_len :: uint64
  pages :: "nat \<Rightarrow> Page"
  pages_ptr :: uintptr
  pages_size :: uint64
  pages_len :: uint64
  zones :: "nat \<Rightarrow> Zone"
  zones_ptr :: uintptr
  zones_size :: uint64
  zones_len :: uint64
  start_code :: uintptr
  end_code :: uintptr
  end_data :: uintptr
  end_brk :: uintptr
  end_of_struct :: uintptr
  g_zone_dma :: uint64
  g_zone_normal :: uint64
  g_zone_unmapped :: uint64
  g_cr3 :: uintptr
  pml4 :: "nat \<Rightarrow> uint64"
  klog :: "string list"

text \<open>
  The structures as \<^verbatim>\<open>memset(p, 0, sizeof)\<close> leaves them, and the descriptor as the loader leaves
  \<^verbatim>\<open>memory_management_struct = {{0}, 0}\<close>: every field zero, every array on zeroed memory.
\<close>

definition zero_E820 :: E820 where
  "zero_E820 = \<lparr>E_addr = 0, E_len = 0, E_type = 0\<rparr>"

definition zero_Page :: Page where
  "zero_Page = \<lparr>p_zone = None, phy_addr = 0, p_attribute = 0, ref_cnt = 0, age = 0\<rparr>"

definition zero_Zone :: Zone where
  "zero_Zone = \<lparr>z_page_group = 0, z_page_len = 0, zone_start_addr = 0, zone_end_addr = 0,
     zone_len = 0, z_attribute = 0, z_GMD_struct = False, page_using_cnt = 0, page_free_cnt = 0,
     total_page_lnk = 0\<rparr>"

definition memory_management_struct :: kmem where
  "memory_management_struct = \<lparr>e820 = (\<lambda>_. zero_E820), e820_len = 0,
     bits_map = (\<lambda>_. 0), bits_map_ptr = 0, bits_size = 0, bits_len = 0,
     pages = (\<lambda>_. zero_Page), pages_ptr = 0, pages_size = 0, pages_len = 0,
     zones = (\<lambda>_. zero_Zone), zones_ptr = 0, zones_size = 0, zones_len = 0,
     start_code = 0, end_code = 0, end_data = 0, end_brk = 0, end_of_struct = 0,
     g_zone_dma = 0, g_zone_normal = 0, g_zone_unmapped = 0, g_cr3 = 0,
     pml4 = (\<lambda>_. 0), klog = []\<rparr>"

definition page_upd :: "nat \<Rightarrow> (Page \<Rightarrow> Page) \<Rightarrow> kmem \<Rightarrow> kmem" where
  "page_upd x f s = s\<lparr>pages := (pages s)(x := f (pages s x))\<rparr>"

definition zone_upd :: "nat \<Rightarrow> (Zone \<Rightarrow> Zone) \<Rightarrow> kmem \<Rightarrow> kmem" where
  "zone_upd z f s = s\<lparr>zones := (zones s)(z := f (zones s z))\<rparr>"

section \<open>The page bitmap\<close>

text \<open>
  The bitmap holds one bit per 2 MB page frame. The code addresses it through the physical address:
  word \<^verbatim>\<open>addr >> PAGE_2M_SHIFT >> 6\<close>, bit \<^verbatim>\<open>(addr >> PAGE_2M_SHIFT) % 64\<close>. \<open>bm_test\<close> is the
  abstraction the specifications use: the bit of a page frame number.
\<close>

definition frame :: "uintptr \<Rightarrow> nat" where
  "frame a = unat (drop_bit PAGE_2M_SHIFT a)"

definition bm_word :: "uintptr \<Rightarrow> nat" where
  "bm_word a = unat (drop_bit 6 (drop_bit PAGE_2M_SHIFT a))"

definition bm_bit :: "uintptr \<Rightarrow> uint64" where
  "bm_bit a = shl64 1 (unat (drop_bit PAGE_2M_SHIFT a mod 64))"

definition bm_set :: "(nat \<Rightarrow> uint64) \<Rightarrow> uintptr \<Rightarrow> (nat \<Rightarrow> uint64)" where
  "bm_set bm a = bm(bm_word a := bm (bm_word a) OR bm_bit a)"

definition bm_clear :: "(nat \<Rightarrow> uint64) \<Rightarrow> uintptr \<Rightarrow> (nat \<Rightarrow> uint64)" where
  "bm_clear bm a = bm(bm_word a := bm (bm_word a) AND NOT (bm_bit a))"

definition bm_flip :: "(nat \<Rightarrow> uint64) \<Rightarrow> uintptr \<Rightarrow> (nat \<Rightarrow> uint64)" where
  "bm_flip bm a = bm(bm_word a := bm (bm_word a) XOR bm_bit a)"

definition bm_test :: "(nat \<Rightarrow> uint64) \<Rightarrow> nat \<Rightarrow> bool" where
  "bm_test bm n = bit (bm (n div 64)) (n mod 64)"

lemma bm_test_word: "i < 64 \<Longrightarrow> bm_test bm (64 * w + i) = bit (bm w) i"
  by (simp add: bm_test_def)

lemma bm_word_frame: "bm_word a = frame a div 64"
  by (simp add: bm_word_def frame_def word_simps PAGE_2M_SHIFT_def div_mult2_eq)

lemma bm_bit_iff: "bit (bm_bit a) i \<longleftrightarrow> i = frame a mod 64"
  by (simp add: bm_bit_def frame_def word_simps bit_push_one del: push_bit_of_1)

lemma div_mod_64_eq: "(n :: nat) div 64 = m div 64 \<Longrightarrow> n mod 64 = m mod 64 \<Longrightarrow> n = m"
  by (metis div_mult_mod_eq)

lemma bm_test_set: "bm_test (bm_set bm a) n \<longleftrightarrow> n = frame a \<or> bm_test bm n"
  by (auto simp: bm_test_def bm_set_def bm_word_frame bit_or_iff bm_bit_iff dest: div_mod_64_eq)

lemma bm_test_clear: "bm_test (bm_clear bm a) n \<longleftrightarrow> n \<noteq> frame a \<and> bm_test bm n"
  by (auto simp: bm_test_def bm_clear_def bm_word_frame bit_and_iff bit_not_iff bm_bit_iff
      dest: div_mod_64_eq)

lemma bm_test_flip:
  "bm_test (bm_flip bm a) n \<longleftrightarrow> (if n = frame a then \<not> bm_test bm n else bm_test bm n)"
  by (auto simp: bm_test_def bm_flip_def bm_word_frame bit_xor_iff bm_bit_iff dest: div_mod_64_eq)

lemma bm_ext:
  assumes "\<And>n. bm_test b n = bm_test c n"
  shows "b = c"
proof
  fix w
  show "b w = c w"
  proof (rule word64_eqI)
    fix i :: nat
    assume "i < 64"
    then show "bit (b w) i = bit (c w) i"
      using assms [of "w * 64 + i"] by (simp add: bm_test_def)
  qed
qed

text \<open>
  What the memory manager relies on of its bitmap: each of the three updates changes the bit of one
  frame, and a bitmap is determined by its bits.
\<close>

locale page_bitmap =
  fixes test :: "'b \<Rightarrow> nat \<Rightarrow> bool"
    and mark :: "'b \<Rightarrow> uintptr \<Rightarrow> 'b"
    and unmark :: "'b \<Rightarrow> uintptr \<Rightarrow> 'b"
    and toggle :: "'b \<Rightarrow> uintptr \<Rightarrow> 'b"
    and frame_of :: "uintptr \<Rightarrow> nat"
  assumes test_mark: "test (mark b a) n \<longleftrightarrow> n = frame_of a \<or> test b n"
    and test_unmark: "test (unmark b a) n \<longleftrightarrow> n \<noteq> frame_of a \<and> test b n"
    and test_toggle: "test (toggle b a) n \<longleftrightarrow> (if n = frame_of a then \<not> test b n else test b n)"
    and test_ext: "(\<And>n. test b n = test c n) \<Longrightarrow> b = c"
begin

lemma unmark_mark: "\<not> test b (frame_of a) \<Longrightarrow> unmark (mark b a) a = b"
  by (rule test_ext) (auto simp: test_mark test_unmark)

lemma mark_marked: "test b (frame_of a) \<Longrightarrow> mark b a = b"
  by (rule test_ext) (auto simp: test_mark)

lemma toggle_toggle: "toggle (toggle b a) a = b"
  by (rule test_ext) (auto simp: test_toggle)

lemma toggle_marked: "test b (frame_of a) \<Longrightarrow> toggle b a = unmark b a"
  by (rule test_ext) (auto simp: test_toggle test_unmark)

lemma toggle_all:
  "distinct (map frame_of as) \<Longrightarrow>
   test (foldl toggle b as) n \<longleftrightarrow> (if n \<in> frame_of ` set as then \<not> test b n else test b n)"
proof (induction as arbitrary: b)
  case Nil
  then show ?case by simp
next
  case (Cons a as)
  then show ?case by (auto simp: test_toggle)
qed

end

interpretation bm: page_bitmap bm_test bm_set bm_clear bm_flip frame
  by unfold_locales (auto simp: bm_test_set bm_test_clear bm_test_flip intro: bm_ext)

lemma unat_PAGE_OFFSET: "unat PAGE_OFFSET = 18446603336221196288"
  by (simp add: PAGE_OFFSET_def)

text \<open>The frame of the address of page \<open>x\<close>.\<close>

definition page_addr :: "nat \<Rightarrow> uintptr" where
  "page_addr x = of_nat x * PAGE_2M_SIZE"

lemma PAGE_2M_SIZE_num: "PAGE_2M_SIZE = 0x200000"
  by (simp add: layout_simps)

lemma unat_page_addr: "x < 2 ^ 43 \<Longrightarrow> unat (page_addr x) = x * 2097152"
  by (simp add: page_addr_def PAGE_2M_SIZE_num unat_word_ariths unat_of_nat)

lemma frame_page_addr: "x < 2 ^ 43 \<Longrightarrow> frame (page_addr x) = x"
  by (simp add: frame_def PAGE_2M_SHIFT_def word_simps unat_page_addr)

lemma frame_less: "frame a < 2 ^ 43"
  using unat64_less [of a] by (simp add: frame_def PAGE_2M_SHIFT_def word_simps div_less_iff_less_mult)

end
