(* ===== verification/Mem_Page.thy ===== *)
theory Mem_Page
  imports Mem_Types
begin

text \<open>
  The life cycle of one physical page, \<^verbatim>\<open>page_init\<close> and \<^verbatim>\<open>page_clean\<close> of \<^verbatim>\<open>src/memory.c\<close>, and the
  invariants that every sequence of these operations keeps: a page in use is marked in the bitmap,
  \<^verbatim>\<open>page_using_cnt\<close> counts the pages in use of a zone, \<^verbatim>\<open>total_page_lnk\<close> sums their reference
  counts, and used and free pages add up to a constant.
\<close>

section \<open>The operations\<close>

text \<open>A write through \<^verbatim>\<open>p->zone_struct\<close>, which is null for a page that belongs to no zone.\<close>

definition with_zone :: "nat \<Rightarrow> (Zone \<Rightarrow> Zone) \<Rightarrow> kmem \<Rightarrow> fault + kmem" where
  "with_zone x f s =
     (case p_zone (pages s x) of None \<Rightarrow> Inl NullDeref | Some z \<Rightarrow> Inr (zone_upd z f s))"

definition shared_flags :: "uint64 \<Rightarrow> bool" where
  "shared_flags a \<longleftrightarrow> a AND PG_Referenced \<noteq> 0 \<or> a AND PG_K_Share_To_U \<noteq> 0"

definition page_init :: "nat \<Rightarrow> uint64 \<Rightarrow> kmem \<Rightarrow> fault + kmem" where
  "page_init x flags s =
     (let p = pages s x in
      if p_attribute p = 0 then
        (let s1 = s\<lparr>bits_map := bm_set (bits_map s) (phy_addr p)\<rparr>;
             s2 = page_upd x (\<lambda>p. p\<lparr>p_attribute := flags\<rparr>) s1;
             s3 = page_upd x (\<lambda>p. p\<lparr>ref_cnt := ref_cnt p + 1\<rparr>) s2
         in with_zone x (\<lambda>z. z\<lparr>page_using_cnt := page_using_cnt z + 1,
                               page_free_cnt := page_free_cnt z - 1,
                               total_page_lnk := total_page_lnk z + 1\<rparr>) s3)
      else if p_attribute p AND PG_Referenced \<noteq> 0 \<or> p_attribute p AND PG_K_Share_To_U \<noteq> 0 \<or>
              flags AND PG_Referenced \<noteq> 0 \<or> flags AND PG_K_Share_To_U \<noteq> 0 then
        (let s1 = page_upd x (\<lambda>p. p\<lparr>p_attribute := p_attribute p OR flags\<rparr>) s;
             s2 = page_upd x (\<lambda>p. p\<lparr>ref_cnt := ref_cnt p + 1\<rparr>) s1
         in with_zone x (\<lambda>z. z\<lparr>total_page_lnk := total_page_lnk z + 1\<rparr>) s2)
      else
        Inr (page_upd x (\<lambda>p. p\<lparr>p_attribute := p_attribute p OR flags\<rparr>)
               (s\<lparr>bits_map := bm_set (bits_map s) (phy_addr p)\<rparr>)))"

definition page_clean :: "nat \<Rightarrow> kmem \<Rightarrow> fault + kmem" where
  "page_clean x s =
     (let p = pages s x in
      if p_attribute p = 0 then
        Inr (page_upd x (\<lambda>p. p\<lparr>p_attribute := 0\<rparr>) s)
      else if p_attribute p AND PG_Referenced \<noteq> 0 \<or> p_attribute p AND PG_K_Share_To_U \<noteq> 0 then
        bindR (with_zone x (\<lambda>z. z\<lparr>total_page_lnk := total_page_lnk z - 1\<rparr>)
                 (page_upd x (\<lambda>p. p\<lparr>ref_cnt := ref_cnt p - 1\<rparr>) s))
          (\<lambda>s1. if ref_cnt (pages s1 x) = 0
                then with_zone x (\<lambda>z. z\<lparr>page_using_cnt := page_using_cnt z - 1,
                                        page_free_cnt := page_free_cnt z + 1\<rparr>)
                       (page_upd x (\<lambda>p. p\<lparr>p_attribute := 0\<rparr>) s1)
                else Inr s1)
      else
        (let s1 = s\<lparr>bits_map := bm_clear (bits_map s) (phy_addr p)\<rparr>;
             s2 = page_upd x (\<lambda>p. p\<lparr>p_attribute := 0\<rparr>) s1;
             s3 = page_upd x (\<lambda>p. p\<lparr>ref_cnt := 0\<rparr>) s2
         in with_zone x (\<lambda>z. z\<lparr>page_using_cnt := page_using_cnt z - 1,
                               page_free_cnt := page_free_cnt z + 1,
                               total_page_lnk := total_page_lnk z - 1\<rparr>) s3))"

section \<open>What the operations do, branch by branch\<close>

lemma page_upd_simps [simp]:
  "pages (page_upd x f s) = (pages s)(x := f (pages s x))"
  "zones (page_upd x f s) = zones s"
  "bits_map (page_upd x f s) = bits_map s"
  "klog (page_upd x f s) = klog s"
  by (simp_all add: page_upd_def)

lemma zone_upd_simps [simp]:
  "zones (zone_upd z g s) = (zones s)(z := g (zones s z))"
  "pages (zone_upd z g s) = pages s"
  "bits_map (zone_upd z g s) = bits_map s"
  "klog (zone_upd z g s) = klog s"
  by (simp_all add: zone_upd_def)

text \<open>A step of a page, seen through the five components it can change.\<close>

definition page_step ::
  "kmem \<Rightarrow> nat \<Rightarrow> nat \<Rightarrow> Page \<Rightarrow> (nat \<Rightarrow> uint64) \<Rightarrow> uint64 \<Rightarrow> uint64 \<Rightarrow> kmem" where
  "page_step s x z p b du dl =
     s\<lparr>bits_map := b, pages := (pages s)(x := p),
       zones := (zones s)(z := (zones s z)\<lparr>page_using_cnt := page_using_cnt (zones s z) + du,
                                           page_free_cnt := page_free_cnt (zones s z) - du,
                                           total_page_lnk := total_page_lnk (zones s z) + dl\<rparr>)\<rparr>"

text \<open>The updates of different fields commute; the last release writes them in another order.\<close>

lemma Page_commute: "p\<lparr>ref_cnt := c, p_attribute := a\<rparr> = p\<lparr>p_attribute := a, ref_cnt := c\<rparr>"
  by (cases p) simp

lemma Page_attr_id: "p_attribute p = a \<Longrightarrow> p\<lparr>p_attribute := a\<rparr> = p"
  by (cases p) simp

lemma Zone_commute:
  "z\<lparr>total_page_lnk := l, page_using_cnt := u, page_free_cnt := f\<rparr> =
   z\<lparr>page_using_cnt := u, page_free_cnt := f, total_page_lnk := l\<rparr>"
  by (cases z) simp

lemma page_init_free:
  assumes "p_attribute (pages s x) = 0" and "p_zone (pages s x) = Some z"
  shows "page_init x flags s =
    Inr (page_step s x z ((pages s x)\<lparr>p_attribute := flags, ref_cnt := ref_cnt (pages s x) + 1\<rparr>)
           (bm_set (bits_map s) (phy_addr (pages s x))) 1 1)"
  using assms
  by (simp add: page_init_def with_zone_def page_step_def page_upd_def zone_upd_def Let_def)

lemma page_init_shared:
  assumes "p_attribute (pages s x) \<noteq> 0" and "p_zone (pages s x) = Some z"
    and "shared_flags (p_attribute (pages s x)) \<or> shared_flags flags"
  shows "page_init x flags s =
    Inr (page_step s x z ((pages s x)\<lparr>p_attribute := p_attribute (pages s x) OR flags,
                                      ref_cnt := ref_cnt (pages s x) + 1\<rparr>) (bits_map s) 0 1)"
  using assms
  by (auto simp: page_init_def with_zone_def page_step_def page_upd_def zone_upd_def
      shared_flags_def Let_def)

lemma page_init_again:
  assumes "p_attribute (pages s x) \<noteq> 0"
    and "\<not> shared_flags (p_attribute (pages s x))" and "\<not> shared_flags flags"
  shows "page_init x flags s =
    Inr (page_step s x z ((pages s x)\<lparr>p_attribute := p_attribute (pages s x) OR flags\<rparr>)
           (bm_set (bits_map s) (phy_addr (pages s x))) 0 0)"
  using assms by (simp add: page_init_def page_step_def page_upd_def shared_flags_def Let_def)

lemma page_clean_free:
  assumes "p_attribute (pages s x) = 0"
  shows "page_clean x s = Inr (page_step s x z (pages s x) (bits_map s) 0 0)"
  using assms by (simp add: page_clean_def page_step_def page_upd_def Page_attr_id)

lemma page_clean_drop:
  assumes "p_attribute (pages s x) \<noteq> 0" and "p_zone (pages s x) = Some z"
    and "shared_flags (p_attribute (pages s x))" and "ref_cnt (pages s x) \<noteq> 1"
  shows "page_clean x s =
    Inr (page_step s x z ((pages s x)\<lparr>ref_cnt := ref_cnt (pages s x) - 1\<rparr>) (bits_map s) 0 (- 1))"
  using assms
  by (auto simp: page_clean_def with_zone_def page_step_def page_upd_def zone_upd_def
      shared_flags_def Let_def)

lemma page_clean_last:
  assumes "p_attribute (pages s x) \<noteq> 0" and "p_zone (pages s x) = Some z"
    and "shared_flags (p_attribute (pages s x))" and "ref_cnt (pages s x) = 1"
  shows "page_clean x s =
    Inr (page_step s x z ((pages s x)\<lparr>p_attribute := 0, ref_cnt := 0\<rparr>) (bits_map s) (- 1) (- 1))"
  using assms
  by (auto simp: page_clean_def with_zone_def page_step_def page_upd_def zone_upd_def
      shared_flags_def Let_def Page_commute Zone_commute)

lemma page_clean_own:
  assumes "p_attribute (pages s x) \<noteq> 0" and "p_zone (pages s x) = Some z"
    and "\<not> shared_flags (p_attribute (pages s x))"
  shows "page_clean x s =
    Inr (page_step s x z ((pages s x)\<lparr>p_attribute := 0, ref_cnt := 0\<rparr>)
           (bm_clear (bits_map s) (phy_addr (pages s x))) (- 1) (- 1))"
  using assms
  by (simp add: page_clean_def with_zone_def page_step_def page_upd_def zone_upd_def
      shared_flags_def Let_def)

section \<open>The invariant\<close>

text \<open>
  \<open>M\<close> is the set of pages the memory manager has set up: their structure holds their own address
  and a zone of the zone table. \<open>zone_sum\<close> adds a quantity over the pages of \<open>M\<close> that belong to a zone, in 64-bit
  arithmetic, as the counters of the zone do.
\<close>

definition managed :: "kmem \<Rightarrow> nat set \<Rightarrow> bool" where
  "managed s M \<longleftrightarrow> finite M \<and>
     (\<forall>x \<in> M. x < 2 ^ 43 \<and> phy_addr (pages s x) = page_addr x \<and>
        (\<exists>z < unat (zones_size s). p_zone (pages s x) = Some z))"

definition in_use :: "Page \<Rightarrow> uint64" where
  "in_use p = of_bool (p_attribute p \<noteq> 0)"

definition zone_sum :: "kmem \<Rightarrow> nat set \<Rightarrow> nat \<Rightarrow> (Page \<Rightarrow> uint64) \<Rightarrow> uint64" where
  "zone_sum s M z f = (\<Sum>x\<in>M. if p_zone (pages s x) = Some z then f (pages s x) else 0)"

definition page_ok :: "(nat \<Rightarrow> uint64) \<Rightarrow> nat \<Rightarrow> Page \<Rightarrow> bool" where
  "page_ok b x p \<longleftrightarrow>
     (p_attribute p = 0 \<longrightarrow> ref_cnt p = 0) \<and>
     (p_attribute p \<noteq> 0 \<longrightarrow> \<not> shared_flags (p_attribute p) \<longrightarrow> ref_cnt p = 1) \<and>
     (p_attribute p \<noteq> 0 \<longrightarrow> bm_test b x)"

definition mem_inv :: "kmem \<Rightarrow> nat set \<Rightarrow> bool" where
  "mem_inv s M \<longleftrightarrow>
     managed s M \<and> (\<forall>x \<in> M. page_ok (bits_map s) x (pages s x)) \<and>
     (\<forall>z < unat (zones_size s).
          page_using_cnt (zones s z) = zone_sum s M z in_use \<and>
          total_page_lnk (zones s z) = zone_sum s M z ref_cnt)"

lemma zone_sum_in_use:
  "finite M \<Longrightarrow> zone_sum s M z in_use =
     of_nat (card {x \<in> M. p_zone (pages s x) = Some z \<and> p_attribute (pages s x) \<noteq> 0})"
  by (simp add: zone_sum_def in_use_def of_bool_def sum.If_cases Collect_conj_eq Int_assoc
      flip: if_bool_eq_conj)

lemma sum_change_one:
  fixes f g :: "'a \<Rightarrow> 'b::ab_group_add"
  assumes "finite M" "x \<in> M" "\<And>y. y \<in> M \<Longrightarrow> y \<noteq> x \<Longrightarrow> g y = f y"
  shows "sum g M = sum f M + (g x - f x)"
proof -
  have "sum g (M - {x}) = sum f (M - {x})"
    using assms(3) by (intro sum.cong) auto
  with assms(1,2) show ?thesis by (simp add: sum.remove [of M x])
qed

lemma page_step_simps [simp]:
  "pages (page_step s x z p b du dl) = (pages s)(x := p)"
  "bits_map (page_step s x z p b du dl) = b"
  "klog (page_step s x z p b du dl) = klog s"
  "zones_size (page_step s x z p b du dl) = zones_size s"
  "page_using_cnt (zones (page_step s x z p b du dl) y) =
     page_using_cnt (zones s y) + (if y = z then du else 0)"
  "page_free_cnt (zones (page_step s x z p b du dl) y) =
     page_free_cnt (zones s y) - (if y = z then du else 0)"
  "total_page_lnk (zones (page_step s x z p b du dl) y) =
     total_page_lnk (zones s y) + (if y = z then dl else 0)"
  by (simp_all add: page_step_def)

lemma zone_sum_step:
  assumes "finite M" "x \<in> M" "p_zone p = Some z" "p_zone (pages s x) = Some z"
  shows "zone_sum (page_step s x z p b du dl) M y f =
    zone_sum s M y f + (if y = z then f p - f (pages s x) else 0)"
proof -
  let ?g = "\<lambda>t v. if p_zone (pages t v) = Some y then f (pages t v) else 0"
  have "sum (?g (page_step s x z p b du dl)) M =
      sum (?g s) M + (?g (page_step s x z p b du dl) x - ?g s x)"
    by (rule sum_change_one [OF assms(1,2)]) simp
  with assms(3,4) show ?thesis by (auto simp: zone_sum_def)
qed

lemma page_step_inv:
  assumes inv: "mem_inv s M" and x: "x \<in> M" and z: "p_zone (pages s x) = Some z"
    and p: "p_zone p = Some z" "phy_addr p = phy_addr (pages s x)" "page_ok b x p"
    and b: "\<And>y. y \<noteq> x \<Longrightarrow> bm_test b y = bm_test (bits_map s) y"
    and d: "du = in_use p - in_use (pages s x)" "dl = ref_cnt p - ref_cnt (pages s x)"
  shows "mem_inv (page_step s x z p b du dl) M"
proof -
  from inv have fin: "finite M" by (simp add: mem_inv_def managed_def)
  have "z < unat (zones_size s)"
    using inv x z by (auto simp: mem_inv_def managed_def)
  then have "managed (page_step s x z p b du dl) M"
    using inv x p(1,2) by (auto simp: mem_inv_def managed_def)
  moreover have "page_ok b y (((pages s)(x := p)) y)" if "y \<in> M" for y
    using inv p(3) b [of y] that by (auto simp: mem_inv_def page_ok_def)
  ultimately show ?thesis
    using inv by (simp add: mem_inv_def zone_sum_step [OF fin x p(1) z] d)
qed

text \<open>\<open>page_init\<close> and \<open>page_clean\<close> on a managed page never fault and keep the invariant.\<close>

lemma or_and_zero: "(a OR b) AND c = 0 \<longleftrightarrow> a AND c = 0 \<and> b AND c = (0 :: uint64)"
  by (auto simp: bit_eq_iff bit_and_iff bit_or_iff)

lemma or_zero: "a OR b = 0 \<longleftrightarrow> a = 0 \<and> b = (0 :: uint64)"
  by (auto simp: bit_eq_iff bit_or_iff)

lemma shared_flags_or: "shared_flags (a OR b) \<longleftrightarrow> shared_flags a \<or> shared_flags b"
  by (auto simp: shared_flags_def or_and_zero)

lemma managed_frame: "managed s M \<Longrightarrow> x \<in> M \<Longrightarrow> frame (phy_addr (pages s x)) = x"
  by (simp add: managed_def frame_page_addr)

lemma managed_zone: "managed s M \<Longrightarrow> x \<in> M \<Longrightarrow> \<exists>z. p_zone (pages s x) = Some z"
  by (auto simp: managed_def)

lemma mem_inv_managed: "mem_inv s M \<Longrightarrow> managed s M"
  by (simp add: mem_inv_def)

lemma mem_inv_page: "mem_inv s M \<Longrightarrow> x \<in> M \<Longrightarrow> page_ok (bits_map s) x (pages s x)"
  by (simp add: mem_inv_def)

text \<open>Every branch of the two operations is one \<open>page_step\<close>.\<close>

lemma step_exI:
  "r = Inr (page_step s x z p b du dl) \<Longrightarrow> mem_inv (page_step s x z p b du dl) M \<Longrightarrow>
   \<exists>z p b du dl. r = Inr (page_step s x z p b du dl) \<and> mem_inv (page_step s x z p b du dl) M"
  by blast

lemma page_init_step:
  assumes inv: "mem_inv s M" and x: "x \<in> M" and fl: "flags \<noteq> 0"
  shows "\<exists>z p b du dl. page_init x flags s = Inr (page_step s x z p b du dl) \<and>
    mem_inv (page_step s x z p b du dl) M"
proof -
  let ?p = "pages s x"
  from inv x obtain z where z: "p_zone ?p = Some z" and f: "frame (phy_addr ?p) = x"
    and ok: "page_ok (bits_map s) x ?p"
    by (meson managed_frame managed_zone mem_inv_managed mem_inv_page)
  note inv_rule = page_step_inv [OF inv x z]
  consider (free) "p_attribute ?p = 0"
    | (shared) "p_attribute ?p \<noteq> 0" "shared_flags (p_attribute ?p) \<or> shared_flags flags"
    | (again) "p_attribute ?p \<noteq> 0" "\<not> shared_flags (p_attribute ?p)" "\<not> shared_flags flags"
    by blast
  then show ?thesis
  proof cases
    case free
    show ?thesis
      by (rule step_exI [OF page_init_free [OF free z]], rule inv_rule)
        (use free z f ok fl in \<open>auto simp: page_ok_def bm.test_mark in_use_def\<close>)
  next
    case shared
    show ?thesis
      by (rule step_exI [OF page_init_shared [OF shared(1) z shared(2)]], rule inv_rule)
        (use shared z f ok fl in \<open>auto simp: page_ok_def in_use_def or_zero shared_flags_or\<close>)
  next
    case again
    show ?thesis
      by (rule step_exI [OF page_init_again [OF again, of z]], rule inv_rule)
        (use again z f ok fl in \<open>auto simp: page_ok_def bm.test_mark in_use_def or_zero shared_flags_or\<close>)
  qed
qed

text \<open>What claiming pages keeps: all but the bitmap, the pages and how each zone splits its pages.\<close>

definition only_accounts :: "kmem \<Rightarrow> kmem \<Rightarrow> bool" where
  "only_accounts s t \<longleftrightarrow> (\<exists>b p z. t = s\<lparr>bits_map := b, pages := p, zones := z\<rparr> \<and>
     (\<forall>i. page_using_cnt (z i) + page_free_cnt (z i) =
          page_using_cnt (zones s i) + page_free_cnt (zones s i) \<and> z_page_len (z i) = z_page_len (zones s i) \<and>
          zone_start_addr (z i) = zone_start_addr (zones s i) \<and> zone_end_addr (z i) = zone_end_addr (zones s i)))"

lemma only_accounts_refl: "only_accounts s s"
  unfolding only_accounts_def
  by (rule exI [of _ "bits_map s"], rule exI [of _ "pages s"], rule exI [of _ "zones s"]) simp

lemma only_accounts_step:
  assumes "only_accounts s t"
  shows "only_accounts s (page_step t x z p b du dl)"
proof -
  obtain b' p' z' where t: "t = s\<lparr>bits_map := b', pages := p', zones := z'\<rparr>"
    and z': "\<forall>i. page_using_cnt (z' i) + page_free_cnt (z' i) =
      page_using_cnt (zones s i) + page_free_cnt (zones s i) \<and> z_page_len (z' i) = z_page_len (zones s i) \<and>
      zone_start_addr (z' i) = zone_start_addr (zones s i) \<and> zone_end_addr (z' i) = zone_end_addr (zones s i)"
    using assms by (auto simp: only_accounts_def)
  show ?thesis
    unfolding only_accounts_def
    by (rule exI [of _ b], rule exI [of _ "p'(x := p)"],
        rule exI [of _ "zones (page_step t x z p b du dl)"])
      (use z' in \<open>simp add: page_step_def t\<close>)
qed

lemma only_accounts_fields:
  assumes "only_accounts s t"
  shows "zones_size t = zones_size s" and "z_page_len (zones t i) = z_page_len (zones s i)"
    and "page_using_cnt (zones t i) + page_free_cnt (zones t i) =
      page_using_cnt (zones s i) + page_free_cnt (zones s i)"
    and "zone_start_addr (zones t i) = zone_start_addr (zones s i)" and "zone_end_addr (zones t i) = zone_end_addr (zones s i)"
    and "g_zone_dma t = g_zone_dma s" and "g_zone_normal t = g_zone_normal s"
  using assms by (auto simp: only_accounts_def)

text \<open>A run of free pages, claimed one by one.\<close>

lemma claim_loop:
  assumes inv: "mem_inv s M" and fl: "fl \<noteq> 0"
    and free: "\<And>l. l < n \<Longrightarrow> P + l \<in> M \<and> p_attribute (pages s (P + l)) = 0"
  shows "\<exists>s'. foldR (\<lambda>l. page_init (P + l) fl) [0 ..< n] s = Inr s' \<and> mem_inv s' M \<and> only_accounts s s' \<and>
    (\<forall>x. pages s' x = (if P \<le> x \<and> x < P + n
       then (pages s x)\<lparr>p_attribute := fl, ref_cnt := 1\<rparr> else pages s x)) \<and>
    (\<forall>x. bm_test (bits_map s') x \<longleftrightarrow> P \<le> x \<and> x < P + n \<or> bm_test (bits_map s) x)"
  using free
proof (induction n)
  case 0
  with inv show ?case by (auto simp: only_accounts_refl)
next
  case (Suc n)
  then obtain s1 where run: "foldR (\<lambda>l. page_init (P + l) fl) [0 ..< n] s = Inr s1" and inv1: "mem_inv s1 M"
    and acc: "only_accounts s s1"
    and pg: "\<And>x. pages s1 x = (if P \<le> x \<and> x < P + n
      then (pages s x)\<lparr>p_attribute := fl, ref_cnt := 1\<rparr> else pages s x)"
    and bt: "\<And>x. bm_test (bits_map s1) x \<longleftrightarrow> P \<le> x \<and> x < P + n \<or> bm_test (bits_map s) x"
    by fastforce
  let ?x = "P + n"
  have x: "?x \<in> M" and at: "p_attribute (pages s1 ?x) = 0"
    using Suc.prems [of n] pg [of ?x] by auto
  obtain z where z: "p_zone (pages s1 ?x) = Some z"
    using managed_zone [OF mem_inv_managed [OF inv1] x] by blast
  have f: "frame (phy_addr (pages s1 ?x)) = ?x" using managed_frame [OF mem_inv_managed [OF inv1] x] .
  have ref: "ref_cnt (pages s1 ?x) = 0"
    using mem_inv_page [OF inv1 x] at by (simp add: page_ok_def)
  note step = page_init_free [OF at z, of fl]
  let ?u = "page_step s1 ?x z ((pages s1 ?x)\<lparr>p_attribute := fl, ref_cnt := ref_cnt (pages s1 ?x) + 1\<rparr>)
      (bm_set (bits_map s1) (phy_addr (pages s1 ?x))) 1 1"
  have "mem_inv ?u M" using page_init_step [OF inv1 x fl] step by auto
  moreover have "only_accounts s ?u" by (rule only_accounts_step [OF acc])
  ultimately show ?case
    using run step f ref by (auto simp: foldR_append pg bt bm.test_mark)
qed

lemma page_clean_step:
  assumes inv: "mem_inv s M" and x: "x \<in> M"
  shows "\<exists>z p b du dl. page_clean x s = Inr (page_step s x z p b du dl) \<and>
    mem_inv (page_step s x z p b du dl) M"
proof -
  let ?p = "pages s x"
  from inv x obtain z where z: "p_zone ?p = Some z" and f: "frame (phy_addr ?p) = x"
    and ok: "page_ok (bits_map s) x ?p"
    by (meson managed_frame managed_zone mem_inv_managed mem_inv_page)
  note inv_rule = page_step_inv [OF inv x z]
  consider (free) "p_attribute ?p = 0"
    | (drop) "p_attribute ?p \<noteq> 0" "shared_flags (p_attribute ?p)" "ref_cnt ?p \<noteq> 1"
    | (last) "p_attribute ?p \<noteq> 0" "shared_flags (p_attribute ?p)" "ref_cnt ?p = 1"
    | (own) "p_attribute ?p \<noteq> 0" "\<not> shared_flags (p_attribute ?p)"
    by blast
  then show ?thesis
  proof cases
    case free
    show ?thesis
      by (rule step_exI [OF page_clean_free [OF free, of z]], rule inv_rule) (use free z ok in auto)
  next
    case drop
    show ?thesis
      by (rule step_exI [OF page_clean_drop [OF drop(1) z drop(2,3)]], rule inv_rule)
        (use drop z ok in \<open>auto simp: page_ok_def in_use_def\<close>)
  next
    case last
    show ?thesis
      by (rule step_exI [OF page_clean_last [OF last(1) z last(2,3)]], rule inv_rule)
        (use last z ok in \<open>auto simp: page_ok_def in_use_def\<close>)
  next
    case own
    show ?thesis
      by (rule step_exI [OF page_clean_own [OF own(1) z own(2)]], rule inv_rule)
        (use own z f ok in \<open>auto simp: page_ok_def in_use_def bm.test_unmark\<close>)
  qed
qed

lemma page_step_total:
  "page_using_cnt (zones (page_step s x z p b du dl) y) +
   page_free_cnt (zones (page_step s x z p b du dl) y) =
   page_using_cnt (zones s y) + page_free_cnt (zones s y)"
  by simp

section \<open>Sequences of operations\<close>

datatype page_op = PInit nat uint64 | PClean nat

fun page_do :: "page_op \<Rightarrow> kmem \<Rightarrow> fault + kmem" where
  "page_do (PInit x flags) s = page_init x flags s"
| "page_do (PClean x) s = page_clean x s"

fun page_run :: "page_op list \<Rightarrow> kmem \<Rightarrow> fault + kmem" where
  "page_run [] s = Inr s"
| "page_run (x # xs) s = bindR (page_do x s) (page_run xs)"

fun page_op_ok :: "nat set \<Rightarrow> page_op \<Rightarrow> bool" where
  "page_op_ok M (PInit x flags) \<longleftrightarrow> x \<in> M \<and> flags \<noteq> 0"
| "page_op_ok M (PClean x) \<longleftrightarrow> x \<in> M"

lemma page_do_step:
  assumes "mem_inv s M" "page_op_ok M a"
  shows "\<exists>z x p b du dl. page_do a s = Inr (page_step s x z p b du dl) \<and>
    mem_inv (page_step s x z p b du dl) M"
  using assms page_init_step [of s M] page_clean_step [of s M] by (cases a) (simp, blast)+

lemma page_run_inv:
  "mem_inv s M \<Longrightarrow> list_all (page_op_ok M) as \<Longrightarrow>
   \<exists>s'. page_run as s = Inr s' \<and> mem_inv s' M \<and>
     (\<forall>y. page_using_cnt (zones s' y) + page_free_cnt (zones s' y) =
          page_using_cnt (zones s y) + page_free_cnt (zones s y))"
proof (induction as arbitrary: s)
  case Nil
  then show ?case by simp
next
  case (Cons a as)
  then obtain x z p b du dl where
    st: "page_do a s = Inr (page_step s x z p b du dl)" "mem_inv (page_step s x z p b du dl) M"
    using page_do_step [of s M a] by auto
  from Cons.IH [OF st(2)] Cons.prems(2) st(1) show ?case
    by (auto simp: page_step_total simp del: page_step_simps)
qed

text \<open>
  Property C4: whatever sequence of \<^verbatim>\<open>page_init\<close> (with nonzero flags) and \<^verbatim>\<open>page_clean\<close> the kernel
  runs on pages it has set up, no null zone is dereferenced, every page in use is marked in the
  bitmap, \<^verbatim>\<open>page_using_cnt\<close> of every zone is the number of its pages in use, \<^verbatim>\<open>total_page_lnk\<close> is
  the sum of their reference counts, and used plus free pages is what it was.
\<close>

theorem page_operations_keep_accounts:
  assumes "mem_inv s M" and "list_all (page_op_ok M) as"
  shows "\<exists>s'. page_run as s = Inr s' \<and>
    (\<forall>x \<in> M. p_attribute (pages s' x) \<noteq> 0 \<longrightarrow> bm_test (bits_map s') x) \<and>
    (\<forall>z < unat (zones_size s').
         page_using_cnt (zones s' z) =
           of_nat (card {x \<in> M. p_zone (pages s' x) = Some z \<and> p_attribute (pages s' x) \<noteq> 0}) \<and>
         total_page_lnk (zones s' z) = zone_sum s' M z ref_cnt \<and>
         page_using_cnt (zones s' z) + page_free_cnt (zones s' z) =
           page_using_cnt (zones s z) + page_free_cnt (zones s z))"
proof -
  obtain s' where run: "page_run as s = Inr s'" and inv: "mem_inv s' M"
    and total: "\<And>y. page_using_cnt (zones s' y) + page_free_cnt (zones s' y) =
      page_using_cnt (zones s y) + page_free_cnt (zones s y)"
    using page_run_inv [OF assms] by blast
  from inv have "finite M" by (simp add: mem_inv_def managed_def)
  with inv have "\<forall>z < unat (zones_size s'). page_using_cnt (zones s' z) =
      of_nat (card {x \<in> M. p_zone (pages s' x) = Some z \<and> p_attribute (pages s' x) \<noteq> 0})"
    by (simp add: mem_inv_def zone_sum_in_use)
  with run inv show ?thesis
    by (intro exI [of _ s']) (simp add: mem_inv_def page_ok_def total [symmetric])
qed

text \<open>A memory of three pages in one zone, all free: the state the witnesses use.\<close>

definition three_pages :: kmem where
  "three_pages = memory_management_struct\<lparr>
     pages := (\<lambda>x. zero_Page\<lparr>p_zone := Some 0, phy_addr := page_addr x\<rparr>),
     zones := (\<lambda>_. zero_Zone\<lparr>zone_start_addr := 0x200000, zone_end_addr := 0x800000,
                             z_page_len := 3, page_free_cnt := 3\<rparr>),
     zones_size := 1,
     bits_map := (\<lambda>w. if w = 0 then - 15 else - 1)\<rparr>"

lemma three_pages_inv: "mem_inv three_pages {1, 2, 3}"
  by (simp add: mem_inv_def managed_def page_ok_def zone_sum_def in_use_def three_pages_def
      memory_management_struct_def zero_Page_def zero_Zone_def)

theorem page_operations_keep_accounts_witness:
  "\<exists>s'. page_run [PInit 1 PG_Kernel, PInit 2 PG_Referenced, PInit 2 PG_Active, PClean 1] three_pages
      = Inr s' \<and>
    (\<forall>x \<in> {1, 2, 3}. p_attribute (pages s' x) \<noteq> 0 \<longrightarrow> bm_test (bits_map s') x)"
  using page_operations_keep_accounts [OF three_pages_inv, of
      "[PInit 1 PG_Kernel, PInit 2 PG_Referenced, PInit 2 PG_Active, PClean 1]"]
  by (auto simp: PG_Kernel_def PG_Referenced_def PG_Active_def)

text \<open>
  Releasing a page that was allocated for one owner restores the memory manager
  exactly: \<^verbatim>\<open>page_clean\<close> after \<^verbatim>\<open>page_init\<close> on a free, unmarked page, with flags that do not share
  it, gives back the bitmap, the page and the counters of the zone.
\<close>

theorem page_clean_undoes_page_init:
  assumes "managed s M" and "x \<in> M" and "p_attribute (pages s x) = 0" and "ref_cnt (pages s x) = 0"
    and "\<not> bm_test (bits_map s) x" and "flags \<noteq> 0" and "\<not> shared_flags flags"
  shows "bindR (page_init x flags s) (page_clean x) = Inr s"
proof -
  from assms(1,2) obtain z where z: "p_zone (pages s x) = Some z"
    and f: "frame (phy_addr (pages s x)) = x"
    using managed_zone managed_frame by blast
  let ?s = "page_step s x z ((pages s x)\<lparr>p_attribute := flags, ref_cnt := ref_cnt (pages s x) + 1\<rparr>)
    (bm_set (bits_map s) (phy_addr (pages s x))) 1 1"
  have "page_clean x ?s = Inr (page_step ?s x z ((pages ?s x)\<lparr>p_attribute := 0, ref_cnt := 0\<rparr>)
      (bm_clear (bits_map ?s) (phy_addr (pages ?s x))) (- 1) (- 1))"
    by (rule page_clean_own) (use assms z in auto)
  also have "\<dots> = Inr s"
    using assms(3,4,5) f bm.unmark_mark [of "bits_map s" "phy_addr (pages s x)"]
    by (cases "pages s x") (auto simp: page_step_def fun_upd_idem)
  finally show ?thesis
    by (simp add: page_init_free [OF assms(3) z])
qed

theorem page_clean_undoes_page_init_witness:
  "bindR (page_init 2 PG_Kernel three_pages) (page_clean 2) = Inr three_pages"
  by (rule page_clean_undoes_page_init [OF mem_inv_managed [OF three_pages_inv]])
    (simp_all add: three_pages_def memory_management_struct_def zero_Page_def bm_test_def
      PG_Kernel_def shared_flags_def PG_Referenced_def PG_K_Share_To_U_def)

text \<open>
  Property C32: the last release of a shared page leaks its frame. The branch of \<^verbatim>\<open>page_clean\<close> for
  referenced pages resets the attribute and counts the page as free again, and leaves its bit in the
  bitmap set, so \<^verbatim>\<open>alloc_pages\<close>, which searches the bitmap, never finds the page again.
\<close>

theorem shared_page_release_leaks_frame:
  assumes "managed s M" and "x \<in> M" and "p_attribute (pages s x) = 0" and "ref_cnt (pages s x) = 0"
    and "shared_flags flags"
  shows "\<exists>s'. bindR (page_init x flags s) (page_clean x) = Inr s' \<and>
    p_attribute (pages s' x) = 0 \<and> ref_cnt (pages s' x) = 0 \<and>
    (\<forall>z. page_free_cnt (zones s' z) = page_free_cnt (zones s z)) \<and>
    bm_test (bits_map s') x"
proof -
  from assms(1,2) obtain z where z: "p_zone (pages s x) = Some z"
    and f: "frame (phy_addr (pages s x)) = x"
    using managed_zone managed_frame by blast
  let ?s = "page_step s x z ((pages s x)\<lparr>p_attribute := flags, ref_cnt := ref_cnt (pages s x) + 1\<rparr>)
    (bm_set (bits_map s) (phy_addr (pages s x))) 1 1"
  have "flags \<noteq> 0" using assms(5) by (auto simp: shared_flags_def)
  then have "page_clean x ?s = Inr (page_step ?s x z ((pages ?s x)\<lparr>p_attribute := 0, ref_cnt := 0\<rparr>)
      (bits_map ?s) (- 1) (- 1))"
    by (intro page_clean_last) (use assms z in auto)
  then show ?thesis
    using f by (auto simp: page_init_free [OF assms(3) z] bm.test_mark)
qed

theorem shared_page_release_leaks_frame_witness:
  "\<exists>s'. bindR (page_init 2 PG_Referenced three_pages) (page_clean 2) = Inr s' \<and>
     p_attribute (pages s' 2) = 0 \<and> bm_test (bits_map s') 2"
proof -
  have "p_attribute (pages three_pages 2) = 0" "ref_cnt (pages three_pages 2) = 0"
    "shared_flags PG_Referenced"
    by (simp_all add: three_pages_def memory_management_struct_def zero_Page_def shared_flags_def
        PG_Referenced_def)
  then show ?thesis
    using shared_page_release_leaks_frame [OF mem_inv_managed [OF three_pages_inv], of 2 PG_Referenced]
    by auto
qed

end
