(* ===== verification/Mem_Alloc.thy ===== *)
theory Mem_Alloc
  imports Mem_Page
begin

text \<open>
  \<^verbatim>\<open>alloc_pages\<close> of \<^verbatim>\<open>src/memory.c\<close>: the search of the zones' bitmaps for a run of free pages, and
  the initialisation of the pages found. The lemmas say which run the search finds, when the pages
  it hands out are the ones it found free, and when they are not.
\<close>

section \<open>The search\<close>

text \<open>
  The mask of a request, \<^verbatim>\<open>number == 64 ? (uint64)-1 : (1UL << number) - 1\<close>, and the 64 bits of the
  bitmap from bit \<open>k\<close> of word \<open>w\<close>, \<^verbatim>\<open>*p >> k | *(p + 1) << (64 - k)\<close>. For \<open>k = 0\<close> the second shift
  has count 64, which the processor takes as 0.
\<close>

definition run_mask :: "int \<Rightarrow> uint64" where
  "run_mask number = (if number = 64 then - 1 else shl64 1 (nat (number mod 64)) - 1)"

definition window :: "(nat \<Rightarrow> uint64) \<Rightarrow> nat \<Rightarrow> nat \<Rightarrow> uint64" where
  "window bm w k = shr64 (bm w) k OR shl64 (bm (w + 1)) (64 - k)"

text \<open>The loop over \<open>k\<close>, and the loop over \<open>j\<close> with its steps to the next multiple of 64.\<close>

definition find_k :: "(nat \<Rightarrow> uint64) \<Rightarrow> int \<Rightarrow> nat \<Rightarrow> nat option" where
  "find_k bm number j =
     (let shift = j mod 64
      in find (\<lambda>k. window bm (j div 64) k AND run_mask number = 0) [shift ..< 64 - shift])"

text \<open>
  The frame numbers come from addresses shifted right by 21, so \<open>j\<close> stays below \<open>2 ^ 43 + 64\<close> and
  the natural numbers here are the 64-bit variables of the code.
\<close>

function find_page :: "(nat \<Rightarrow> uint64) \<Rightarrow> int \<Rightarrow> nat \<Rightarrow> nat \<Rightarrow> nat \<Rightarrow> uint64 option" where
  "find_page bm number start j last_page =
     (if j \<le> last_page then
        (case find_k bm number j of
           Some k \<Rightarrow> Some (of_nat j + of_nat k - 1)
         | None \<Rightarrow> (let tmp = 64 - start mod 64
                    in find_page bm number start (j + (if j mod 64 \<noteq> 0 then tmp else 64)) last_page))
      else None)"
  by pat_completeness auto
termination
  by (relation "measure (\<lambda>(bm, number, start, j, last_page). last_page + 1 - j)") auto

declare find_page.simps [simp del]

definition zone_search :: "kmem \<Rightarrow> int \<Rightarrow> nat \<Rightarrow> uint64 option" where
  "zone_search s number i =
     (if page_free_cnt (zones s i) < word_of_int number then None
      else let z = zones s i;
               start = unat (drop_bit PAGE_2M_SHIFT (zone_start_addr z));
               last_page = unat (drop_bit PAGE_2M_SHIFT (zone_end_addr z))
           in find_page (bits_map s) number start start last_page)"

text \<open>
  The loop over the zones. Its counter and its bound are 64-bit, and the bound can be the largest
  64-bit number, so that the loop need not end: \<open>None\<close> is not returning.
\<close>

definition init_run :: "uint64 \<Rightarrow> int \<Rightarrow> uint64 \<Rightarrow> kmem \<Rightarrow> fault + kmem" where
  "init_run page number flags s =
     foldR (\<lambda>l. page_init (unat (page + of_nat l)) flags)
       [0 ..< unat (word_of_int number :: uint64)] s"

partial_function (option) alloc_zones ::
  "kmem \<Rightarrow> int \<Rightarrow> uint64 \<Rightarrow> uint64 \<Rightarrow> uint64 \<Rightarrow> (fault + kmem \<times> uint64 option) option" where
  "alloc_zones s number flags i zone_end =
     (if i \<le> zone_end then
        (case zone_search s number (unat i) of
           Some page \<Rightarrow> Some (bindR (init_run page number flags s) (\<lambda>s'. Inr (s', Some page)))
         | None \<Rightarrow> alloc_zones s number flags (i + 1) zone_end)
      else Some (Inr (s, None)))"

definition alloc_pages ::
  "int \<Rightarrow> int \<Rightarrow> uint64 \<Rightarrow> kmem \<Rightarrow> (fault + kmem \<times> uint64 option) option" where
  "alloc_pages zone_select number page_flags s =
     (if zone_select = ZONE_DMA then
        alloc_zones s number page_flags 0 (g_zone_dma s)
      else if zone_select = ZONE_NORMAL then
        alloc_zones s number page_flags (g_zone_dma s) (g_zone_normal s)
      else if zone_select = ZONE_UNMAPPED then
        alloc_zones s number page_flags (g_zone_unmapped s) (zones_size s - 1)
      else
        alloc_zones (s\<lparr>klog := klog s @ [''Alloc_pages error zone select index'' @ [CHR 0x0A]]\<rparr>)
          number page_flags 0 0)"

section \<open>What the search finds\<close>

lemma window_bit_pos:
  assumes "0 < k" "k < 64" "i < 64"
  shows "bit (window bm w k) i \<longleftrightarrow> bm_test bm (64 * w + k + i)"
proof (cases "k + i < 64")
  case True
  then have "bm_test bm (64 * w + k + i) \<longleftrightarrow> bit (bm w) (k + i)"
    using bm_test_word [of "k + i" bm w] by (simp add: add.assoc)
  then show ?thesis
    using True assms by (auto simp: window_def bit_or_iff bit_drop_bit_eq bit_push_bit_iff)
next
  case False
  then have "64 * w + k + i = 64 * (w + 1) + (k + i - 64)" "k + i - 64 < 64"
    using assms by simp_all
  then have "bm_test bm (64 * w + k + i) \<longleftrightarrow> bit (bm (w + 1)) (k + i - 64)"
    by (metis bm_test_word)
  moreover have "\<not> bit (bm w) (k + i)"
    using False by (auto dest: bit_imp_le_length)
  moreover have "i - (64 - k) = k + i - 64" "64 - k \<le> i"
    using False assms by simp_all
  ultimately show ?thesis
    using assms by (simp add: window_def bit_or_iff bit_drop_bit_eq bit_push_bit_iff)
qed

lemma window_bit_zero:
  "i < 64 \<Longrightarrow> bit (window bm w 0) i \<longleftrightarrow> bm_test bm (64 * w + i) \<or> bm_test bm (64 * (w + 1) + i)"
  using bm_test_word [of i bm w] bm_test_word [of i bm "w + 1"]
  by (simp add: window_def bit_or_iff)

lemma bit_run_mask: "1 \<le> n \<Longrightarrow> n \<le> 64 \<Longrightarrow> i < 64 \<Longrightarrow> bit (run_mask n) i \<longleftrightarrow> int i < n"
  by (auto simp: run_mask_def bit_mask_iff nat_less_iff simp flip: mask_eq_exp_minus_1)

lemma masked_zero_iff:
  assumes "1 \<le> n" "n \<le> 64"
  shows "x AND run_mask n = 0 \<longleftrightarrow> (\<forall>i < nat n. \<not> bit x i)"
proof -
  have "x AND run_mask n = 0 \<longleftrightarrow> (\<forall>i < 64. \<not> (bit x i \<and> int i < n))"
    using assms by (auto simp: bit_eq_iff bit_and_iff bit_run_mask)
  also have "\<dots> \<longleftrightarrow> (\<forall>i < nat n. \<not> bit x i)"
    using assms bit_imp_le_length [of x] by (fastforce simp: zless_nat_eq_int_zless)
  finally show ?thesis .
qed

text \<open>The test of one position: \<open>n\<close> frames are free from the position on, and for \<open>k = 0\<close> the same
  bits of the next word as well.\<close>

lemma window_free:
  assumes "1 \<le> n" "n \<le> 64" "k < 64"
  shows "window bm w k AND run_mask n = 0 \<longleftrightarrow>
    (\<forall>i < nat n. \<not> bm_test bm (64 * w + k + i) \<and> (k = 0 \<longrightarrow> \<not> bm_test bm (64 * (w + 1) + i)))"
proof -
  have "i < nat n \<Longrightarrow> i < 64" for i using assms(2) by linarith
  then show ?thesis
    unfolding masked_zero_iff [OF assms(1,2)]
    using window_bit_pos [of k _ bm w] window_bit_zero [of _ bm w] assms(3)
    by (cases "k = 0") auto
qed

lemma find_k_Some:
  assumes "find_k bm n j = Some k"
  shows "j mod 64 \<le> k \<and> k < 64 - j mod 64 \<and> window bm (j div 64) k AND run_mask n = 0"
proof -
  from assms obtain i where "i < 64 - j mod 64 - j mod 64" "k = j mod 64 + i"
    "window bm (j div 64) k AND run_mask n = 0"
    by (auto simp: find_k_def Let_def find_Some_iff)
  then show ?thesis by simp
qed

lemma find_k_least:
  assumes "find_k bm n j = Some k" and "j mod 64 \<le> q" "q < 64 - j mod 64" and "window bm (j div 64) q AND run_mask n = 0"
  shows "k \<le> q"
proof -
  from assms(1) obtain i where i: "k = j mod 64 + i"
    "\<And>m. m < i \<Longrightarrow> window bm (j div 64) (j mod 64 + m) AND run_mask n \<noteq> 0"
    by (auto simp: find_k_def Let_def find_Some_iff)
  have "\<not> q - j mod 64 < i" using i(2) [of "q - j mod 64"] assms(2,4) by auto
  then show ?thesis using i(1) assms(2) by linarith
qed

lemma find_k_None:
  assumes "j mod 64 \<le> k" "k < 64 - j mod 64" "window bm (j div 64) k AND run_mask n = 0"
  shows "find_k bm n j \<noteq> None"
proof -
  from assms(1,2) have "k \<in> set [j mod 64 ..< 64 - j mod 64]" by simp
  with assms(3) show ?thesis by (auto simp: find_k_def Let_def find_None_iff)
qed

lemma find_page_first:
  "find_k bm n j = Some k \<Longrightarrow> j \<le> e \<Longrightarrow> find_page bm n start j e = Some (of_nat j + of_nat k - 1)"
  by (subst find_page.simps) simp

lemma find_page_next:
  "find_k bm n j = None \<Longrightarrow> j \<le> e \<Longrightarrow> find_page bm n start j e =
     find_page bm n start (j + (if j mod 64 \<noteq> 0 then 64 - start mod 64 else 64)) e"
  by (subst find_page.simps) (simp add: Let_def)

text \<open>
  The position the search stops at: either in the word of the zone's first page, or at a later
  multiple of 64.
\<close>

lemma next_multiple: "(j :: nat) mod 64 \<noteq> 0 \<Longrightarrow> (j + (64 - j mod 64)) mod 64 = 0"
  by presburger

lemma find_page_Some:
  assumes "find_page bm n start j e = Some page" and "j = start \<or> j mod 64 = 0" and "start \<le> j"
  shows "\<exists>j' k. find_k bm n j' = Some k \<and> j \<le> j' \<and> j' \<le> e \<and>
    (j' = start \<or> j' mod 64 = 0) \<and> page = of_nat j' + of_nat k - 1"
  using assms
proof (induction bm n start j e rule: find_page.induct)
  case (1 bm n start j e)
  from "1.prems"(1) have le: "j \<le> e" by (subst (asm) find_page.simps) (auto split: if_splits)
  show ?case
  proof (cases "find_k bm n j")
    case (Some k)
    from find_page_first [OF Some le] "1.prems"(1) have "page = of_nat j + of_nat k - 1" by simp
    with Some le "1.prems"(2) show ?thesis by (intro exI [of _ j] exI [of _ k]) simp
  next
    case None
    let ?j = "j + (if j mod 64 \<noteq> 0 then 64 - start mod 64 else 64)"
    from find_page_next [OF None le] "1.prems"(1)
    have rec: "find_page bm n start ?j e = Some page" by simp
    have "?j mod 64 = 0"
      using "1.prems"(2) next_multiple [of j] by auto
    then obtain j' k where "find_k bm n j' = Some k" "?j \<le> j'" "j' \<le> e"
        "j' = start \<or> j' mod 64 = 0" "page = of_nat j' + of_nat k - 1"
      using "1.IH" [OF le None refl rec] "1.prems"(3) by auto
    then show ?thesis
      by (intro exI [of _ j'] exI [of _ k]) auto
  qed
qed

section \<open>The loop over the zones\<close>

lemma alloc_zones_skip:
  "zone_search s n (unat i) = None \<Longrightarrow> i \<le> e \<Longrightarrow> alloc_zones s n fl i e = alloc_zones s n fl (i + 1) e"
  by (subst alloc_zones.simps) simp

lemma alloc_zones_stop: "\<not> i \<le> e \<Longrightarrow> alloc_zones s n fl i e = Some (Inr (s, None))"
  by (subst alloc_zones.simps) simp

lemma alloc_zones_found:
  "zone_search s n (unat i) = Some page \<Longrightarrow> i \<le> e \<Longrightarrow>
   alloc_zones s n fl i e = Some (bindR (init_run page n fl s) (\<lambda>s'. Inr (s', Some page)))"
  by (subst alloc_zones.simps) simp

lemma unat_inc:
  assumes "i \<le> e" "e \<noteq> - 1"
  shows "unat (i + 1 :: uint64) = unat i + 1"
proof -
  have "unat (- 1 :: uint64) = 18446744073709551615"
    by (simp add: unsigned_minus_1_eq_mask mask_eq_exp_minus_1)
  then have "unat e \<noteq> 18446744073709551615" using assms(2) by (metis word_unat_eq_iff)
  then have "unat i + 1 < 18446744073709551616"
    using assms(1) [unfolded word_le_nat_alt] unat64_less [of e] by linarith
  then show ?thesis by (simp add: unat_word_ariths)
qed

text \<open>Every outcome of the loop, when its bound is not the largest 64-bit number.\<close>

lemma alloc_zones_outcome:
  assumes "e \<noteq> - 1"
  shows "(alloc_zones s n fl i e = Some (Inr (s, None)) \<and>
      (\<forall>z. unat i \<le> z \<longrightarrow> z \<le> unat e \<longrightarrow> zone_search s n z = None)) \<or>
    (\<exists>z page. unat i \<le> z \<and> z \<le> unat e \<and> zone_search s n z = Some page \<and>
      (\<forall>y. unat i \<le> y \<longrightarrow> y < z \<longrightarrow> zone_search s n y = None) \<and>
      alloc_zones s n fl i e = Some (bindR (init_run page n fl s) (\<lambda>s'. Inr (s', Some page))))"
proof (induction "unat e + 1 - unat i" arbitrary: i)
  case 0
  then have "\<not> i \<le> e" by (simp add: word_le_nat_alt)
  then show ?case by (auto simp: alloc_zones_stop word_le_nat_alt)
next
  case (Suc m)
  then have le: "i \<le> e" by (simp add: word_le_nat_alt)
  note inc = unat_inc [OF le assms]
  show ?case
  proof (cases "zone_search s n (unat i)")
    case (Some page)
    then show ?thesis
      using alloc_zones_found [OF Some le] le
      by (intro disjI2 exI [of _ "unat i"] exI [of _ page]) (auto simp: word_le_nat_alt)
  next
    case None
    have "m = unat e + 1 - unat (i + 1)" using Suc.hyps(2) inc by simp
    note IH = Suc.hyps(1) [OF this, unfolded inc, folded alloc_zones_skip [OF None le]]
    have split: "unat i \<le> z \<longleftrightarrow> z = unat i \<or> unat i + 1 \<le> z" for z by auto
    from IH show ?thesis
      unfolding split using None by (elim disjE) (auto simp del: One_nat_def)
  qed
qed

text \<open>Whatever the bound is: if the loop returns, it returns null or what some zone offered.\<close>

lemma alloc_zones_returns:
  assumes "alloc_zones s n fl i e = Some r"
  shows "r = Inr (s, None) \<or> (\<exists>z page. zone_search s n z = Some page \<and>
    r = bindR (init_run page n fl s) (\<lambda>s'. Inr (s', Some page)))"
proof (rule alloc_zones.raw_induct [where P = "\<lambda>s n fl i e r. r = Inr (s, None) \<or>
    (\<exists>z page. zone_search s n z = Some page \<and>
      r = bindR (init_run page n fl s) (\<lambda>s'. Inr (s', Some page)))", OF _ assms])
  fix rec s n fl i e r
  assume IH: "\<And>s n fl i e r. rec s n fl i e = Some r \<Longrightarrow> r = Inr (s, None) \<or>
      (\<exists>z page. zone_search s n z = Some page \<and>
        r = bindR (init_run page n fl s) (\<lambda>s'. Inr (s', Some page)))"
    and eq: "(if i \<le> e then case zone_search s n (unat i) of
        None \<Rightarrow> rec s n fl (i + 1) e
      | Some page \<Rightarrow> Some (bindR (init_run page n fl s) (\<lambda>s'. Inr (s', Some page)))
      else Some (Inr (s, None))) = Some r"
  show "r = Inr (s, None) \<or> (\<exists>z page. zone_search s n z = Some page \<and>
      r = bindR (init_run page n fl s) (\<lambda>s'. Inr (s', Some page)))"
    using eq IH [of s n fl "i + 1" e r] by (auto split: if_splits option.splits)
qed

text \<open>With the largest bound and no zone that fits, the loop wraps around for ever.\<close>

lemma alloc_zones_diverges:
  assumes none: "\<And>z. zone_search s n z = None"
  shows "alloc_zones s n fl i (- 1) = None"
proof (rule ccontr)
  assume "alloc_zones s n fl i (- 1) \<noteq> None"
  then obtain r where ret: "alloc_zones s n fl i (- 1) = Some r" by blast
  have "- 1 = (- 1 :: uint64) \<longrightarrow> (\<forall>z. zone_search s n z = None) \<longrightarrow> False"
  proof (rule alloc_zones.raw_induct [where P = "\<lambda>s n fl i e r.
      e = - 1 \<longrightarrow> (\<forall>z. zone_search s n z = None) \<longrightarrow> False", OF _ ret])
    fix rec s n fl i e r
    assume IH: "\<And>s n fl i e r. rec s n fl i e = Some r \<Longrightarrow>
        e = - 1 \<longrightarrow> (\<forall>z. zone_search s n z = None) \<longrightarrow> False"
      and eq: "(if i \<le> e then case zone_search s n (unat i) of
          None \<Rightarrow> rec s n fl (i + 1) e
        | Some page \<Rightarrow> Some (bindR (init_run page n fl s) (\<lambda>s'. Inr (s', Some page)))
        else Some (Inr (s, None))) = Some r"
    show "e = - 1 \<longrightarrow> (\<forall>z. zone_search s n z = None) \<longrightarrow> False"
      using eq IH [of s n fl "i + 1" e r] by (auto split: if_splits option.splits)
  qed
  with none show False by simp
qed

section \<open>Claiming the run\<close>

lemma claim_pages:
  assumes inv: "mem_inv s M" and fl: "fl \<noteq> 0"
    and free: "\<And>l. l < n \<Longrightarrow> P + l \<in> M \<and> p_attribute (pages s (P + l)) = 0"
  shows "\<exists>s'. foldR (\<lambda>l. page_init (unat (of_nat P + of_nat l :: uint64)) fl) [0 ..< n] s = Inr s' \<and>
    mem_inv s' M \<and> only_accounts s s' \<and>
    (\<forall>x. pages s' x = (if P \<le> x \<and> x < P + n
       then (pages s x)\<lparr>p_attribute := fl, ref_cnt := 1\<rparr> else pages s x)) \<and>
    (\<forall>x. bm_test (bits_map s') x \<longleftrightarrow> P \<le> x \<and> x < P + n \<or> bm_test (bits_map s) x)"
proof -
  have "unat (of_nat P + of_nat l :: uint64) = P + l" if "l < n" for l
  proof -
    have "P + l < 2 ^ 43" using free [OF that] mem_inv_managed [OF inv] by (auto simp: managed_def)
    then show ?thesis by (simp add: unat_of_nat take_bit_nat_eq_self flip: of_nat_add)
  qed
  then have "foldR (\<lambda>l. page_init (unat (of_nat P + of_nat l :: uint64)) fl) [0 ..< n] s =
      foldR (\<lambda>l. page_init (P + l) fl) [0 ..< n] s"
    by (intro foldR_cong) simp
  with claim_loop [OF inv fl free] show ?thesis by simp
qed

lemma page_number:
  assumes "0 < j + k" "j + k < 2 ^ 44"
  shows "(of_nat j + of_nat k - 1 :: uint64) = of_nat (j + k - 1)"
    "unat (of_nat j + of_nat k - 1 :: uint64) = j + k - 1"
proof -
  show eq: "(of_nat j + of_nat k - 1 :: uint64) = of_nat (j + k - 1)"
    using assms(1) by (cases "j + k") (simp_all flip: of_nat_add add: add_diff_eq [symmetric])
  show "unat (of_nat j + of_nat k - 1 :: uint64) = j + k - 1"
    unfolding eq using assms(2) by (simp add: unat_of_nat)
qed

section \<open>Properties of the allocator\<close>

text \<open>
  The zone the kernel allocates from: \<^verbatim>\<open>g_zone_dma\<close> and \<^verbatim>\<open>g_zone_normal\<close> are never assigned, so
  \<^verbatim>\<open>ZONE_NORMAL\<close> and \<^verbatim>\<open>ZONE_DMA\<close> both mean zone 0. \<open>first_word_run s n k\<close>: the \<open>n\<close> frames from bit
  \<open>k\<close> of the word that holds the first page of zone 0 are free, and \<open>k\<close> is a position the code
  tries.
\<close>

definition zone0_start :: "kmem \<Rightarrow> nat" where
  "zone0_start s = frame (zone_start_addr (zones s 0))"

definition zone0_end :: "kmem \<Rightarrow> nat" where
  "zone0_end s = frame (zone_end_addr (zones s 0))"

definition first_word_run :: "kmem \<Rightarrow> int \<Rightarrow> nat \<Rightarrow> bool" where
  "first_word_run s n k \<longleftrightarrow>
     zone0_start s mod 64 \<le> k \<and> k < 64 - zone0_start s mod 64 \<and>
     (\<forall>i < nat n. \<not> bm_test (bits_map s) (64 * (zone0_start s div 64) + k + i))"

lemma zone_search_zone0:
  "zone_search s n 0 = (if page_free_cnt (zones s 0) < word_of_int n then None
     else find_page (bits_map s) n (zone0_start s) (zone0_start s) (zone0_end s))"
  by (simp add: zone_search_def zone0_start_def zone0_end_def frame_def Let_def)

lemma alloc_normal_zone0:
  assumes "g_zone_dma s = 0" "g_zone_normal s = 0" "zone_search s n 0 = Some page"
  shows "alloc_pages ZONE_NORMAL n fl s =
    Some (bindR (init_run page n fl s) (\<lambda>s'. Inr (s', Some page)))"
  using assms alloc_zones_found [of s n 0 page 0 fl]
  by (simp add: alloc_pages_def ZONE_NORMAL_def ZONE_DMA_def)

lemma zone0_start_less: "zone0_start s < 2 ^ 43"
  unfolding zone0_start_def by (rule frame_less)

text \<open>The search stops in the word of the first page, and the page number it returns is right there.\<close>

lemma first_word_found:
  assumes n: "1 \<le> n" "n \<le> 64"
    and start: "zone0_start s mod 64 = 1" "zone0_start s \<le> zone0_end s"
    and enough: "word_of_int n \<le> page_free_cnt (zones s 0)" and run: "first_word_run s n k"
  shows "\<exists>P. zone_search s n 0 = Some (of_nat P) \<and>
    (\<forall>l < nat n. \<not> bm_test (bits_map s) (P + l) \<and> P + l < 64 * (zone0_start s div 64) + 128) \<and>
    (\<forall>q. first_word_run s n q \<longrightarrow> P \<le> 64 * (zone0_start s div 64) + q)"
proof -
  let ?j = "zone0_start s" and ?w = "zone0_start s div 64"
  from run start(1) have "find_k (bits_map s) n ?j \<noteq> None"
    by (intro find_k_None [of _ k]) (auto simp: first_word_run_def window_free [OF n])
  then obtain k' where k': "find_k (bits_map s) n ?j = Some k'" by blast
  from find_k_Some [OF k'] start(1)
  have pos: "1 \<le> k'" "k' < 63" and free: "window (bits_map s) ?w k' AND run_mask n = 0" by auto
  let ?P = "?j + k' - 1"
  have P: "?P = 64 * ?w + k'" using start(1) mult_div_mod_eq [of 64 ?j] by linarith
  have "\<not> bm_test (bits_map s) (?P + l) \<and> ?P + l < 64 * ?w + 128" if "l < nat n" for l
    using that free window_free [OF n, of k'] pos n(2) unfolding P by auto
  moreover have "?P \<le> 64 * ?w + q" if "first_word_run s n q" for q
    unfolding P using find_k_least [OF k', of q] that start(1) by (auto simp: first_word_run_def window_free [OF n])
  moreover have "zone_search s n 0 = Some (of_nat ?P)"
    using enough start(2) pos zone0_start_less [of s] page_number(1) [of ?j k']
    by (simp add: zone_search_zone0 find_page_first [OF k'] not_less)
  ultimately show ?thesis by blast
qed

lemma init_run_claims:
  assumes "mem_inv s M" and "flags \<noteq> 0" and "1 \<le> n" "n \<le> 64"
    and "\<And>l. l < nat n \<Longrightarrow> P + l \<in> M \<and> \<not> bm_test (bits_map s) (P + l)"
  shows "\<exists>s'. init_run (of_nat P) n flags s = Inr s' \<and> mem_inv s' M \<and> only_accounts s s' \<and>
    (\<forall>x. pages s' x = (if P \<le> x \<and> x < P + nat n
       then (pages s x)\<lparr>p_attribute := flags, ref_cnt := 1\<rparr> else pages s x)) \<and>
    (\<forall>x. bm_test (bits_map s') x \<longleftrightarrow> P \<le> x \<and> x < P + nat n \<or> bm_test (bits_map s) x)"
proof -
  have "unat (word_of_int n :: uint64) = nat n"
    using assms(3,4) by (simp add: unsigned_of_int take_bit_int_eq_self)
  moreover have "P + l \<in> M \<and> p_attribute (pages s (P + l)) = 0" if "l < nat n" for l
    using assms(5) [OF that] mem_inv_page [OF assms(1), of "P + l"] by (auto simp: page_ok_def)
  ultimately show ?thesis
    unfolding init_run_def using claim_pages [OF assms(1,2), of "nat n" P] by presburger
qed

lemma alloc_run_claimed:
  assumes inv: "mem_inv s M" and n: "1 \<le> n" "n \<le> 64" and fl: "flags \<noteq> 0"
    and globals: "g_zone_dma s = 0" "g_zone_normal s = 0"
    and start: "zone0_start s mod 64 = 1" "zone0_start s \<le> zone0_end s"
    and enough: "word_of_int n \<le> page_free_cnt (zones s 0)"
    and run: "first_word_run s n k"
    and covers: "\<And>x. x < 64 * (zone0_start s div 64) + 128 \<Longrightarrow> \<not> bm_test (bits_map s) x \<Longrightarrow> x \<in> M"
  shows "\<exists>P s'. alloc_pages ZONE_NORMAL n flags s = Some (Inr (s', Some (of_nat P))) \<and>
    (\<forall>l < nat n. \<not> bm_test (bits_map s) (P + l)) \<and> (\<forall>l < nat n. P + l \<in> M \<and> P + l < 64 * (zone0_start s div 64) + 128) \<and>
    (\<forall>x. bm_test (bits_map s') x \<longleftrightarrow> P \<le> x \<and> x < P + nat n \<or> bm_test (bits_map s) x) \<and>
    (\<forall>x. pages s' x = (if P \<le> x \<and> x < P + nat n
       then (pages s x)\<lparr>p_attribute := flags, ref_cnt := 1\<rparr> else pages s x)) \<and>
    mem_inv s' M \<and> only_accounts s s' \<and> (\<forall>q. first_word_run s n q \<longrightarrow> P \<le> 64 * (zone0_start s div 64) + q)"
proof -
  obtain P where P: "zone_search s n 0 = Some (of_nat P)"
    and free: "\<forall>l < nat n. \<not> bm_test (bits_map s) (P + l) \<and>
      P + l < 64 * (zone0_start s div 64) + 128"
    and least: "\<forall>q. first_word_run s n q \<longrightarrow> P \<le> 64 * (zone0_start s div 64) + q"
    using first_word_found [OF n start enough run] by blast
  with covers obtain s' where s': "init_run (of_nat P) n flags s = Inr s'" "mem_inv s' M" "only_accounts s s'"
      "\<forall>x. pages s' x = (if P \<le> x \<and> x < P + nat n
         then (pages s x)\<lparr>p_attribute := flags, ref_cnt := 1\<rparr> else pages s x)"
      "\<forall>x. bm_test (bits_map s') x \<longleftrightarrow> P \<le> x \<and> x < P + nat n \<or> bm_test (bits_map s) x"
    using init_run_claims [OF inv fl n, of P] by blast
  then have "alloc_pages ZONE_NORMAL n flags s = Some (Inr (s', Some (of_nat P)))"
    by (simp add: alloc_normal_zone0 [OF globals P])
  with s' free covers least show ?thesis by blast
qed


lemma three_pages_free: "\<not> bm_test (bits_map three_pages) x \<longleftrightarrow> x \<in> {1, 2, 3}"
proof -
  have eq: "(- 15 :: uint64) = NOT 14" by simp
  have "\<not> bit (- 15 :: uint64) x \<longleftrightarrow> bit (14 :: uint64) x" if "x < 64" for x
    unfolding eq bit_not_iff using that by simp
  moreover have "bit (14 :: uint64) x \<longleftrightarrow> x \<in> {1, 2, 3}" for x
    by (auto simp: bit_numeral_rec bit_1_iff split: nat.splits)
  ultimately show ?thesis
    by (auto simp: three_pages_def bm_test_def div_eq_0_iff)
qed

lemma three_pages_zone:
  "zone0_start three_pages = 1" "zone0_end three_pages = 4"
  "page_free_cnt (zones three_pages 0) = 3"
  "g_zone_dma three_pages = 0" "g_zone_normal three_pages = 0"
  by (simp_all add: three_pages_def memory_management_struct_def zone0_start_def zone0_end_def
      frame_def PAGE_2M_SHIFT_def)


text \<open>
  Which pages a successful \<^verbatim>\<open>alloc_pages\<close> hands out in general. It found a run of \<open>n\<close>
  free frames at position \<open>k\<close> of the word of frame \<open>j\<close>, and it returns page \<open>j + k - 1\<close>, which is
  not the first frame of the run but that frame shifted by \<open>j mod 64 - 1\<close>: the two agree only when
  the search stood at the second page of a word. At every later word, where \<open>j mod 64 = 0\<close>, the
  pages handed out start one before the run.
\<close>

theorem alloc_pages_returned_page:
  assumes ret: "alloc_pages sel n flags s = Some (Inr (s', Some page))"
    and sel: "sel \<in> {ZONE_DMA, ZONE_NORMAL, ZONE_UNMAPPED}" and n: "1 \<le> n" "n \<le> 64"
  shows "\<exists>z j k. word_of_int n \<le> page_free_cnt (zones s z) \<and>
    frame (zone_start_addr (zones s z)) \<le> j \<and> j \<le> frame (zone_end_addr (zones s z)) \<and>
    (j = frame (zone_start_addr (zones s z)) \<or> j mod 64 = 0) \<and>
    (\<forall>i < nat n. \<not> bm_test (bits_map s) (64 * (j div 64) + k + i)) \<and>
    page + 1 = of_nat (64 * (j div 64) + k) + of_nat (j mod 64) \<and>
    init_run page n flags s = Inr s'"
proof -
  from ret sel obtain i e where "alloc_zones s n flags i e = Some (Inr (s', Some page))"
    by (auto simp: alloc_pages_def ZONE_DMA_def ZONE_NORMAL_def ZONE_UNMAPPED_def)
  from alloc_zones_returns [OF this] obtain z where z: "zone_search s n z = Some page"
    and init: "init_run page n flags s = Inr s'"
    by (auto simp: bindR_eq_Inr eq_commute [of "Inr _" "bindR _ _"])
  let ?st = "frame (zone_start_addr (zones s z))"
  from z have enough: "word_of_int n \<le> page_free_cnt (zones s z)"
    and "find_page (bits_map s) n ?st ?st (frame (zone_end_addr (zones s z))) = Some page"
    by (auto simp: zone_search_def frame_def Let_def not_less split: if_splits)
  from find_page_Some [OF this(2) disjI1 [OF refl] order_refl] obtain j k where k: "find_k (bits_map s) n j = Some k"
    and j: "?st \<le> j" "j \<le> frame (zone_end_addr (zones s z))" "j = ?st \<or> j mod 64 = 0"
    and page: "page = of_nat j + of_nat k - 1"
    by (elim exE conjE)
  have "page + 1 = of_nat (64 * (j div 64) + j mod 64 + k)"
    unfolding page mult_div_mod_eq by simp
  also have "\<dots> = of_nat (64 * (j div 64) + k) + of_nat (j mod 64)"
    unfolding of_nat_add by (simp only: add_ac)
  finally show ?thesis
    using enough j find_k_Some [OF k] window_free [OF n, of k] init
    by (intro exI [of _ z] exI [of _ j] exI [of _ k]) auto
qed

theorem alloc_pages_returned_page_witness:
  "\<exists>page s' z j k. alloc_pages ZONE_NORMAL 1 PG_Kernel three_pages = Some (Inr (s', Some page)) \<and>
    1 \<le> page_free_cnt (zones three_pages z) \<and>
    page + 1 = of_nat (64 * (j div 64) + k) + of_nat (j mod 64)"
proof -
  have "first_word_run three_pages 1 1"
    unfolding first_word_run_def three_pages_free three_pages_zone by auto
  from first_word_found [OF _ _ _ _ _ this]
  obtain P where P: "zone_search three_pages 1 0 = Some (of_nat P)" "P \<in> {1, 2, 3}"
    unfolding three_pages_free three_pages_zone by auto
  have "\<exists>s'. init_run (of_nat P) 1 PG_Kernel three_pages = Inr s'"
    using init_run_claims [OF three_pages_inv, of PG_Kernel 1 P, unfolded three_pages_free] P(2)
    by (auto simp: PG_Kernel_def)
  then obtain s' where
    ret: "alloc_pages ZONE_NORMAL 1 PG_Kernel three_pages = Some (Inr (s', Some (of_nat P)))"
    using alloc_normal_zone0 [OF _ _ P(1), of PG_Kernel] by (auto simp: three_pages_zone)
  have sel: "ZONE_NORMAL \<in> {ZONE_DMA, ZONE_NORMAL, ZONE_UNMAPPED}" by simp
  obtain z j k where "word_of_int 1 \<le> page_free_cnt (zones three_pages z)"
    "of_nat P + 1 = of_nat (64 * (j div 64) + k) + (of_nat (j mod 64) :: uint64)"
    using alloc_pages_returned_page [OF ret sel] by auto
  with ret show ?thesis
    by (intro exI [of _ "of_nat P"] exI [of _ s'] exI [of _ z] exI [of _ j] exI [of _ k]) simp
qed

text \<open>
  What the shift does: the next word of the bitmap. Zone 0 starts at page 1, the positions the
  search tries in the first word are taken, and frame 64 is free (and frame 128, which the test of
  position 0 reads as well). Then the search answers page 63, whatever the state of page 63 is.
\<close>

lemma find_k_first_full:
  assumes "\<And>x. 1 \<le> x \<Longrightarrow> x \<le> 62 \<Longrightarrow> bm_test bm x"
  shows "find_k bm 1 1 = None"
proof (rule ccontr)
  assume "find_k bm 1 1 \<noteq> None"
  then obtain k where "find_k bm 1 1 = Some k" by blast
  from find_k_Some [OF this] have k: "1 \<le> k" "k < 63" "window bm 0 k AND run_mask 1 = 0" by simp_all
  have "window bm 0 k AND run_mask 1 = 0 \<longleftrightarrow> \<not> bm_test bm k"
    using k(1,2) by (subst window_free) auto
  with k assms [of k] show False by linarith
qed

lemma find_k_second_word:
  assumes "\<not> bm_test bm 64" "\<not> bm_test bm 128"
  shows "find_k bm 1 64 = Some 0"
proof -
  have "window bm 1 0 AND run_mask 1 = 0"
    using assms window_free [of 1 0 bm 1] by simp
  moreover have "[0 ..< 64] = 0 # [Suc 0 ..< 64]" by (rule upt_conv_Cons) simp
  ultimately show ?thesis by (simp add: find_k_def)
qed

lemma zone0_answers_63:
  assumes "zone0_start s = 1" "64 \<le> zone0_end s" "page_free_cnt (zones s 0) \<noteq> 0"
    and "\<And>x. 1 \<le> x \<Longrightarrow> x \<le> 62 \<Longrightarrow> bm_test (bits_map s) x"
    and "\<not> bm_test (bits_map s) 64" "\<not> bm_test (bits_map s) 128"
  shows "zone_search s 1 0 = Some 63"
  using assms find_k_first_full [of "bits_map s"] find_k_second_word [of "bits_map s"]
  by (simp add: zone_search_zone0 not_less find_page_next find_page_first)

text \<open>
  Property C33: \<^verbatim>\<open>alloc_pages\<close> hands out the same page twice. In a zone that starts at page 1, once
  the positions the search tries in the first bitmap word are taken, two calls for one page both
  return page 63, with nothing released between them; the second call leaves the reference count
  and the counters as they were, so the two owners of the page are not accounted for.
\<close>

theorem alloc_pages_same_page_twice:
  assumes zone: "zone0_start s = 1" "64 \<le> zone0_end s" "2 \<le> page_free_cnt (zones s 0)"
    and globals: "g_zone_dma s = 0" "g_zone_normal s = 0"
    and full: "\<And>x. 1 \<le> x \<Longrightarrow> x \<le> 62 \<Longrightarrow> bm_test (bits_map s) x"
    and free: "\<not> bm_test (bits_map s) 64" "\<not> bm_test (bits_map s) 128"
    and page: "p_attribute (pages s 63) = 0" "p_zone (pages s 63) = Some 0"
      "phy_addr (pages s 63) = page_addr 63"
    and fl: "flags \<noteq> 0" "\<not> shared_flags flags"
  shows "\<exists>s1 s2. alloc_pages ZONE_NORMAL 1 flags s = Some (Inr (s1, Some 63)) \<and>
    alloc_pages ZONE_NORMAL 1 flags s1 = Some (Inr (s2, Some 63)) \<and>
    ref_cnt (pages s2 63) = ref_cnt (pages s1 63) \<and>
    page_using_cnt (zones s2 0) = page_using_cnt (zones s1 0)"
proof -
  let ?s1 = "page_step s 63 0 ((pages s 63)\<lparr>p_attribute := flags, ref_cnt := ref_cnt (pages s 63) + 1\<rparr>)
    (bm_set (bits_map s) (page_addr 63)) 1 1"
  let ?s2 = "page_step ?s1 63 0 ((pages ?s1 63)\<lparr>p_attribute := p_attribute (pages ?s1 63) OR flags\<rparr>)
    (bm_set (bits_map ?s1) (phy_addr (pages ?s1 63))) 0 0"
  have "frame (page_addr 63) = 63" by (simp add: frame_page_addr)
  then have bits: "bm_test (bm_set b (page_addr 63)) x \<longleftrightarrow> x = 63 \<or> bm_test b x" for b x
    by (simp add: bm.test_mark)
  have search: "zone_search s 1 0 = Some 63"
    by (rule zone0_answers_63) (use zone full free in \<open>auto simp: word_le_nat_alt\<close>)
  have "page_free_cnt (zones s 0) \<noteq> 1"
    using zone(3) by (auto simp: word_le_nat_alt)
  then have search1: "zone_search ?s1 1 0 = Some 63"
    using zone full free
    by (intro zone0_answers_63) (auto simp: bits zone0_start_def zone0_end_def page_step_def)
  have "page_init 63 flags s = Inr ?s1"
    using page_init_free [OF page(1,2), of flags] page(3) by simp
  then have first: "init_run 63 1 flags s = Inr ?s1" by (simp add: init_run_def)
  have "page_init 63 flags ?s1 = Inr ?s2"
    by (rule page_init_again) (use fl in auto)
  then have second: "init_run 63 1 flags ?s1 = Inr ?s2" by (simp add: init_run_def)
  have "g_zone_dma ?s1 = 0" "g_zone_normal ?s1 = 0"
    using globals by (simp_all add: page_step_def)
  then have "alloc_pages ZONE_NORMAL 1 flags ?s1 = Some (Inr (?s2, Some 63))"
    using alloc_normal_zone0 [OF _ _ search1, of flags] by (simp add: second)
  moreover have "alloc_pages ZONE_NORMAL 1 flags s = Some (Inr (?s1, Some 63))"
    using alloc_normal_zone0 [OF globals search, of flags] by (simp add: first)
  ultimately show ?thesis by (intro exI [of _ ?s1] exI [of _ ?s2]) simp
qed

text \<open>A zone of 200 pages from page 1, with the first word of the bitmap taken and the rest free.\<close>

definition full_first_word :: kmem where
  "full_first_word = memory_management_struct\<lparr>
     pages := (\<lambda>x. zero_Page\<lparr>p_zone := Some 0, phy_addr := page_addr x\<rparr>),
     zones := (\<lambda>_. zero_Zone\<lparr>zone_start_addr := page_addr 1, zone_end_addr := page_addr 201,
                             z_page_len := 200, page_using_cnt := 62, page_free_cnt := 138\<rparr>),
     bits_map := (\<lambda>w. if w = 0 then - 1 else 0)\<rparr>"

theorem alloc_pages_same_page_twice_witness:
  "\<exists>s1 s2. alloc_pages ZONE_NORMAL 1 PG_Kernel full_first_word = Some (Inr (s1, Some 63)) \<and>
     alloc_pages ZONE_NORMAL 1 PG_Kernel s1 = Some (Inr (s2, Some 63)) \<and>
     ref_cnt (pages s2 63) = ref_cnt (pages s1 63)"
proof -
  let ?s = full_first_word
  have "zone0_start ?s = 1" "64 \<le> zone0_end ?s" "2 \<le> page_free_cnt (zones ?s 0)"
    "g_zone_dma ?s = 0" "g_zone_normal ?s = 0"
    "\<And>x. 1 \<le> x \<Longrightarrow> x \<le> 62 \<Longrightarrow> bm_test (bits_map ?s) x"
    "\<not> bm_test (bits_map ?s) 64" "\<not> bm_test (bits_map ?s) 128"
    "p_attribute (pages ?s 63) = 0" "p_zone (pages ?s 63) = Some 0"
    "phy_addr (pages ?s 63) = page_addr 63"
    by (simp_all add: full_first_word_def memory_management_struct_def zone0_start_def zone0_end_def
        frame_page_addr bm_test_def zero_Page_def zero_Zone_def)
  moreover have "PG_Kernel \<noteq> 0" "\<not> shared_flags PG_Kernel"
    by (simp_all add: PG_Kernel_def shared_flags_def PG_Referenced_def PG_K_Share_To_U_def)
  ultimately show ?thesis
    using alloc_pages_same_page_twice [of ?s PG_Kernel] by blast
qed

text \<open>
  Property C34: \<^verbatim>\<open>alloc_pages\<close> returns for every request: always for the selectors that mean zone 0,
  and for \<^verbatim>\<open>ZONE_UNMAPPED\<close> as soon as one zone exists.
\<close>

theorem alloc_pages_terminates:
  assumes "g_zone_dma s = 0" "g_zone_normal s = 0" and "sel \<noteq> ZONE_UNMAPPED \<or> zones_size s \<noteq> 0"
  shows "alloc_pages sel n flags s \<noteq> None"
proof -
  have ret: "e \<noteq> - 1 \<Longrightarrow> alloc_zones t n flags i e \<noteq> None" for t i e
    using alloc_zones_outcome [of e t n flags i] by auto
  have "zones_size s - 1 = - 1 \<longleftrightarrow> zones_size s = 0"
    by (metis add.inverse_neutral diff_0 diff_add_cancel add.left_neutral left_minus)
  with ret assms show ?thesis
    by (auto simp: alloc_pages_def simp del: not_None_eq)
qed

theorem alloc_pages_terminates_witness:
  "alloc_pages ZONE_NORMAL 1 PG_Kernel full_first_word \<noteq> None"
  by (rule alloc_pages_terminates)
    (simp_all add: full_first_word_def memory_management_struct_def ZONE_NORMAL_def ZONE_UNMAPPED_def)



text \<open>
  A null result means there was nothing to find and nothing was changed: no zone in the
  range has both enough free pages and a position where the search's test succeeds, and the state is
  the one before the call.
\<close>

theorem alloc_pages_null_unchanged:
  assumes "alloc_pages ZONE_NORMAL n flags s = Some (Inr (s', None))" and "g_zone_normal s \<noteq> - 1"
  shows "s' = s \<and> (\<forall>z. unat (g_zone_dma s) \<le> z \<longrightarrow> z \<le> unat (g_zone_normal s) \<longrightarrow>
    page_free_cnt (zones s z) < word_of_int n \<or>
    frame (zone_end_addr (zones s z)) < frame (zone_start_addr (zones s z)) \<or>
    (let j = frame (zone_start_addr (zones s z)) in
     \<forall>k. j mod 64 \<le> k \<longrightarrow> k < 64 - j mod 64 \<longrightarrow>
       window (bits_map s) (j div 64) k AND run_mask n \<noteq> 0))"
proof -
  from assms(1) have ret: "alloc_zones s n flags (g_zone_dma s) (g_zone_normal s) = Some (Inr (s', None))"
    by (simp add: alloc_pages_def ZONE_NORMAL_def ZONE_DMA_def)
  with alloc_zones_outcome [OF assms(2), of s n flags "g_zone_dma s"]
  have "s' = s" and none: "\<And>z. unat (g_zone_dma s) \<le> z \<Longrightarrow> z \<le> unat (g_zone_normal s) \<Longrightarrow>
      zone_search s n z = None"
    by (auto simp: bindR_eq_Inr eq_commute [of "Inr _" "bindR _ _"])
  have "find_k (bits_map s) n (frame (zone_start_addr (zones s z))) = None"
    if "zone_search s n z = None" "\<not> page_free_cnt (zones s z) < word_of_int n"
      "frame (zone_start_addr (zones s z)) \<le> frame (zone_end_addr (zones s z))" for z
  proof (rule ccontr)
    assume "\<not> ?thesis"
    then obtain k where "find_k (bits_map s) n (frame (zone_start_addr (zones s z))) = Some k"
      by blast
    from find_page_first [OF this that(3)] that(1,2) show False
      by (simp add: zone_search_def Let_def frame_def)
  qed
  with none \<open>s' = s\<close> find_k_None [of _ _ "bits_map s" n] show ?thesis
    unfolding Let_def by (meson not_le_imp_less)
qed

theorem alloc_pages_null_unchanged_witness:
  "\<exists>s'. alloc_pages ZONE_NORMAL 64 PG_Kernel three_pages = Some (Inr (s', None)) \<and> s' = three_pages"
proof -
  have "zone_search three_pages 64 0 = None"
    by (simp add: zone_search_zone0 three_pages_zone)
  then have "\<exists>s'. alloc_pages ZONE_NORMAL 64 PG_Kernel three_pages = Some (Inr (s', None))"
    using alloc_zones_skip [of three_pages 64 0 0 PG_Kernel] alloc_zones_stop [of 1 0]
    by (simp add: alloc_pages_def ZONE_NORMAL_def ZONE_DMA_def three_pages_zone)
  then obtain s' where "alloc_pages ZONE_NORMAL 64 PG_Kernel three_pages = Some (Inr (s', None))" ..
  with alloc_pages_null_unchanged [OF this] show ?thesis by (simp add: three_pages_zone)
qed

end
