(* ===== verification/Mem_Init.thy ===== *)
theory Mem_Init
  imports Mem_Page
begin

text \<open>
  \<^verbatim>\<open>init_memory\<close> of \<^verbatim>\<open>src/memory.c\<close>: from the E820 table the boot loader leaves in memory to the
  bitmap, the page structures and the zones, and the reservation of the pages the kernel occupies.
  The debug output of the function is compiled out (\<^verbatim>\<open>PAGE_DEBUG\<close> is 0 in \<^verbatim>\<open>include/debug.h\<close>).
\<close>

section \<open>The operations\<close>

text \<open>
  The first loop copies the table at \<^verbatim>\<open>0xffff800000007e00\<close>, here the function \<open>tbl\<close>, and stops at
  the first entry after the current one that is not a valid range. The addresses and lengths are
  added to what the descriptor held.
\<close>

definition e820_last :: "E820 \<Rightarrow> bool" where
  "e820_last p \<longleftrightarrow> ACPI_NVS < E_type p \<or> 0 = E_len p \<or> E_type p < RAM"

definition e820_take :: "(nat \<Rightarrow> E820) \<Rightarrow> nat \<Rightarrow> kmem \<Rightarrow> kmem" where
  "e820_take tbl i s = s\<lparr>e820 := (e820 s)(i := \<lparr>E_addr = E_addr (e820 s i) + E_addr (tbl i),
                                               E_len = E_len (e820 s i) + E_len (tbl i),
                                               E_type = E_type (tbl i)\<rparr>),
                        e820_len := of_nat i + 1\<rparr>"

function e820_read :: "(nat \<Rightarrow> E820) \<Rightarrow> nat \<Rightarrow> kmem \<Rightarrow> kmem" where
  "e820_read tbl i s =
     (if i < 32 then
        (let s1 = e820_take tbl i s
         in if e820_last (tbl (i + 1)) then s1 else e820_read tbl (i + 1) s1)
      else s)"
  by pat_completeness auto
termination
  by (relation "measure (\<lambda>(tbl, i, s). 32 - i)") auto

declare e820_read.simps [simp del]

definition totel_mem :: "kmem \<Rightarrow> uint64" where
  "totel_mem s = E_addr (e820 s (unat (e820_len s - 1))) + E_len (e820 s (unat (e820_len s - 1)))"

text \<open>The three arrays behind the end of the kernel, each on a 4 KB boundary.\<close>

definition setup_bits_map :: "uint64 \<Rightarrow> kmem \<Rightarrow> kmem" where
  "setup_bits_map totel s =
     (let s1 = s\<lparr>bits_map_ptr := (end_brk s + PAGE_4K_SIZE - 1) AND PAGE_4K_MASK,
                bits_size := drop_bit PAGE_2M_SHIFT totel,
                bits_len := ((drop_bit PAGE_2M_SHIFT totel + 8 * 8 - 1) div 8) AND NOT (8 - 1)\<rparr>
      in s1\<lparr>bits_map := (\<lambda>w. if w < unat (bits_len s1) div 8 then - 1 else bits_map s1 w)\<rparr>)"

definition setup_pages :: "uint64 \<Rightarrow> kmem \<Rightarrow> kmem" where
  "setup_pages totel s =
     (let s1 = s\<lparr>pages_ptr := (bits_map_ptr s + bits_len s + PAGE_4K_SIZE - 1) AND PAGE_4K_MASK,
                pages_size := drop_bit PAGE_2M_SHIFT totel,
                pages_len := (drop_bit PAGE_2M_SHIFT totel * sizeof_Page + 8 - 1) AND NOT (8 - 1)\<rparr>
      in s1\<lparr>pages := (\<lambda>x. if x < unat (pages_len s1) div 40 then zero_Page else pages s1 x)\<rparr>)"

definition setup_zones :: "kmem \<Rightarrow> kmem" where
  "setup_zones s =
     s\<lparr>zones_ptr := (pages_ptr s + pages_len s + PAGE_4K_SIZE - 1) AND PAGE_4K_MASK,
       zones_size := 0\<rparr>"

text \<open>One page of a new zone: its structure is filled and its bit in the bitmap inverted.\<close>

definition init_zone_page :: "nat \<Rightarrow> uint64 \<Rightarrow> nat \<Rightarrow> nat \<Rightarrow> kmem \<Rightarrow> kmem" where
  "init_zone_page z start base j s =
     (let s1 = page_upd (base + j) (\<lambda>p. p\<lparr>p_zone := Some z, phy_addr := start + PAGE_2M_SIZE * of_nat j,
                 p_attribute := 0, ref_cnt := 0, age := 0\<rparr>) s
      in s1\<lparr>bits_map := bm_flip (bits_map s1) (phy_addr (pages s1 (base + j)))\<rparr>)"

definition entry_start :: "E820 \<Rightarrow> uint64" where
  "entry_start e = PAGE_2M_ALIGN (E_addr e)"

definition entry_end :: "E820 \<Rightarrow> uint64" where
  "entry_end e = push_bit PAGE_2M_SHIFT (drop_bit PAGE_2M_SHIFT (E_addr e + E_len e))"

text \<open>One E820 entry: a range of RAM with at least one whole 2 MB page becomes a zone.\<close>

definition add_zone :: "E820 \<Rightarrow> kmem \<Rightarrow> kmem" where
  "add_zone e s =
     (if RAM \<noteq> E_type e then s
      else let start = entry_start e; stop = entry_end e in
        if stop \<le> start then s
        else let z = unat (zones_size s);
                 s1 = s\<lparr>zones_size := zones_size s + 1,
                        zones_len := zones_len s + ((sizeof_Zone + 8 - 1) AND NOT (8 - 1))\<rparr>;
                 s2 = zone_upd z (\<lambda>_. zero_Zone) s1;
                 s3 = zone_upd z (\<lambda>z. z\<lparr>zone_start_addr := start, zone_end_addr := stop,
                        zone_len := stop - start\<rparr>) s2;
                 s4 = zone_upd z (\<lambda>z. z\<lparr>page_using_cnt := 0,
                        page_free_cnt := drop_bit PAGE_2M_SHIFT (zone_len z), total_page_lnk := 0\<rparr>) s3;
                 s5 = zone_upd z (\<lambda>z. z\<lparr>z_attribute := 0, z_GMD_struct := True,
                        z_page_len := drop_bit PAGE_2M_SHIFT (zone_len z),
                        z_page_group := unat (drop_bit PAGE_2M_SHIFT start)\<rparr>) s4
             in foldl (\<lambda>s j. init_zone_page z start (z_page_group (zones s5 z)) j s) s5
                  [0 ..< unat (z_page_len (zones s5 z))])"

definition build_zones :: "kmem \<Rightarrow> kmem" where
  "build_zones s = foldl (\<lambda>s i. add_zone (e820 s i) s) s [0 ..< unat (e820_len s)]"

text \<open>Page 0 belongs to the first zone, whether or not that zone contains it.\<close>

definition init_page_0 :: "kmem \<Rightarrow> kmem" where
  "init_page_0 s = page_upd 0 (\<lambda>p. p\<lparr>p_zone := Some 0, phy_addr := 0, p_attribute := 0,
     ref_cnt := 0, age := 0\<rparr>) s"

definition find_unmapped :: "kmem \<Rightarrow> kmem" where
  "find_unmapped s =
     foldl (\<lambda>s i. if zone_start_addr (zones s i) = 0x100000000
                  then s\<lparr>g_zone_unmapped := of_nat i\<rparr> else s) s [0 ..< unat (zones_size s)]"

definition set_end_of_struct :: "kmem \<Rightarrow> kmem" where
  "set_end_of_struct s =
     s\<lparr>end_of_struct := (zones_ptr s + zones_len s + 8 * 32) AND NOT (8 - 1)\<rparr>"

text \<open>The pages up to the end of these structures belong to the kernel.\<close>

definition kernel_page_flags :: uint64 where
  "kernel_page_flags = PG_PTable_Maped OR PG_Kernel_Init OR PG_Active OR PG_Kernel"

definition reserve_kernel :: "kmem \<Rightarrow> fault + kmem" where
  "reserve_kernel s =
     foldR (\<lambda>j. page_init j kernel_page_flags)
       [0 ..< unat (drop_bit PAGE_2M_SHIFT (Virt_To_Phy (end_of_struct s))) + 1] s"

text \<open>The identity mapping of low memory is dropped: the first ten entries of the page map.\<close>

definition clear_pml4 :: "uint64 \<Rightarrow> kmem \<Rightarrow> kmem" where
  "clear_pml4 cr3 s = s\<lparr>g_cr3 := cr3, pml4 := (\<lambda>i. if i < 10 then 0 else pml4 s i)\<rparr>"

definition prepare_memory :: "(nat \<Rightarrow> E820) \<Rightarrow> kmem \<Rightarrow> kmem" where
  "prepare_memory tbl s =
     (let s1 = e820_read tbl 0 s;
          totel = totel_mem s1;
          s2 = setup_bits_map totel s1;
          s3 = setup_pages totel s2;
          s4 = setup_zones s3
      in set_end_of_struct (find_unmapped (init_page_0 (build_zones s4))))"

definition init_memory :: "(nat \<Rightarrow> E820) \<Rightarrow> uint64 \<Rightarrow> kmem \<Rightarrow> fault + kmem" where
  "init_memory tbl cr3 s =
     bindR (reserve_kernel (prepare_memory tbl s)) (\<lambda>s'. Inr (clear_pml4 cr3 s'))"

section \<open>The copy of the E820 table\<close>

text \<open>The number of entries the first loop takes.\<close>

definition e820_rest :: "(nat \<Rightarrow> E820) \<Rightarrow> nat \<Rightarrow> nat" where
  "e820_rest tbl i = length (takeWhile (\<lambda>j. \<not> e820_last (tbl j)) [i + 1 ..< 32])"

definition e820_count :: "(nat \<Rightarrow> E820) \<Rightarrow> nat" where
  "e820_count tbl = 1 + e820_rest tbl 0"

lemma e820_rest_Suc:
  "i + 1 < 32 \<Longrightarrow> e820_rest tbl i = (if e820_last (tbl (i + 1)) then 0 else 1 + e820_rest tbl (i + 1))"
  by (simp add: e820_rest_def upt_conv_Cons)

lemma e820_take_fresh:
  assumes "e820 s i = zero_E820"
  shows "e820_take tbl i s = s\<lparr>e820 := (e820 s)(i := tbl i), e820_len := of_nat i + 1\<rparr>"
  using assms by (cases "tbl i") (simp add: e820_take_def zero_E820_def)

lemma e820_read_closed:
  assumes "i < 32" and "\<And>j. i \<le> j \<Longrightarrow> e820 s j = zero_E820"
  shows "e820_read tbl i s =
    s\<lparr>e820 := (\<lambda>j. if i \<le> j \<and> j \<le> i + e820_rest tbl i then tbl j else e820 s j),
      e820_len := of_nat (i + e820_rest tbl i) + 1\<rparr>"
  using assms
proof (induction tbl i s rule: e820_read.induct)
  case (1 tbl i s)
  have take: "e820_take tbl i s = s\<lparr>e820 := (e820 s)(i := tbl i), e820_len := of_nat i + 1\<rparr>"
    using "1.prems" by (intro e820_take_fresh) simp
  have one: "(\<lambda>j. if i \<le> j \<and> j \<le> i then tbl j else e820 s j) = (e820 s)(i := tbl i)"
    by auto
  show ?case
  proof (cases "e820_last (tbl (i + 1)) \<or> i = 31")
    case True
    then have "e820_rest tbl i = 0"
      using "1.prems"(1) e820_rest_Suc [of i tbl] by (cases "i = 31") (simp_all add: e820_rest_def)
    then show ?thesis
      using True "1.prems" one
      by (subst e820_read.simps) (auto simp: take Let_def e820_read.simps [of tbl 32])
  next
    case False
    with "1.prems"(1) have lt: "i + 1 < 32" by linarith
    have rest: "e820_rest tbl i = 1 + e820_rest tbl (i + 1)"
      using e820_rest_Suc [OF lt] False by simp
    have "e820_read tbl (i + 1) (e820_take tbl i s) = (e820_take tbl i s)
       \<lparr>e820 := (\<lambda>j. if i + 1 \<le> j \<and> j \<le> i + 1 + e820_rest tbl (i + 1) then tbl j
                   else e820 (e820_take tbl i s) j),
        e820_len := of_nat (i + 1 + e820_rest tbl (i + 1)) + 1\<rparr>"
      by (rule "1.IH") (use "1.prems" False lt in \<open>auto simp: take\<close>)
    moreover have "e820_read tbl i s = e820_read tbl (i + 1) (e820_take tbl i s)"
      using "1.prems"(1) False by (subst e820_read.simps) (simp add: Let_def)
    ultimately show ?thesis
      by (auto simp: take rest fun_eq_iff)
  qed
qed

lemma e820_count_le: "e820_count tbl \<le> 32"
  using length_takeWhile_le [of "\<lambda>j. \<not> e820_last (tbl j)" "[1 ..< 32]"]
  by (simp add: e820_count_def e820_rest_def)

lemma e820_read_fresh:
  assumes "\<And>j. e820 s j = zero_E820"
  shows "e820_read tbl 0 s =
    s\<lparr>e820 := (\<lambda>j. if j < e820_count tbl then tbl j else zero_E820),
      e820_len := of_nat (e820_count tbl)\<rparr>"
proof -
  have "e820 s = (\<lambda>_. zero_E820)" using assms by auto
  then show ?thesis
    using e820_read_closed [of 0 s tbl] by (simp add: e820_count_def less_Suc_eq_le add.commute cong: if_cong)
qed

text \<open>The entries as a list.\<close>

definition e820_entries :: "(nat \<Rightarrow> E820) \<Rightarrow> E820 list" where
  "e820_entries tbl = map tbl [0 ..< e820_count tbl]"

section \<open>Frames of an entry\<close>

definition usable :: "E820 \<Rightarrow> bool" where
  "usable e \<longleftrightarrow> E_type e = RAM \<and> entry_start e < entry_end e"

definition entry_frames :: "E820 \<Rightarrow> nat set" where
  "entry_frames e = {frame (entry_start e) ..< frame (entry_end e)}"

lemma entry_start_down:
  "entry_start e = push_bit 21 (drop_bit 21 (E_addr e + PAGE_2M_SIZE - 1))"
  by (simp only: entry_start_def PAGE_2M_ALIGN_def PAGE_2M_MASK_def PAGE_2M_SIZE_def
      PAGE_2M_SHIFT_def mask_down)

lemma unat_frame_mult:
  assumes "v = push_bit 21 (drop_bit 21 w)"
  shows "unat v = frame v * 2097152"
  unfolding assms frame_def PAGE_2M_SHIFT_def by (simp add: word_simps)

lemma page_addr_frame:
  assumes "v = push_bit 21 (drop_bit 21 w)"
  shows "page_addr (frame v) = v"
  unfolding word_unat_eq_iff unat_page_addr [OF frame_less] using unat_frame_mult [OF assms] by simp

lemma unat_entry_start: "unat (entry_start e) = frame (entry_start e) * 2097152"
  by (rule unat_frame_mult [OF entry_start_down])

lemma unat_entry_end: "unat (entry_end e) = frame (entry_end e) * 2097152"
  unfolding entry_end_def PAGE_2M_SHIFT_def by (rule unat_frame_mult) (rule refl)

lemma page_addr_entry_start: "page_addr (frame (entry_start e)) = entry_start e"
  by (rule page_addr_frame [OF entry_start_down])

lemma entry_page_len:
  "usable e \<Longrightarrow>
   unat (drop_bit PAGE_2M_SHIFT (entry_end e - entry_start e)) = card (entry_frames e)"
  by (simp add: usable_def entry_frames_def word_simps PAGE_2M_SHIFT_def unat_sub word_less_nat_alt
      word_le_nat_alt unat_entry_start unat_entry_end flip: diff_mult_distrib)

lemma entry_frames_less: "x \<in> entry_frames e \<Longrightarrow> x < 2 ^ 43"
  unfolding entry_frames_def using frame_less [of "entry_end e"] by simp

section \<open>The zones\<close>

definition new_page :: "nat \<Rightarrow> nat \<Rightarrow> Page" where
  "new_page z x = \<lparr>p_zone = Some z, phy_addr = page_addr x, p_attribute = 0, ref_cnt = 0, age = 0\<rparr>"

definition zone_of :: "E820 \<Rightarrow> Zone" where
  "zone_of e = \<lparr>z_page_group = frame (entry_start e),
     z_page_len = drop_bit PAGE_2M_SHIFT (entry_end e - entry_start e),
     zone_start_addr = entry_start e, zone_end_addr = entry_end e,
     zone_len = entry_end e - entry_start e, z_attribute = 0, z_GMD_struct = True,
     page_using_cnt = 0, page_free_cnt = drop_bit PAGE_2M_SHIFT (entry_end e - entry_start e),
     total_page_lnk = 0\<rparr>"

lemma new_page_simps [simp]:
  "p_zone (new_page z x) = Some z" "phy_addr (new_page z x) = page_addr x"
  "p_attribute (new_page z x) = 0" "ref_cnt (new_page z x) = 0"
  by (simp_all add: new_page_def)

lemma Page_all: "p\<lparr>p_zone := a, phy_addr := b, p_attribute := c, ref_cnt := d, age := e\<rparr> =
    \<lparr>p_zone = a, phy_addr = b, p_attribute = c, ref_cnt = d, age = e\<rparr>"
  by (cases p) simp

lemma page_addr_add: "page_addr b + PAGE_2M_SIZE * of_nat j = page_addr (b + j)"
  by (simp add: page_addr_def algebra_simps)

text \<open>The loop over the pages of a new zone.\<close>

lemma init_pages_loop:
  assumes "start = page_addr b"
  shows "foldl (\<lambda>s j. init_zone_page z start b j s) s [0 ..< n] =
    s\<lparr>pages := (\<lambda>x. if b \<le> x \<and> x < b + n then new_page z x else pages s x),
      bits_map := foldl bm_flip (bits_map s) (map page_addr [b ..< b + n])\<rparr>"
proof (induction n)
  case 0
  have "(\<lambda>x. if b \<le> x \<and> x < b then new_page z x else pages s x) = pages s"
    by (auto simp: fun_eq_iff)
  then show ?case by simp
next
  case (Suc n)
  have "(\<lambda>x. if b \<le> x \<and> x < b + n then new_page z x else pages s x)(b + n := new_page z (b + n)) =
      (\<lambda>x. if b \<le> x \<and> x < b + Suc n then new_page z x else pages s x)"
    by (auto simp: fun_eq_iff)
  with Suc show ?case
    by (simp add: init_zone_page_def page_upd_def Page_all assms page_addr_add Let_def
        flip: new_page_def)
qed

lemma add_zone_skip: "\<not> usable e \<Longrightarrow> add_zone e s = s"
  by (auto simp: add_zone_def usable_def Let_def)

lemma add_zone_usable:
  assumes "usable e"
  shows "add_zone e s =
    s\<lparr>zones_size := zones_size s + 1, zones_len := zones_len s + 80,
      zones := (zones s)(unat (zones_size s) := zone_of e),
      pages := (\<lambda>x. if x \<in> entry_frames e then new_page (unat (zones_size s)) x else pages s x),
      bits_map := foldl bm_flip (bits_map s) (map page_addr (sorted_list_of_set (entry_frames e)))\<rparr>"
proof -
  let ?b = "frame (entry_start e)" and ?n = "card (entry_frames e)"
  have b: "?b + ?n = frame (entry_end e)"
    using assms by (simp add: entry_frames_def usable_def word_less_nat_alt unat_entry_start
        unat_entry_end)
  have list: "sorted_list_of_set (entry_frames e) = [?b ..< ?b + ?n]"
    unfolding b by (simp add: entry_frames_def)
  have set: "x \<in> entry_frames e \<longleftrightarrow> ?b \<le> x \<and> x < ?b + ?n" for x
    unfolding b by (simp add: entry_frames_def)
  have "unat (drop_bit PAGE_2M_SHIFT (entry_start e)) = ?b"
    by (simp add: frame_def)
  moreover have "E_type e = RAM" "\<not> entry_end e \<le> entry_start e"
    using assms by (simp_all add: usable_def not_le)
  ultimately show ?thesis
    unfolding list set
    by (simp add: add_zone_def Let_def zone_upd_def zero_Zone_def sizeof_Zone_def zone_of_def
        init_pages_loop [OF page_addr_entry_start [symmetric]] entry_page_len [OF assms] cong: if_cong)
qed

text \<open>
  The state after a list of entries whose frames do not overlap. \<open>us\<close> are the usable entries, in
  order: zone \<open>i\<close> describes entry \<open>i\<close>, the pages of its frames are set up, and exactly the bits of
  these frames have been inverted.
\<close>

definition frames_of :: "E820 list \<Rightarrow> nat set" where
  "frames_of us = (\<Union>e \<in> set us. entry_frames e)"

definition disjoint_frames :: "E820 list \<Rightarrow> bool" where
  "disjoint_frames us \<longleftrightarrow> sorted_wrt (\<lambda>d e. entry_frames d \<inter> entry_frames e = {}) us"

definition zones_built :: "E820 list \<Rightarrow> kmem \<Rightarrow> kmem \<Rightarrow> bool" where
  "zones_built us s0 s \<longleftrightarrow>
     zones_size s = of_nat (length us) \<and>
     zones_len s = zones_len s0 + of_nat (80 * length us) \<and>
     (\<forall>i < length us. zones s i = zone_of (us ! i)) \<and>
     (\<forall>i < length us. \<forall>x \<in> entry_frames (us ! i). pages s x = new_page i x) \<and>
     (\<forall>x. x \<notin> frames_of us \<longrightarrow> pages s x = pages s0 x) \<and>
     (\<forall>x. bm_test (bits_map s) x =
        (if x \<in> frames_of us then \<not> bm_test (bits_map s0) x else bm_test (bits_map s0) x))"

definition same_layout :: "kmem \<Rightarrow> kmem \<Rightarrow> bool" where
  "same_layout s t \<longleftrightarrow>
     e820 t = e820 s \<and> e820_len t = e820_len s \<and>
     bits_map_ptr t = bits_map_ptr s \<and> bits_size t = bits_size s \<and> bits_len t = bits_len s \<and>
     pages_ptr t = pages_ptr s \<and> pages_size t = pages_size s \<and> pages_len t = pages_len s \<and>
     zones_ptr t = zones_ptr s \<and> end_brk t = end_brk s \<and> pml4 t = pml4 s \<and>
     g_zone_dma t = g_zone_dma s \<and> g_zone_normal t = g_zone_normal s \<and>
     start_code t = start_code s \<and> end_code t = end_code s \<and> end_data t = end_data s"

lemma frames_of_append: "frames_of (us @ [e]) = frames_of us \<union> entry_frames e"
  by (auto simp: frames_of_def)

lemma frames_of_nth: "i < length us \<Longrightarrow> entry_frames (us ! i) \<subseteq> frames_of us"
  unfolding frames_of_def by (rule UN_upper) (rule nth_mem)

lemma finite_entry_frames [simp]: "finite (entry_frames e)"
  by (simp add: entry_frames_def)

lemma toggle_frames:
  assumes "finite F" and "\<And>x. x \<in> F \<Longrightarrow> x < 2 ^ 43"
  shows "bm_test (foldl bm_flip b (map page_addr (sorted_list_of_set F))) x =
    (if x \<in> F then \<not> bm_test b x else bm_test b x)"
proof -
  have "map frame (map page_addr (sorted_list_of_set F)) = sorted_list_of_set F"
    unfolding map_map by (rule map_idI) (use assms in \<open>auto simp: frame_page_addr\<close>)
  moreover from this have "frame ` set (map page_addr (sorted_list_of_set F)) = F"
    using assms(1) by (metis list.set_map set_sorted_list_of_set)
  ultimately show ?thesis
    using bm.toggle_all [of "map page_addr (sorted_list_of_set F)" b x] by simp
qed

lemma add_zone_built:
  assumes built: "zones_built us s0 s" and e: "usable e" and len: "length us < 32"
    and disj: "disjoint_frames (us @ [e])"
  shows "zones_built (us @ [e]) s0 (add_zone e s)"
proof -
  have new: "unat (zones_size s) = length us"
    using built len by (simp add: zones_built_def unat_of_nat take_bit_nat_eq_self)
  have "entry_frames e \<inter> frames_of us = {}"
    using disj by (auto simp: disjoint_frames_def sorted_wrt_append frames_of_def)
  then have apart: "x \<in> entry_frames e \<Longrightarrow> x \<notin> frames_of us" for x by blast
  have bits: "bm_test (bits_map (add_zone e s)) x = (if x \<in> frames_of (us @ [e])
      then \<not> bm_test (bits_map s0) x else bm_test (bits_map s0) x)" for x
    using built apart [of x]
      toggle_frames [of "entry_frames e" "bits_map s" x, OF finite_entry_frames entry_frames_less]
    by (auto simp: add_zone_usable [OF e] zones_built_def frames_of_append)
  have size: "unat (of_nat (length us) :: uint64) = length us"
    using len by (simp add: unat_of_nat take_bit_nat_eq_self)
  show ?thesis
    using built apart bits frames_of_nth [of _ us]
    by (auto simp: add_zone_usable [OF e] size zones_built_def frames_of_append nth_append
        less_Suc_eq algebra_simps)
qed

lemma add_zone_layout: "same_layout s t \<Longrightarrow> same_layout s (add_zone e t)"
  by (cases "usable e") (simp_all add: add_zone_skip add_zone_usable same_layout_def)

lemma build_entries:
  assumes "length es \<le> 32" and "disjoint_frames (filter usable es)" and "zones_size s0 = 0"
  shows "zones_built (filter usable es) s0 (foldl (\<lambda>s e. add_zone e s) s0 es) \<and>
    same_layout s0 (foldl (\<lambda>s e. add_zone e s) s0 es)"
  using assms(1,2)
proof (induction es rule: rev_induct)
  case Nil
  with assms(3) show ?case by (simp add: zones_built_def same_layout_def frames_of_def)
next
  case (snoc e es)
  then have "disjoint_frames (filter usable es)"
    by (auto simp: disjoint_frames_def sorted_wrt_append split: if_splits)
  with snoc have IH: "zones_built (filter usable es) s0 (foldl (\<lambda>s e. add_zone e s) s0 es)"
    "same_layout s0 (foldl (\<lambda>s e. add_zone e s) s0 es)" by auto
  have "length (filter usable es) < 32"
    using snoc.prems(1) by (intro le_less_trans [OF length_filter_le]) simp
  with IH snoc.prems(2) show ?case
    by (cases "usable e") (auto simp: add_zone_skip intro: add_zone_built add_zone_layout)
qed

lemma add_zone_e820 [simp]: "e820 (add_zone e s) = e820 s"
  by (cases "usable e") (simp_all add: add_zone_skip add_zone_usable)

lemma foldl_add_zone_e820: "e820 (foldl (\<lambda>s i. add_zone (e820 s i) s) s is) = e820 s"
  by (induction "is" arbitrary: s) simp_all

lemma build_zones_entries:
  "build_zones s = foldl (\<lambda>s e. add_zone e s) s (map (e820 s) [0 ..< unat (e820_len s)])"
proof -
  have "foldl (\<lambda>s i. add_zone (e820 s i) s) t is = foldl (\<lambda>s e. add_zone e s) t (map (e820 t) is)"
    for t :: kmem and "is" :: "nat list"
    by (induction "is" arbitrary: t) simp_all
  then show ?thesis by (simp add: build_zones_def)
qed

section \<open>The state before the kernel's pages are reserved\<close>

lemma find_unmapped_only: "\<exists>u. find_unmapped s = s\<lparr>g_zone_unmapped := u\<rparr>"
proof -
  have "\<exists>u. foldl (\<lambda>s i. if zone_start_addr (zones s i) = 0x100000000
      then s\<lparr>g_zone_unmapped := of_nat i\<rparr> else s) t is = t\<lparr>g_zone_unmapped := u\<rparr>"
    for t :: kmem and "is" :: "nat list"
  proof (induction "is" arbitrary: t)
    case Nil
    show ?case by (rule exI [of _ "g_zone_unmapped t"]) simp
  next
    case (Cons i "is")
    let ?t = "if zone_start_addr (zones t i) = 0x100000000 then t\<lparr>g_zone_unmapped := of_nat i\<rparr> else t"
    obtain u where "foldl (\<lambda>s i. if zone_start_addr (zones s i) = 0x100000000
        then s\<lparr>g_zone_unmapped := of_nat i\<rparr> else s) ?t is = ?t\<lparr>g_zone_unmapped := u\<rparr>"
      using Cons [of ?t] by blast
    then show ?case
      by (intro exI [of _ u]) (simp split: if_splits)
  qed
  then show ?thesis by (simp add: find_unmapped_def)
qed

text \<open>The table and the end of the memory it describes.\<close>

definition fresh :: "kmem \<Rightarrow> bool" where
  "fresh s \<longleftrightarrow> e820 s = (\<lambda>_. zero_E820) \<and> zones_len s = 0"

definition ram :: "(nat \<Rightarrow> E820) \<Rightarrow> E820 list" where
  "ram tbl = filter usable (e820_entries tbl)"

definition memory_end :: "(nat \<Rightarrow> E820) \<Rightarrow> uint64" where
  "memory_end tbl = E_addr (tbl (e820_count tbl - 1)) + E_len (tbl (e820_count tbl - 1))"

definition kernel_frames :: "(nat \<Rightarrow> E820) \<Rightarrow> kmem \<Rightarrow> nat" where
  "kernel_frames tbl s = frame (Virt_To_Phy (end_of_struct (prepare_memory tbl s))) + 1"

text \<open>
  What the code needs of the table: at least one range of RAM with a whole page, ranges that do not
  share a page, and none above the last entry, whose end the code takes for the end of memory.
\<close>

definition good_table :: "(nat \<Rightarrow> E820) \<Rightarrow> bool" where
  "good_table tbl \<longleftrightarrow> ram tbl \<noteq> [] \<and> disjoint_frames (ram tbl) \<and>
     (\<forall>e \<in> set (ram tbl). entry_end e \<le> memory_end tbl)"

lemma unat_e820_count: "unat (of_nat (e820_count tbl) :: uint64) = e820_count tbl"
  using e820_count_le [of tbl] by (simp add: unat_of_nat take_bit_nat_eq_self)

lemma totel_mem_fresh:
  assumes "fresh s"
  shows "totel_mem (e820_read tbl 0 s) = memory_end tbl"
proof -
  have "(of_nat (e820_count tbl) - 1 :: uint64) = of_nat (e820_count tbl - 1)"
    by (simp add: e820_count_def)
  moreover have "unat (of_nat (e820_count tbl - 1) :: uint64) = e820_count tbl - 1"
    using e820_count_le [of tbl] by (simp add: unat_of_nat take_bit_nat_eq_self)
  moreover have "e820_count tbl - 1 < e820_count tbl" by (simp add: e820_count_def)
  ultimately show ?thesis
    using assms by (simp add: e820_read_fresh fresh_def totel_mem_def memory_end_def)
qed

definition arrays :: "(nat \<Rightarrow> E820) \<Rightarrow> kmem \<Rightarrow> kmem" where
  "arrays tbl s = setup_zones (setup_pages (memory_end tbl) (setup_bits_map (memory_end tbl)
     (e820_read tbl 0 s)))"

lemma prepare_memory_arrays:
  "fresh s \<Longrightarrow> prepare_memory tbl s =
     set_end_of_struct (find_unmapped (init_page_0 (build_zones (arrays tbl s))))"
  by (simp add: prepare_memory_def arrays_def totel_mem_fresh Let_def)

lemma arrays_e820:
  assumes "fresh s"
  shows "map (e820 (arrays tbl s)) [0 ..< unat (e820_len (arrays tbl s))] = e820_entries tbl"
  using assms by (simp add: arrays_def setup_zones_def setup_pages_def setup_bits_map_def
      e820_read_fresh fresh_def unat_e820_count e820_entries_def Let_def)

lemma arrays_built:
  assumes "fresh s" and "good_table tbl"
  shows "zones_built (ram tbl) (arrays tbl s) (build_zones (arrays tbl s)) \<and>
    same_layout (arrays tbl s) (build_zones (arrays tbl s))"
  unfolding build_zones_entries arrays_e820 [OF assms(1)] ram_def
  by (rule build_entries)
    (use assms(2) e820_count_le [of tbl] in
      \<open>simp_all add: good_table_def ram_def e820_entries_def arrays_def setup_zones_def\<close>)

lemma mask_8: "x AND NOT (8 - 1) = push_bit 3 (drop_bit 3 (x :: uint64))"
  using mask_down [of x 3] by simp

lemma unat_bits_len:
  "unat (bits_len (arrays tbl s)) = (frame (memory_end tbl) + 63) div 64 * 8"
proof -
  let ?n = "drop_bit PAGE_2M_SHIFT (memory_end tbl)"
  have n: "unat ?n = frame (memory_end tbl)" "unat ?n < 2 ^ 43"
    using frame_less [of "memory_end tbl"] by (simp_all add: frame_def)
  have "unat (?n + 8 * 8 - 1) = unat ?n + 63"
    using n(2) unat_add_nat [of ?n 63] by (simp add: add.commute)
  then have "unat ((?n + 8 * 8 - 1) div 8) = (frame (memory_end tbl) + 63) div 8"
    by (simp add: unat_div n(1))
  then have "unat (((?n + 8 * 8 - 1) div 8) AND NOT (8 - 1)) = (frame (memory_end tbl) + 63) div 64 * 8"
    by (simp only: mask_8 unat_round_down) (simp add: div_mult2_eq)
  then show ?thesis
    by (simp add: arrays_def setup_zones_def setup_pages_def setup_bits_map_def Let_def)
qed

lemma arrays_bits:
  assumes "x < frame (memory_end tbl)"
  shows "bm_test (bits_map (arrays tbl s)) x"
proof -
  have "x div 64 < unat (bits_len (arrays tbl s)) div 8"
    using assms by (simp add: unat_bits_len)
  then show ?thesis
    by (simp add: bm_test_def arrays_def setup_zones_def setup_pages_def setup_bits_map_def Let_def)
qed

lemma ram_length: "length (ram tbl) \<le> 32" "unat (of_nat (length (ram tbl)) :: uint64) = length (ram tbl)"
proof -
  show le: "length (ram tbl) \<le> 32"
    unfolding ram_def
    by (rule order_trans [OF length_filter_le]) (simp add: e820_entries_def e820_count_le)
  then show "unat (of_nat (length (ram tbl)) :: uint64) = length (ram tbl)"
    by (simp add: unat_of_nat take_bit_nat_eq_self)
qed

lemma prepared_fields:
  assumes "fresh s"
  shows "\<exists>u. prepare_memory tbl s = (let b = build_zones (arrays tbl s) in
    b\<lparr>pages := (pages b)(0 := new_page 0 0), g_zone_unmapped := u,
      end_of_struct := (zones_ptr b + zones_len b + 8 * 32) AND NOT (8 - 1)\<rparr>)"
  using find_unmapped_only [of "init_page_0 (build_zones (arrays tbl s))"]
  by (auto simp: prepare_memory_arrays [OF assms] set_end_of_struct_def init_page_0_def page_upd_def
      Page_all new_page_def page_addr_def Let_def)

text \<open>The pages with a structure: page 0 and the pages of the zones.\<close>

definition pages_known :: "(nat \<Rightarrow> E820) \<Rightarrow> nat set" where
  "pages_known tbl = insert 0 (frames_of (ram tbl))"

lemma finite_pages_known: "finite (pages_known tbl)"
  by (simp add: pages_known_def frames_of_def)

lemma ram_frame_less:
  assumes "good_table tbl" and "x \<in> frames_of (ram tbl)"
  shows "x < frame (memory_end tbl)"
proof -
  from assms(2) obtain e where e: "e \<in> set (ram tbl)" "x < frame (entry_end e)"
    by (auto simp: frames_of_def entry_frames_def)
  with assms(1) have "entry_end e \<le> memory_end tbl" by (simp add: good_table_def)
  then have "frame (entry_end e) \<le> frame (memory_end tbl)"
    by (simp add: frame_def word_simps PAGE_2M_SHIFT_def word_le_nat_alt div_le_mono)
  with e(2) show ?thesis by simp
qed

lemma prepared_page:
  assumes "fresh s" "good_table tbl" "x \<in> pages_known tbl"
  shows "\<exists>z < length (ram tbl). pages (prepare_memory tbl s) x = new_page z x \<and>
    (x \<noteq> 0 \<longrightarrow> x \<in> entry_frames (ram tbl ! z)) \<and> (x = 0 \<longrightarrow> z = 0)"
proof -
  obtain u where P: "prepare_memory tbl s = (let b = build_zones (arrays tbl s) in
    b\<lparr>pages := (pages b)(0 := new_page 0 0), g_zone_unmapped := u,
      end_of_struct := (zones_ptr b + zones_len b + 8 * 32) AND NOT (8 - 1)\<rparr>)"
    using prepared_fields [OF assms(1)] by blast
  show ?thesis
  proof (cases "x = 0")
    case True
    with assms(2) P show ?thesis by (auto simp: good_table_def Let_def)
  next
    case False
    with assms(3) obtain z where "z < length (ram tbl)" "x \<in> entry_frames (ram tbl ! z)"
      by (auto simp: pages_known_def frames_of_def in_set_conv_nth)
    with False arrays_built [OF assms(1,2)] P show ?thesis
      by (intro exI [of _ z]) (simp add: zones_built_def Let_def)
  qed
qed

lemma prepared_zones:
  assumes "fresh s" "good_table tbl"
  shows "zones_size (prepare_memory tbl s) = of_nat (length (ram tbl))"
    and "z < length (ram tbl) \<Longrightarrow> zones (prepare_memory tbl s) z = zone_of (ram tbl ! z)"
    and "x < frame (memory_end tbl) \<Longrightarrow>
      bm_test (bits_map (prepare_memory tbl s)) x \<longleftrightarrow> x \<notin> frames_of (ram tbl)"
proof -
  obtain u where P: "prepare_memory tbl s = (let b = build_zones (arrays tbl s) in
    b\<lparr>pages := (pages b)(0 := new_page 0 0), g_zone_unmapped := u,
      end_of_struct := (zones_ptr b + zones_len b + 8 * 32) AND NOT (8 - 1)\<rparr>)"
    using prepared_fields [OF assms(1)] by blast
  note built = arrays_built [OF assms]
  show "zones_size (prepare_memory tbl s) = of_nat (length (ram tbl))"
    using built by (simp add: P zones_built_def Let_def)
  show "z < length (ram tbl) \<Longrightarrow> zones (prepare_memory tbl s) z = zone_of (ram tbl ! z)"
    using built by (simp add: P zones_built_def Let_def)
  show "x < frame (memory_end tbl) \<Longrightarrow>
      bm_test (bits_map (prepare_memory tbl s)) x \<longleftrightarrow> x \<notin> frames_of (ram tbl)"
    using built arrays_bits [of x tbl s] by (simp add: P zones_built_def Let_def)
qed

lemma prepared_inv:
  assumes "fresh s" "good_table tbl"
  shows "mem_inv (prepare_memory tbl s) (pages_known tbl)"
proof -
  let ?p = "prepare_memory tbl s"
  have new: "\<exists>z < length (ram tbl). pages ?p x = new_page z x" if "x \<in> pages_known tbl" for x
    using prepared_page [OF assms that] by auto
  have small: "x < 2 ^ 43" if "x \<in> pages_known tbl" for x
    using that by (auto simp: pages_known_def frames_of_def dest: entry_frames_less)
  have "managed ?p (pages_known tbl)"
    using new small
    by (fastforce simp: managed_def finite_pages_known prepared_zones [OF assms] ram_length)
  moreover have "page_ok (bits_map ?p) x (pages ?p x)" if "x \<in> pages_known tbl" for x
    using new [OF that] by (auto simp: page_ok_def)
  moreover have "zone_sum ?p (pages_known tbl) z f = 0"
    if "\<And>z x. f (new_page z x) = 0" for z f
    unfolding zone_sum_def by (rule sum.neutral) (use new that in force)
  ultimately show ?thesis
    by (simp add: mem_inv_def prepared_zones [OF assms] ram_length in_use_def zone_of_def)
qed

lemma prepared_end:
  assumes "fresh s" "good_table tbl"
  shows "end_of_struct (prepare_memory tbl s) =
      (zones_ptr (arrays tbl s) + of_nat (80 * length (ram tbl)) + 8 * 32) AND NOT (8 - 1)"
    and "zones_ptr (prepare_memory tbl s) = zones_ptr (arrays tbl s)"
    and "pages_ptr (prepare_memory tbl s) = pages_ptr (arrays tbl s)"
    and "bits_map_ptr (prepare_memory tbl s) = bits_map_ptr (arrays tbl s)"
    and "bits_size (prepare_memory tbl s) = bits_size (arrays tbl s)"
    and "bits_len (prepare_memory tbl s) = bits_len (arrays tbl s)"
    and "pages_len (prepare_memory tbl s) = pages_len (arrays tbl s)"
    and "zones_len (prepare_memory tbl s) = of_nat (80 * length (ram tbl))"
    and "pml4 (prepare_memory tbl s) = pml4 (arrays tbl s)"
proof -
  have "zones_len (arrays tbl s) = 0"
    using assms(1) by (simp add: arrays_def setup_zones_def setup_pages_def setup_bits_map_def
        e820_read_fresh fresh_def Let_def)
  with arrays_built [OF assms] have B: "zones_len (build_zones (arrays tbl s)) = of_nat (80 * length (ram tbl))"
    "same_layout (arrays tbl s) (build_zones (arrays tbl s))"
    by (simp_all add: zones_built_def)
  obtain u where P: "prepare_memory tbl s = (let b = build_zones (arrays tbl s) in
    b\<lparr>pages := (pages b)(0 := new_page 0 0), g_zone_unmapped := u,
      end_of_struct := (zones_ptr b + zones_len b + 8 * 32) AND NOT (8 - 1)\<rparr>)"
    using prepared_fields [OF assms(1)] by blast
  note fields = P Let_def B(1) B(2) [unfolded same_layout_def]
  show "end_of_struct (prepare_memory tbl s) =
      (zones_ptr (arrays tbl s) + of_nat (80 * length (ram tbl)) + 8 * 32) AND NOT (8 - 1)"
    and "zones_ptr (prepare_memory tbl s) = zones_ptr (arrays tbl s)"
    and "pages_ptr (prepare_memory tbl s) = pages_ptr (arrays tbl s)"
    and "bits_map_ptr (prepare_memory tbl s) = bits_map_ptr (arrays tbl s)"
    and "bits_size (prepare_memory tbl s) = bits_size (arrays tbl s)"
    and "bits_len (prepare_memory tbl s) = bits_len (arrays tbl s)"
    and "pages_len (prepare_memory tbl s) = pages_len (arrays tbl s)"
    and "zones_len (prepare_memory tbl s) = of_nat (80 * length (ram tbl))"
    and "pml4 (prepare_memory tbl s) = pml4 (arrays tbl s)"
    by (simp_all add: fields)
qed

lemma prepared_kept:
  assumes "fresh s" "good_table tbl"
  shows "g_zone_dma (prepare_memory tbl s) = g_zone_dma s" and "g_zone_normal (prepare_memory tbl s) = g_zone_normal s"
    and "start_code (prepare_memory tbl s) = start_code s" and "end_code (prepare_memory tbl s) = end_code s"
    and "end_data (prepare_memory tbl s) = end_data s" and "end_brk (prepare_memory tbl s) = end_brk s"
    and "pml4 (prepare_memory tbl s) = pml4 s"
proof -
  obtain u where P: "prepare_memory tbl s = (let b = build_zones (arrays tbl s) in
    b\<lparr>pages := (pages b)(0 := new_page 0 0), g_zone_unmapped := u,
      end_of_struct := (zones_ptr b + zones_len b + 8 * 32) AND NOT (8 - 1)\<rparr>)"
    using prepared_fields [OF assms(1)] by blast
  have B: "same_layout (arrays tbl s) (build_zones (arrays tbl s))" using arrays_built [OF assms] by blast
  have A: "g_zone_dma (arrays tbl s) = g_zone_dma s" "g_zone_normal (arrays tbl s) = g_zone_normal s"
    "start_code (arrays tbl s) = start_code s" "end_code (arrays tbl s) = end_code s"
    "end_data (arrays tbl s) = end_data s" "end_brk (arrays tbl s) = end_brk s" "pml4 (arrays tbl s) = pml4 s"
    using assms(1) by (simp_all add: arrays_def setup_zones_def setup_pages_def setup_bits_map_def
        e820_read_fresh fresh_def Let_def)
  show "g_zone_dma (prepare_memory tbl s) = g_zone_dma s" and "g_zone_normal (prepare_memory tbl s) = g_zone_normal s"
    and "start_code (prepare_memory tbl s) = start_code s" and "end_code (prepare_memory tbl s) = end_code s"
    and "end_data (prepare_memory tbl s) = end_data s" and "end_brk (prepare_memory tbl s) = end_brk s"
    and "pml4 (prepare_memory tbl s) = pml4 s"
    by (simp_all add: P Let_def A B [unfolded same_layout_def])
qed

section \<open>Reserving the pages of the kernel\<close>

lemma kernel_page_flags_num: "kernel_page_flags = 0x93"
  by (simp add: kernel_page_flags_def PG_PTable_Maped_def PG_Kernel_Init_def PG_Active_def PG_Kernel_def)

lemma reserve_loop:
  assumes "mem_inv s M" and "{0 ..< n} \<subseteq> M" and "\<forall>x < n. p_attribute (pages s x) = 0"
  shows "\<exists>t. foldR (\<lambda>j. page_init j kernel_page_flags) [0 ..< n] s = Inr t \<and> mem_inv t M \<and>
    only_accounts s t \<and>
    (\<forall>x. pages t x = (if x < n then (pages s x)\<lparr>p_attribute := 0x93, ref_cnt := 1\<rparr> else pages s x)) \<and>
    (\<forall>x. bm_test (bits_map t) x \<longleftrightarrow> x < n \<or> bm_test (bits_map s) x)"
proof -
  have "0 + l \<in> M \<and> p_attribute (pages s (0 + l)) = 0" if "l < n" for l
    using that assms(2,3) by auto
  moreover have "(147 :: uint64) \<noteq> 0" by simp
  ultimately show ?thesis
    using claim_loop [OF assms(1), of 147 n 0] by (simp add: kernel_page_flags_num)
qed

text \<open>
  The state \<^verbatim>\<open>init_memory\<close> returns, for a fresh descriptor, a good table, and a kernel whose pages
  after page 0 lie in zones.
\<close>

definition kernel_fits :: "(nat \<Rightarrow> E820) \<Rightarrow> kmem \<Rightarrow> bool" where
  "kernel_fits tbl s \<longleftrightarrow> {0 ..< kernel_frames tbl s} \<subseteq> pages_known tbl"

lemma init_memory_state:
  assumes "fresh s" and "good_table tbl" and "kernel_fits tbl s"
  shows "\<exists>t. init_memory tbl cr3 s = Inr (clear_pml4 cr3 t) \<and> mem_inv t (pages_known tbl) \<and>
    only_accounts (prepare_memory tbl s) t \<and>
    (\<forall>x. pages t x = (if x < kernel_frames tbl s
        then (pages (prepare_memory tbl s) x)\<lparr>p_attribute := 0x93, ref_cnt := 1\<rparr>
        else pages (prepare_memory tbl s) x)) \<and>
    (\<forall>x. bm_test (bits_map t) x \<longleftrightarrow>
        x < kernel_frames tbl s \<or> bm_test (bits_map (prepare_memory tbl s)) x)"
proof -
  let ?p = "prepare_memory tbl s"
  have sub: "{0 ..< kernel_frames tbl s} \<subseteq> pages_known tbl"
    using assms(3) by (simp add: kernel_fits_def)
  then have zero: "\<forall>x < kernel_frames tbl s. p_attribute (pages ?p x) = 0"
    using prepared_page [OF assms(1,2)] by fastforce
  have run: "init_memory tbl cr3 s =
      bindR (foldR (\<lambda>j. page_init j kernel_page_flags) [0 ..< kernel_frames tbl s] ?p)
        (\<lambda>s'. Inr (clear_pml4 cr3 s'))"
    by (simp add: init_memory_def reserve_kernel_def kernel_frames_def frame_def)
  from reserve_loop [OF prepared_inv [OF assms(1,2)] sub zero] show ?thesis
  proof (elim exE conjE, intro exI conjI)
    fix t
    assume "foldR (\<lambda>j. page_init j kernel_page_flags) [0 ..< kernel_frames tbl s] ?p = Inr t"
    then show "init_memory tbl cr3 s = Inr (clear_pml4 cr3 t)" by (simp add: run)
  qed assumption+
qed

lemma mem_inv_clear_pml4: "mem_inv (clear_pml4 cr3 t) M = mem_inv t M"
  by (simp add: mem_inv_def managed_def zone_sum_def clear_pml4_def cong: if_cong)

lemma clear_pml4_simps [simp]:
  "pages (clear_pml4 cr3 t) = pages t" "zones (clear_pml4 cr3 t) = zones t"
  "bits_map (clear_pml4 cr3 t) = bits_map t" "zones_size (clear_pml4 cr3 t) = zones_size t"
  by (simp_all add: clear_pml4_def)

lemma only_accounts_layout: "only_accounts s t \<Longrightarrow> same_layout s t"
  by (auto simp: only_accounts_def same_layout_def)

section \<open>A machine with two gigabytes\<close>

text \<open>
  The table a machine with 640 KB and 2 GB - 1 MB of RAM reports, and a kernel that ends at 5.25 MB
  in the high half: the state the witnesses use.
\<close>

definition two_gigabytes :: "nat \<Rightarrow> E820" where
  "two_gigabytes i =
     (if i = 0 then \<lparr>E_addr = 0, E_len = 0x9f000, E_type = 1\<rparr>
      else if i = 1 then \<lparr>E_addr = 0xf0000, E_len = 0x10000, E_type = 2\<rparr>
      else if i = 2 then \<lparr>E_addr = 0x100000, E_len = 0x7ff00000, E_type = 1\<rparr>
      else zero_E820)"

definition booted :: kmem where
  "booted = memory_management_struct\<lparr>end_brk := 0xffff800000540000\<rparr>"

lemma fresh_booted: "fresh booted"
  by (simp add: fresh_def booted_def memory_management_struct_def)

lemma e820_count_two_gigabytes: "e820_count two_gigabytes = 3"
  by (simp add: e820_count_def e820_rest_def e820_last_def two_gigabytes_def upt_conv_Cons
      zero_E820_def ACPI_NVS_def RAM_def)

lemma ram_two_gigabytes: "ram two_gigabytes = [two_gigabytes 2]"
  by (simp add: ram_def e820_entries_def e820_count_two_gigabytes upt_conv_Cons usable_def
      entry_start_def entry_end_def PAGE_2M_ALIGN_def layout_simps two_gigabytes_def RAM_def)

lemma frames_two_gigabytes: "frames_of (ram two_gigabytes) = {1 ..< 1024}"
  by (simp add: frames_of_def ram_two_gigabytes entry_frames_def entry_start_def entry_end_def
      PAGE_2M_ALIGN_def layout_simps two_gigabytes_def frame_def)

lemma memory_end_two_gigabytes: "memory_end two_gigabytes = 0x80000000"
  by (simp add: memory_end_def e820_count_two_gigabytes two_gigabytes_def)

lemma good_two_gigabytes: "good_table two_gigabytes"
  unfolding good_table_def memory_end_two_gigabytes ram_two_gigabytes
  by (simp add: disjoint_frames_def entry_end_def two_gigabytes_def layout_simps)

lemma kernel_frames_two_gigabytes: "kernel_frames two_gigabytes booted = 3"
proof -
  have "zones_ptr (arrays two_gigabytes booted) = 0xffff80000054b000"
    by (simp add: arrays_def setup_zones_def setup_pages_def setup_bits_map_def e820_read_fresh
        memory_end_two_gigabytes booted_def memory_management_struct_def layout_simps sizeof_Page_def
        Let_def)
  then show ?thesis
    by (simp add: kernel_frames_def prepared_end [OF fresh_booted good_two_gigabytes]
        ram_two_gigabytes Virt_To_Phy_def PAGE_OFFSET_def frame_def layout_simps)
qed

lemma kernel_fits_two_gigabytes: "kernel_fits two_gigabytes booted"
  by (auto simp: kernel_fits_def kernel_frames_two_gigabytes pages_known_def frames_two_gigabytes)

section \<open>Properties\<close>

text \<open>
  The first loop of \<^verbatim>\<open>init_memory\<close> copies the table the boot loader left: on a zeroed
  descriptor, entry \<open>j\<close> is copied unchanged when every entry from 1 to \<open>j\<close> is a valid range of the
  32 the descriptor can hold, later descriptors stay zero, and the count is the number of copies.
\<close>

theorem e820_table_copied:
  assumes "e820 s = (\<lambda>_. zero_E820)"
  shows "(\<forall>j. e820 (e820_read tbl 0 s) j =
      (if j < 32 \<and> (\<forall>i \<in> {1 .. j}. \<not> e820_last (tbl i)) then tbl j else zero_E820)) \<and>
    unat (e820_len (e820_read tbl 0 s)) =
      card {j. j < 32 \<and> (\<forall>i \<in> {1 .. j}. \<not> e820_last (tbl i))}"
proof -
  have count: "j < e820_count tbl \<longleftrightarrow> j < 32 \<and> (\<forall>i \<in> {1 .. j}. \<not> e820_last (tbl i))" for j
  proof (cases j)
    case 0
    then show ?thesis by (simp add: e820_count_def)
  next
    case (Suc k)
    have "(\<forall>i \<in> {1 .. Suc k}. P i) \<longleftrightarrow> (\<forall>i \<le> k. P (Suc i))" for P
    proof -
      have "{1 .. Suc k} = Suc ` {.. k}"
        unfolding image_Suc_atMost by simp
      then show ?thesis by auto
    qed
    with Suc show ?thesis
      by (auto simp: e820_count_def e820_rest_def less_length_takeWhile)
  qed
  have "{j. j < 32 \<and> (\<forall>i \<in> {1 .. j}. \<not> e820_last (tbl i))} = {..< e820_count tbl}"
    using count by auto
  with count show ?thesis
    using assms by (simp add: e820_read_fresh unat_e820_count)
qed

theorem e820_table_copied_witness:
  "e820 (e820_read two_gigabytes 0 booted) 2 = two_gigabytes 2"
proof -
  have "\<not> e820_last (two_gigabytes 1)" "\<not> e820_last (two_gigabytes 2)"
    by (simp_all add: two_gigabytes_def e820_last_def ACPI_NVS_def RAM_def)
  moreover have "{1 .. 2 :: nat} = {1, 2}" by auto
  ultimately show ?thesis
    using fresh_booted e820_table_copied [of booted two_gigabytes] by (simp add: fresh_def)
qed

text \<open>
  Property C6: \<^verbatim>\<open>init_memory\<close> hands over a consistent memory manager. For a good table it never
  dereferences a null zone; the accounts of page operations hold on every page with a structure; the
  bit of a frame below the end of memory is clear exactly when the frame lies in a zone behind the
  kernel's pages; and exactly the pages up to the end of the kernel's structures carry the kernel's
  flags, every other page being unused.
\<close>

theorem init_memory_ready:
  assumes "fresh s" and "good_table tbl" and "kernel_fits tbl s"
  shows "\<exists>t. init_memory tbl cr3 s = Inr t \<and> mem_inv t (pages_known tbl) \<and>
    (\<forall>x < frame (memory_end tbl). bm_test (bits_map t) x \<longleftrightarrow>
       x \<notin> frames_of (ram tbl) \<or> x < kernel_frames tbl s) \<and>
    (\<forall>x \<in> pages_known tbl. p_attribute (pages t x) = (if x < kernel_frames tbl s then 0x93 else 0))"
proof -
  obtain t where run: "init_memory tbl cr3 s = Inr (clear_pml4 cr3 t)"
    and inv: "mem_inv t (pages_known tbl)"
    and pg: "\<forall>x. pages t x = (if x < kernel_frames tbl s
        then (pages (prepare_memory tbl s) x)\<lparr>p_attribute := 0x93, ref_cnt := 1\<rparr>
        else pages (prepare_memory tbl s) x)"
    and bm: "\<forall>x. bm_test (bits_map t) x \<longleftrightarrow>
        x < kernel_frames tbl s \<or> bm_test (bits_map (prepare_memory tbl s)) x"
    using init_memory_state [OF assms] by blast
  have "p_attribute (pages t x) = (if x < kernel_frames tbl s then 0x93 else 0)"
    if "x \<in> pages_known tbl" for x
    using pg [rule_format, of x] prepared_page [OF assms(1,2) that] by auto
  with run inv bm show ?thesis
    by (intro exI [of _ "clear_pml4 cr3 t"])
      (auto simp: mem_inv_clear_pml4 prepared_zones(3) [OF assms(1,2)])
qed

theorem init_memory_ready_witness:
  "\<exists>t. init_memory two_gigabytes 0x101000 booted = Inr t \<and> \<not> bm_test (bits_map t) 3 \<and>
     bm_test (bits_map t) 2 \<and> p_attribute (pages t 2) = 0x93"
  using init_memory_ready [OF fresh_booted good_two_gigabytes kernel_fits_two_gigabytes, of "0x101000"]
  by (auto simp: frames_two_gigabytes kernel_frames_two_gigabytes memory_end_two_gigabytes
      pages_known_def frame_def PAGE_2M_SHIFT_def)

text \<open>
  The zones \<^verbatim>\<open>init_memory\<close> leaves are the ranges of RAM of the table that hold a whole
  page, in the order of the table; a zone covers exactly the whole 2 MB pages of its range, and its
  used and free pages add up to their number, also after the kernel's pages have been reserved.
\<close>

theorem init_memory_zones:
  assumes "fresh s" and "good_table tbl" and "kernel_fits tbl s"
  shows "\<exists>t. init_memory tbl cr3 s = Inr t \<and> unat (zones_size t) = length (ram tbl) \<and>
    (\<forall>i < length (ram tbl).
       unat (page_using_cnt (zones t i) + page_free_cnt (zones t i)) = card (entry_frames (ram tbl ! i)) \<and>
       unat (z_page_len (zones t i)) = card (entry_frames (ram tbl ! i)))"
proof -
  obtain t where run: "init_memory tbl cr3 s = Inr (clear_pml4 cr3 t)"
    and acc: "only_accounts (prepare_memory tbl s) t"
    using init_memory_state [OF assms] by blast
  have "usable (ram tbl ! i)" if "i < length (ram tbl)" for i
    using nth_mem [OF that] by (simp add: ram_def)
  then show ?thesis
    using run by (intro exI [of _ "clear_pml4 cr3 t"])
      (simp add: only_accounts_fields [OF acc] prepared_zones [OF assms(1,2)] ram_length zone_of_def
        entry_page_len)
qed

theorem init_memory_zones_witness:
  "\<exists>t. init_memory two_gigabytes 0x101000 booted = Inr t \<and> unat (zones_size t) = 1 \<and>
     unat (page_using_cnt (zones t 0) + page_free_cnt (zones t 0)) = 1023"
proof -
  have "entry_frames (ram two_gigabytes ! 0) = {1 ..< 1024}"
    using frames_two_gigabytes by (simp add: frames_of_def ram_two_gigabytes)
  then show ?thesis
    using init_memory_zones [OF fresh_booted good_two_gigabytes kernel_fits_two_gigabytes, of "0x101000"]
    by (auto simp: ram_two_gigabytes)
qed

text \<open>
  The rounding of a range is exact. For a range that does not reach the last 2 MB of
  the address space, the frames between the rounded start and the rounded end are those whose whole
  page lies in the range.
\<close>

theorem range_holds_whole_pages:
  assumes "unat (E_addr e) + unat (E_len e) < 2 ^ 64 - 2097152"
  shows "x \<in> {frame (entry_start e) ..< frame (entry_end e)} \<longleftrightarrow>
    unat (E_addr e) \<le> x * 2097152 \<and> (x + 1) * 2097152 \<le> unat (E_addr e) + unat (E_len e)"
proof -
  let ?a = "unat (E_addr e)" and ?n = "unat (E_len e)"
  have "unat (E_addr e + PAGE_2M_SIZE - 1) = ?a + 2097151"
    using assms unat_add_nat [of "E_addr e" 2097151] by (simp add: PAGE_2M_SIZE_num add.commute)
  then have start: "frame (entry_start e) = (?a + 2097151) div 2097152"
    by (simp add: frame_def PAGE_2M_SHIFT_def entry_start_down word_simps)
  have "unat (E_addr e + E_len e) = ?a + ?n"
    using assms by (intro unat_add_small) simp
  then have stop: "frame (entry_end e) = (?a + ?n) div 2097152"
    by (simp add: frame_def PAGE_2M_SHIFT_def entry_end_def word_simps)
  have "(a + 2097151) div 2097152 \<le> x \<longleftrightarrow> a \<le> x * 2097152" for a :: nat
    using div_less_iff_less_mult [of 2097152 "a + 2097151" "x + 1"] by auto
  moreover have "x < b div 2097152 \<longleftrightarrow> (x + 1) * 2097152 \<le> b" for b :: nat
    using less_eq_div_iff_mult_less_eq [of 2097152 "x + 1" b] by auto
  ultimately show ?thesis by (simp add: start stop)
qed

theorem range_holds_whole_pages_witness:
  "1023 \<in> {frame (entry_start (two_gigabytes 2)) ..< frame (entry_end (two_gigabytes 2))}"
  by (subst range_holds_whole_pages) (simp_all add: two_gigabytes_def)

lemma card_free:
  assumes "finite K"
  shows "card {x \<in> K. P x} + card {x \<in> K. \<not> P x} = card K"
proof -
  have "card ({x \<in> K. P x} \<union> {x \<in> K. \<not> P x}) = card {x \<in> K. P x} + card {x \<in> K. \<not> P x}"
    by (rule card_Un_disjoint) (use assms in auto)
  moreover have "{x \<in> K. P x} \<union> {x \<in> K. \<not> P x} = K" by auto
  ultimately show ?thesis by simp
qed

lemma zone0_free_count:
  assumes "fresh s" and "good_table tbl" and "kernel_fits tbl s" and "0 \<notin> frames_of (ram tbl)"
  shows "\<exists>t. init_memory tbl cr3 s = Inr t \<and> page_free_cnt (zones t 0) + 1 =
    of_nat (card {x \<in> pages_known tbl. p_zone (pages t x) = Some 0 \<and> p_attribute (pages t x) = 0})"
proof -
  obtain t where run: "init_memory tbl cr3 s = Inr (clear_pml4 cr3 t)"
    and inv: "mem_inv t (pages_known tbl)"
    and acc: "only_accounts (prepare_memory tbl s) t"
    and pg: "\<forall>x. pages t x = (if x < kernel_frames tbl s
        then (pages (prepare_memory tbl s) x)\<lparr>p_attribute := 0x93, ref_cnt := 1\<rparr>
        else pages (prepare_memory tbl s) x)"
    using init_memory_state [OF assms(1-3)] by blast
  let ?K = "{x \<in> pages_known tbl. p_zone (pages t x) = Some 0}"
  have ne: "ram tbl \<noteq> []" using assms(2) by (simp add: good_table_def)
  have in0: "x \<in> entry_frames (ram tbl ! 0) \<Longrightarrow> pages (prepare_memory tbl s) x = new_page 0 x" for x
  proof -
    assume x: "x \<in> entry_frames (ram tbl ! 0)"
    have "x \<noteq> 0" using x assms(4) ne frames_of_nth [of 0 "ram tbl"] by (metis length_greater_0_conv subsetD)
    then show ?thesis
      using x ne arrays_built [OF assms(1,2)] prepared_fields [OF assms(1), of tbl]
      by (auto simp: zones_built_def Let_def)
  qed
  have zone0: "p_zone (pages (prepare_memory tbl s) x) = Some 0 \<longleftrightarrow>
      x = 0 \<or> x \<in> entry_frames (ram tbl ! 0)" if "x \<in> pages_known tbl" for x
    using prepared_page [OF assms(1,2) that] in0 [of x] by (cases "x = 0") auto
  have K: "?K = insert 0 (entry_frames (ram tbl ! 0))"
    using zone0 pg frames_of_nth [of 0 "ram tbl"] ne by (auto simp: pages_known_def)
  have "0 \<notin> entry_frames (ram tbl ! 0)"
    using assms(4) ne frames_of_nth [of 0 "ram tbl"] by auto
  then have card_K: "card ?K = card (entry_frames (ram tbl ! 0)) + 1"
    unfolding K by simp
  have "usable (ram tbl ! 0)"
    using ne nth_mem [of 0 "ram tbl"] by (simp add: ram_def)
  then have "page_using_cnt (zones t 0) + page_free_cnt (zones t 0) =
      of_nat (card (entry_frames (ram tbl ! 0)))"
    using ne by (simp add: only_accounts_fields [OF acc] prepared_zones [OF assms(1,2)] zone_of_def
        flip: entry_page_len)
  moreover have "page_using_cnt (zones t 0) = of_nat (card {x \<in> ?K. p_attribute (pages t x) \<noteq> 0})"
    using inv ne by (simp add: mem_inv_def zone_sum_in_use finite_pages_known conj_assoc
        only_accounts_fields [OF acc] prepared_zones [OF assms(1,2)] ram_length)
  moreover have "card {x \<in> ?K. p_attribute (pages t x) \<noteq> 0} + card {x \<in> ?K. p_attribute (pages t x) = 0} =
      card (entry_frames (ram tbl ! 0)) + 1"
    using card_free [of ?K "\<lambda>x. p_attribute (pages t x) \<noteq> 0"] finite_pages_known card_K by simp
  ultimately have "page_free_cnt (zones t 0) + 1 = of_nat (card {x \<in> ?K. p_attribute (pages t x) = 0})"
    by (metis (no_types, lifting) add.assoc add_left_cancel of_nat_1 of_nat_add)
  with run show ?thesis by (intro exI [of _ "clear_pml4 cr3 t"]) (simp add: conj_assoc)
qed

text \<open>
  The account of page 0. \<^verbatim>\<open>init_memory\<close> hands page 0 to zone 0 whether or not the zone
  contains it, and reserves it as used. When zone 0 starts higher (as on every machine whose first
  range is below 2 MB), zone 0 counts one free page fewer than it has.
\<close>

theorem page_0_miscounted:
  assumes "fresh s" and "good_table tbl" and "kernel_fits tbl s" and "0 \<notin> frames_of (ram tbl)"
  shows "\<exists>t. init_memory tbl cr3 s = Inr t \<and> page_free_cnt (zones t 0) + 1 =
    of_nat (card {x \<in> pages_known tbl. p_zone (pages t x) = Some 0 \<and> p_attribute (pages t x) = 0})"
  by (rule zone0_free_count [OF assms])

theorem page_0_miscounted_witness:
  "\<exists>t. init_memory two_gigabytes 0x101000 booted = Inr t \<and> page_free_cnt (zones t 0) + 1 =
    of_nat (card {x \<in> pages_known two_gigabytes.
      p_zone (pages t x) = Some 0 \<and> p_attribute (pages t x) = 0})"
  by (rule page_0_miscounted [OF fresh_booted good_two_gigabytes kernel_fits_two_gigabytes])
    (simp add: frames_two_gigabytes)

lemma align_4k:
  assumes "unat a < 18446744073709547520"
  shows "unat a \<le> unat ((a + PAGE_4K_SIZE - 1) AND PAGE_4K_MASK)"
    and "unat ((a + PAGE_4K_SIZE - 1) AND PAGE_4K_MASK) \<le> unat a + 4095"
    and "unat ((a + PAGE_4K_SIZE - 1) AND PAGE_4K_MASK) mod 4096 = 0"
proof -
  have "unat (a + PAGE_4K_SIZE - 1) = unat a + 4095"
    using assms unat_add_nat [of a 4095] by (simp add: layout_simps add.commute)
  moreover have "(a + PAGE_4K_SIZE - 1) AND PAGE_4K_MASK =
      push_bit 12 (drop_bit 12 (a + PAGE_4K_SIZE - 1))"
    using mask_down [of "a + PAGE_4K_SIZE - 1" 12] by (simp add: layout_simps)
  ultimately have eq: "unat ((a + PAGE_4K_SIZE - 1) AND PAGE_4K_MASK) = (unat a + 4095) div 4096 * 4096"
    by (simp add: word_simps)
  have split: "unat a + 4095 = (unat a + 4095) div 4096 * 4096 + (unat a + 4095) mod 4096"
    and rest: "(unat a + 4095) mod 4096 < 4096" by simp_all
  show "unat a \<le> unat ((a + PAGE_4K_SIZE - 1) AND PAGE_4K_MASK)"
    unfolding eq using split rest by linarith
  show "unat ((a + PAGE_4K_SIZE - 1) AND PAGE_4K_MASK) \<le> unat a + 4095"
    unfolding eq using split by linarith
  show "unat ((a + PAGE_4K_SIZE - 1) AND PAGE_4K_MASK) mod 4096 = 0"
    unfolding eq by simp
qed

lemma bits_len_bounds:
  "unat (bits_size (arrays tbl s)) = frame (memory_end tbl)"
  "frame (memory_end tbl) \<le> 8 * unat (bits_len (arrays tbl s))"
  "unat (bits_len (arrays tbl s)) \<le> frame (memory_end tbl) + 8"
proof -
  show "unat (bits_size (arrays tbl s)) = frame (memory_end tbl)"
    by (simp add: arrays_def setup_zones_def setup_pages_def setup_bits_map_def frame_def Let_def)
  show "frame (memory_end tbl) \<le> 8 * unat (bits_len (arrays tbl s))"
    and "unat (bits_len (arrays tbl s)) \<le> frame (memory_end tbl) + 8"
    unfolding unat_bits_len by linarith+
qed

lemma pages_len_bounds:
  assumes "frame (memory_end tbl) < 2 ^ 32"
  shows "unat (pages_len (arrays tbl s)) = 40 * frame (memory_end tbl)"
proof -
  let ?n = "drop_bit PAGE_2M_SHIFT (memory_end tbl)"
  have "?n * sizeof_Page = of_nat (40 * frame (memory_end tbl))"
    by (simp add: frame_def sizeof_Page_def)
  then have "unat (?n * sizeof_Page) = 40 * frame (memory_end tbl)"
    using assms by (simp only: unat_of_nat) simp
  then have "unat (?n * sizeof_Page + 8 - 1) = 40 * frame (memory_end tbl) + 7"
    using assms unat_add_nat [of "?n * sizeof_Page" 7] by (simp add: add.commute)
  then have "unat ((?n * sizeof_Page + 8 - 1) AND NOT (8 - 1)) = (40 * frame (memory_end tbl) + 7) div 8 * 8"
    by (simp only: mask_8 unat_round_down) simp
  also have "(40 * frame (memory_end tbl) + 7) div 8 = 5 * frame (memory_end tbl)" by simp
  finally show ?thesis
    unfolding sizeof_Page_def
    by (simp add: arrays_def sizeof_Page_def setup_zones_def setup_pages_def setup_bits_map_def Let_def)
qed

text \<open>
  Property C23: the layout of the memory manager's own data. For a kernel in the first 16 TB of the
  high half and less than 128 TB of memory, the bitmap, the page structures and the zones lie one
  after the other behind the end of the kernel, each on a 4 KB boundary and none overlapping the
  next, the bitmap has a bit and the page array a structure for every frame, and all of it ends
  before \<^verbatim>\<open>end_of_struct\<close>, below which \<^verbatim>\<open>init_memory\<close> reserves every page.
\<close>

theorem structures_do_not_overlap:
  assumes "fresh s" and "good_table tbl" and "unat (end_brk s) < 0xffff900000000000"
    and "unat (memory_end tbl) < 2 ^ 47"
  shows "unat (end_brk s) \<le> unat (bits_map_ptr (prepare_memory tbl s)) \<and>
    unat (bits_map_ptr (prepare_memory tbl s)) + unat (bits_len (prepare_memory tbl s))
      \<le> unat (pages_ptr (prepare_memory tbl s)) \<and>
    unat (pages_ptr (prepare_memory tbl s)) + 40 * unat (bits_size (prepare_memory tbl s))
      \<le> unat (zones_ptr (prepare_memory tbl s)) \<and>
    unat (zones_ptr (prepare_memory tbl s)) + 80 * length (ram tbl)
      \<le> unat (end_of_struct (prepare_memory tbl s)) \<and>
    unat (bits_size (prepare_memory tbl s)) \<le> 8 * unat (bits_len (prepare_memory tbl s)) \<and>
    unat (bits_map_ptr (prepare_memory tbl s)) mod 4096 = 0 \<and>
    unat (pages_ptr (prepare_memory tbl s)) mod 4096 = 0 \<and>
    unat (zones_ptr (prepare_memory tbl s)) mod 4096 = 0"
proof -
  let ?A = "arrays tbl s"
  have n: "frame (memory_end tbl) < 67108864"
    using assms(4) by (simp add: frame_def PAGE_2M_SHIFT_def word_simps div_less_iff_less_mult)
  have len: "unat (bits_len ?A) \<le> 67108872" "unat (pages_len ?A) = 40 * frame (memory_end tbl)"
    using n bits_len_bounds [of tbl s] pages_len_bounds [of tbl s] by simp_all
  have b: "bits_map_ptr ?A = (end_brk s + PAGE_4K_SIZE - 1) AND PAGE_4K_MASK"
    and p: "pages_ptr ?A = (bits_map_ptr ?A + bits_len ?A + PAGE_4K_SIZE - 1) AND PAGE_4K_MASK"
    and z: "zones_ptr ?A = (pages_ptr ?A + pages_len ?A + PAGE_4K_SIZE - 1) AND PAGE_4K_MASK"
    using assms(1) by (simp_all add: arrays_def setup_zones_def setup_pages_def setup_bits_map_def
        e820_read_fresh fresh_def Let_def)
  note b' = align_4k [of "end_brk s", folded b]
  have add1: "unat (bits_map_ptr ?A + bits_len ?A) = unat (bits_map_ptr ?A) + unat (bits_len ?A)"
    using b'(2) assms(3) len(1) by (intro unat_add_small) simp
  note p' = align_4k [of "bits_map_ptr ?A + bits_len ?A", folded p, unfolded add1]
  have add2: "unat (pages_ptr ?A + pages_len ?A) = unat (pages_ptr ?A) + unat (pages_len ?A)"
    using p'(2) b'(2) assms(3) len n by (intro unat_add_small) simp
  note z' = align_4k [of "pages_ptr ?A + pages_len ?A", folded z, unfolded add2]
  have z_bound: "unat (zones_ptr ?A) < 18446700000000000000"
    using z'(2) p'(2) b'(2) assms(3) len n by simp
  have "zones_ptr ?A + of_nat (80 * length (ram tbl)) + 8 * 32 =
      zones_ptr ?A + of_nat (80 * length (ram tbl) + 256)"
    by simp
  moreover have "unat (zones_ptr ?A + of_nat (80 * length (ram tbl) + 256)) =
      unat (zones_ptr ?A) + (80 * length (ram tbl) + 256)"
    using z_bound ram_length(1) [of tbl] by (intro unat_add_nat) simp
  ultimately have e: "unat (end_of_struct (prepare_memory tbl s)) =
      (unat (zones_ptr ?A) + (80 * length (ram tbl) + 256)) div 8 * 8"
    by (simp only: prepared_end [OF assms(1,2)] mask_8 unat_round_down) simp
  have ee: "m \<le> (m + 256) div 8 * (8 :: nat)" for m
    by linarith
  note pe = prepared_end(2-7) [OF assms(1,2)]
  show ?thesis
    unfolding pe e bits_len_bounds(1)
    using b' p' z' assms(3) len n bits_len_bounds(2) [of tbl s] z_bound
      ee [of "unat (zones_ptr ?A) + 80 * length (ram tbl)"]
    by (simp add: add.assoc)
qed

theorem structures_do_not_overlap_witness:
  "unat (pages_ptr (prepare_memory two_gigabytes booted)) + 40 * 1024
     \<le> unat (zones_ptr (prepare_memory two_gigabytes booted))"
proof -
  have "unat (end_brk booted) < 0xffff900000000000" "unat (memory_end two_gigabytes) < 2 ^ 47"
    by (simp_all add: booted_def memory_end_two_gigabytes)
  from structures_do_not_overlap [OF fresh_booted good_two_gigabytes this] show ?thesis
    by (simp add: prepared_end [OF fresh_booted good_two_gigabytes] bits_len_bounds
        memory_end_two_gigabytes frame_def PAGE_2M_SHIFT_def)
qed

end
