(* ===== verification/Mem_Boot.thy ===== *)
theory Mem_Boot
  imports Mem_Alloc Mem_Init
begin

text \<open>
  The allocator on the memory \<^verbatim>\<open>init_memory\<close> leaves (both in \<^verbatim>\<open>src/memory.c\<close>): the first request of the
  kernel, which is for the pages of the init thread.
\<close>

text \<open>
  The machine the search of \<^verbatim>\<open>alloc_pages\<close> works on: the first zone starts at frame 1, which is where
  a range from 1 MB starts after rounding; the kernel ends below frame 63; \<open>n + 1\<close> pages are left in
  the zone behind it; and 256 MB are described, so that the two bitmap words of the search exist.
\<close>

definition boots_with :: "nat \<Rightarrow> (nat \<Rightarrow> E820) \<Rightarrow> kmem \<Rightarrow> bool" where
  "boots_with n tbl s \<longleftrightarrow> fresh s \<and> good_table tbl \<and> kernel_fits tbl s \<and> 0 \<notin> frames_of (ram tbl) \<and>
     g_zone_dma s = 0 \<and> g_zone_normal s = 0 \<and> frame (entry_start (hd (ram tbl))) = 1 \<and>
     128 \<le> frame (memory_end tbl) \<and> kernel_frames tbl s < 63 \<and>
     {kernel_frames tbl s ..< kernel_frames tbl s + n + 1} \<subseteq> entry_frames (hd (ram tbl))"

lemma boots_with_hd:
  assumes "boots_with n tbl s"
  shows "hd (ram tbl) = ram tbl ! 0" and "0 < length (ram tbl)"
  using assms by (auto simp: boots_with_def good_table_def hd_conv_nth)

lemma boots_with_free:
  assumes "boots_with n tbl s" and "x < frame (memory_end tbl)"
    and bm: "\<And>x. bm_test (bits_map t) x \<longleftrightarrow> x < kernel_frames tbl s \<or> bm_test (bits_map (prepare_memory tbl s)) x"
  shows "\<not> bm_test (bits_map t) x \<longleftrightarrow> x \<in> frames_of (ram tbl) \<and> kernel_frames tbl s \<le> x"
  using assms(1,2) prepared_zones(3) [of s tbl x] by (auto simp: boots_with_def bm)

text \<open>The counter of the first zone covers the run behind the kernel.\<close>

lemma boots_with_enough:
  assumes boot: "boots_with n tbl s" and run: "init_memory tbl cr3 s = Inr (clear_pml4 cr3 t)"
    and pg: "\<forall>x. pages t x = (if x < kernel_frames tbl s
        then (pages (prepare_memory tbl s) x)\<lparr>p_attribute := 0x93, ref_cnt := 1\<rparr>
        else pages (prepare_memory tbl s) x)"
  shows "n \<le> unat (page_free_cnt (zones t 0))"
proof -
  let ?K = "{x \<in> pages_known tbl. p_zone (pages t x) = Some 0 \<and> p_attribute (pages t x) = 0}"
  have fresh: "fresh s" "good_table tbl" using boot by (simp_all add: boots_with_def)
  have free: "page_free_cnt (zones t 0) + 1 = of_nat (card ?K)"
    using zone0_free_count [of s tbl cr3] boot run by (simp add: boots_with_def)
  have built: "zones_built (ram tbl) (arrays tbl s) (build_zones (arrays tbl s))"
    using arrays_built [OF fresh] by blast
  have "{kernel_frames tbl s ..< kernel_frames tbl s + n + 1} \<subseteq> ?K"
  proof
    fix x
    assume x: "x \<in> {kernel_frames tbl s ..< kernel_frames tbl s + n + 1}"
    then have e: "x \<in> entry_frames (ram tbl ! 0)" using boot boots_with_hd [OF boot] by (auto simp: boots_with_def)
    then have known: "x \<in> frames_of (ram tbl)" using frames_of_nth [of 0 "ram tbl"] boots_with_hd [OF boot] by auto
    then have "x \<noteq> 0" using boot unfolding boots_with_def by metis
    then have "pages (prepare_memory tbl s) x = new_page 0 x"
      using e built boots_with_hd(2) [OF boot] prepared_fields [OF fresh(1), of tbl] by (auto simp: zones_built_def Let_def)
    then show "x \<in> ?K" using x known pg by (simp add: pages_known_def)
  qed
  then have "card {kernel_frames tbl s ..< kernel_frames tbl s + n + 1} \<le> card ?K"
    by (rule card_mono [rotated]) (simp add: finite_pages_known)
  then have K: "n + 1 \<le> card ?K" by simp
  have "card ?K \<le> card {..< (2 :: nat) ^ 43}"
    by (rule card_mono) (auto simp: pages_known_def frames_of_def dest: entry_frames_less)
  then have small: "card ?K < 2 ^ 64" by simp
  have "page_free_cnt (zones t 0) = of_nat (card ?K - 1)"
    using free K by (simp add: of_nat_diff eq_diff_eq)
  then have "unat (page_free_cnt (zones t 0)) = card ?K - 1"
    using small by (simp add: unat_of_nat take_bit_nat_eq_self)
  with K show ?thesis by simp
qed

text \<open>Zone 0 as the search sees it.\<close>

lemma boots_with_zone0:
  assumes boot: "boots_with n tbl s" and acc: "only_accounts (prepare_memory tbl s) t"
  shows "zone0_start (clear_pml4 cr3 t) = 1" and "zone0_start (clear_pml4 cr3 t) \<le> zone0_end (clear_pml4 cr3 t)"
    and "g_zone_dma (clear_pml4 cr3 t) = 0" and "g_zone_normal (clear_pml4 cr3 t) = 0"
proof -
  have fresh: "fresh s" "good_table tbl" using boot by (simp_all add: boots_with_def)
  have zone: "zones (prepare_memory tbl s) 0 = zone_of (hd (ram tbl))"
    using prepared_zones(2) [OF fresh, of 0] boots_with_hd [OF boot] by simp
  show start: "zone0_start (clear_pml4 cr3 t) = 1"
    using boot by (simp add: zone0_start_def only_accounts_fields(4) [OF acc] zone zone_of_def boots_with_def)
  have stop: "zone0_end (clear_pml4 cr3 t) = frame (entry_end (hd (ram tbl)))"
    by (simp add: zone0_end_def only_accounts_fields(5) [OF acc] zone zone_of_def)
  have "kernel_frames tbl s \<in> entry_frames (hd (ram tbl))" "1 \<le> kernel_frames tbl s"
    using boot by (auto simp: boots_with_def kernel_frames_def)
  then show "zone0_start (clear_pml4 cr3 t) \<le> zone0_end (clear_pml4 cr3 t)"
    unfolding start stop by (simp add: entry_frames_def)
  show "g_zone_dma (clear_pml4 cr3 t) = 0" and "g_zone_normal (clear_pml4 cr3 t) = 0"
    using only_accounts_layout [OF acc] prepared_kept [OF fresh] boot
    by (simp_all add: clear_pml4_def same_layout_def boots_with_def)
qed

text \<open>What the first request gets, and what \<^verbatim>\<open>init_memory\<close> keeps of the descriptor.\<close>

lemma boot_alloc_claimed:
  assumes "boots_with n tbl s" and "1 \<le> n" "n \<le> 64" and "flags \<noteq> 0"
  shows "\<exists>t P t'. init_memory tbl cr3 s = Inr t \<and>
    alloc_pages ZONE_NORMAL (int n) flags t = Some (Inr (t', Some (of_nat P))) \<and>
    P = kernel_frames tbl s \<and> {P ..< P + n} \<subseteq> frames_of (ram tbl) - {..< kernel_frames tbl s} \<and> P + n \<le> 128 \<and>
    (\<forall>x \<in> pages_known tbl. phy_addr (pages t' x) = page_addr x) \<and> g_cr3 t = cr3 \<and> start_code t = start_code s \<and>
    end_code t = end_code s \<and> end_data t = end_data s \<and> end_brk t = end_brk s \<and>
    (\<forall>x. pages t' x = (if P \<le> x \<and> x < P + n then (pages t x)\<lparr>p_attribute := flags, ref_cnt := 1\<rparr> else pages t x)) \<and>
    mem_inv t' (pages_known tbl)"
proof -
  have fresh: "fresh s" "good_table tbl" "kernel_fits tbl s" using assms(1) by (simp_all add: boots_with_def)
  obtain t where run: "init_memory tbl cr3 s = Inr (clear_pml4 cr3 t)"
    and inv: "mem_inv t (pages_known tbl)" and acc: "only_accounts (prepare_memory tbl s) t"
    and pg: "\<forall>x. pages t x = (if x < kernel_frames tbl s
        then (pages (prepare_memory tbl s) x)\<lparr>p_attribute := 0x93, ref_cnt := 1\<rparr>
        else pages (prepare_memory tbl s) x)"
    and bm: "\<forall>x. bm_test (bits_map t) x \<longleftrightarrow>
        x < kernel_frames tbl s \<or> bm_test (bits_map (prepare_memory tbl s)) x"
    using init_memory_state [OF fresh] by blast
  let ?t = "clear_pml4 cr3 t" and ?k = "kernel_frames tbl s"
  note free = boots_with_free [OF assms(1) _ bm [rule_format]]
  note zone0 = boots_with_zone0 [OF assms(1) acc, of cr3]
  have mem: "{?k ..< ?k + n + 1} \<subseteq> entry_frames (hd (ram tbl))" "?k < 63" "128 \<le> frame (memory_end tbl)" "1 \<le> ?k"
    using assms(1) by (simp_all add: boots_with_def kernel_frames_def)
  have sub: "entry_frames (hd (ram tbl)) \<subseteq> frames_of (ram tbl)"
    using frames_of_nth [of 0 "ram tbl"] boots_with_hd [OF assms(1)] by simp
  have run0: "first_word_run ?t (int n) ?k"
    unfolding first_word_run_def zone0(1)
  proof (intro conjI allI impI)
    fix i
    assume "i < nat (int n)"
    then have x: "?k + i \<in> frames_of (ram tbl)" by (intro subsetD [OF subset_trans [OF mem(1) sub]]) simp
    then show "\<not> bm_test (bits_map ?t) (64 * (1 div 64) + ?k + i)"
      using free [OF ram_frame_less [OF fresh(2) x]] x by simp
  qed (use mem in simp_all)
  have M: "x \<in> pages_known tbl"
    if "x < 64 * (zone0_start ?t div 64) + 128" "\<not> bm_test (bits_map ?t) x" for x
    using free [of x] that mem(3) by (simp add: zone0(1) pages_known_def)
  have enough: "word_of_int (int n) \<le> page_free_cnt (zones ?t 0)"
    using boots_with_enough [OF assms(1) run pg] assms(3)
    by (simp add: word_le_nat_alt unat_of_nat take_bit_nat_eq_self)
  have inv': "mem_inv ?t (pages_known tbl)" using inv by (simp add: mem_inv_clear_pml4)
  obtain P t' where P: "alloc_pages ZONE_NORMAL (int n) flags ?t = Some (Inr (t', Some (of_nat P)))"
    "\<forall>l < n. \<not> bm_test (bits_map ?t) (P + l)" "\<forall>l < n. P + l \<in> pages_known tbl \<and> P + l < 128"
    "\<forall>x. pages t' x = (if P \<le> x \<and> x < P + n
       then (pages ?t x)\<lparr>p_attribute := flags, ref_cnt := 1\<rparr> else pages ?t x)" "mem_inv t' (pages_known tbl)" "P \<le> ?k"
    using alloc_run_claimed [OF inv' _ _ assms(4) zone0(3,4) _ zone0(2) enough run0 M] assms(2,3) zone0(1) run0
    by simp blast
  have "x \<in> frames_of (ram tbl) - {..< ?k}" if "x \<in> {P ..< P + n}" for x
  proof -
    have x: "x \<in> pages_known tbl" "\<not> bm_test (bits_map t) x"
      using P(2,3) that by (force dest!: spec [of _ "x - P"])+
    then have "x \<noteq> 0" using bm mem(4) by auto
    then have "x \<in> frames_of (ram tbl)" using x(1) by (simp add: pages_known_def)
    with x(2) bm show ?thesis by auto
  qed
  moreover from this have "P = ?k" using P(6) assms(2) by force
  moreover have "phy_addr (pages t' x) = page_addr x" if "x \<in> pages_known tbl" for x
    using prepared_page [OF fresh(1,2) that] P(4) pg by auto
  moreover have "P + (n - 1) < 128" using P(3) assms(2) by (meson diff_less less_le_trans zero_less_one)
  ultimately show ?thesis
    using run P(1,4,5) assms(2) only_accounts_layout [OF acc] prepared_kept [OF fresh(1,2)]
    by (intro exI [of _ ?t] exI [of _ P] exI [of _ t']) (auto simp: clear_pml4_def same_layout_def)
qed


text \<open>The machine of the samples, with any state that ends where the sample kernel ends.\<close>

lemma boots_with_two_gigabytes:
  assumes "fresh s" and "end_brk s = 0xffff800000540000" and "g_zone_dma s = 0" and "g_zone_normal s = 0"
  shows "kernel_frames two_gigabytes s = 3" and "n \<le> 1020 \<Longrightarrow> boots_with n two_gigabytes s"
proof -
  have e: "e820 s = (\<lambda>_. zero_E820)" using assms(1) by (simp add: fresh_def)
  have "zones_ptr (arrays two_gigabytes s) = 0xffff80000054b000"
    by (simp add: arrays_def setup_zones_def setup_pages_def setup_bits_map_def e820_read_fresh e
        memory_end_two_gigabytes assms(2) layout_simps sizeof_Page_def Let_def)
  then show k: "kernel_frames two_gigabytes s = 3"
    by (simp add: kernel_frames_def prepared_end [OF assms(1) good_two_gigabytes]
        ram_two_gigabytes Virt_To_Phy_def PAGE_OFFSET_def frame_def layout_simps)
  have "frame (entry_start (hd (ram two_gigabytes))) = 1" "entry_frames (hd (ram two_gigabytes)) = {1 ..< 1024}"
    by (simp_all add: ram_two_gigabytes entry_frames_def entry_start_def entry_end_def PAGE_2M_ALIGN_def
        layout_simps two_gigabytes_def frame_def)
  moreover have "kernel_fits two_gigabytes s"
    by (auto simp: kernel_fits_def k pages_known_def frames_two_gigabytes)
  moreover have "frame (memory_end two_gigabytes) = 1024" by (simp add: memory_end_two_gigabytes frame_def PAGE_2M_SHIFT_def)
  ultimately show "n \<le> 1020 \<Longrightarrow> boots_with n two_gigabytes s"
    using assms good_two_gigabytes by (auto simp: boots_with_def frames_two_gigabytes k)
qed


end
