(* ===== verification/Entry.thy ===== *)
theory Entry
  imports Lib_String
begin

text \<open>
  The entry and exit of interrupts: \<^verbatim>\<open>struct pt_regs\<close> (\<^verbatim>\<open>include/ptrace.h\<close>) and its offsets
  (\<^verbatim>\<open>include/linkage.h\<close>), the assembly of \<^verbatim>\<open>SAVE_ALL\<close> and \<^verbatim>\<open>Build_IRQ\<close> (\<^verbatim>\<open>src/interrupt.c\<close>), and
  \<^verbatim>\<open>RSETORE_ALL\<close> of \<^verbatim>\<open>src/entry.sx\<close>, which it returns through. Assembly is a list of instructions,
  run on a register file and the byte memory. The arithmetic flags are not modelled: nothing reads
  them here, and \<^verbatim>\<open>iretq\<close> replaces them.
\<close>

section \<open>Quadwords in memory\<close>

fun word_of_bytes :: "uint8 list \<Rightarrow> uint64" where
  "word_of_bytes [] = 0"
| "word_of_bytes (b # bs) = ucast b OR push_bit 8 (word_of_bytes bs)"

definition read64 :: "mem8 \<Rightarrow> uintptr \<Rightarrow> uint64" where
  "read64 m a = word_of_bytes (load m a 8)"

definition write64 :: "uintptr \<Rightarrow> uint64 \<Rightarrow> mem8 \<Rightarrow> mem8" where
  "write64 a v m = store m a (bytes_of v)"

lemma bit_word_of_bytes:
  "n < 64 \<Longrightarrow> bit (word_of_bytes bs) n \<longleftrightarrow> n div 8 < length bs \<and> bit (bs ! (n div 8)) (n mod 8)"
proof (induction bs arbitrary: n)
  case Nil
  then show ?case by simp
next
  case (Cons b bs)
  show ?case
  proof (cases "n < 8")
    case True
    with Cons.prems show ?thesis by (simp add: bit_or_iff bit_push_bit_iff bit_unsigned_iff)
  next
    case False
    then obtain k where n: "n = 8 + k" using le_Suc_ex [of 8 n] by auto
    have "\<not> bit (ucast b :: uint64) n"
      using False bit_imp_le_length [of b n] by (auto simp: bit_unsigned_iff)
    moreover have "k < 64" "(8 + k) div 8 = Suc (k div 8)" using Cons.prems n by simp_all
    ultimately show ?thesis
      using Cons.IH [of k] Cons.prems by (simp add: n bit_or_iff bit_push_bit_iff)
  qed
qed

lemma word_of_bytes_of: "word_of_bytes (bytes_of v) = v"
proof (rule word64_eqI)
  fix i :: nat
  assume i: "i < 64"
  then have "bytes_of v ! (i div 8) = ucast (drop_bit (8 * (i div 8)) v)"
    by (simp add: bytes_of_def less_mult_imp_div_less)
  moreover have "8 * (i div 8) + i mod 8 = i" by simp
  moreover have "i div 8 < 8" using i by (simp add: less_mult_imp_div_less)
  ultimately show "bit (word_of_bytes (bytes_of v)) i = bit v i"
    using i by (simp add: bit_word_of_bytes bit_unsigned_iff bit_drop_bit_eq)
qed

lemma load_cong: "(\<And>x. x \<in> block a n \<Longrightarrow> m x = m' (x + d)) \<Longrightarrow> n \<le> 2 ^ 64 \<Longrightarrow> load m a n = load m' (a + d) n"
  using block_nth [of n _ a] by (auto simp: load_def algebra_simps)

lemma load_store_same: "length bs < 2 ^ 64 \<Longrightarrow> load (store m a bs) a (length bs) = bs"
  by (rule nth_equalityI)
    (simp_all add: load_def store_at block_nth unat_of_nat_small)

lemma blocks_apart:
  assumes "8 \<le> unat (b - a)" and "8 \<le> unat (a - b)" and "x \<in> block b 8"
  shows "x \<notin> block a 8"
proof
  assume "x \<in> block a 8"
  then have p: "unat (x - a) < 8" and q: "unat (x - b) < 8" using assms(3) by (simp_all add: block_iff)
  show False
  proof (cases "x - b \<le> x - a")
    case True
    then have "unat ((x - a) - (x - b)) = unat (x - a) - unat (x - b)" by (rule unat_sub)
    moreover have "(x - a) - (x - b) = b - a" by simp
    ultimately show False using p assms(1) by simp
  next
    case False
    then have "x - a \<le> x - b" by simp
    then have "unat ((x - b) - (x - a)) = unat (x - b) - unat (x - a)" by (rule unat_sub)
    moreover have "(x - b) - (x - a) = a - b" by simp
    ultimately show False using q assms(2) by simp
  qed
qed

lemma unat_other_way:
  fixes a b :: uint64
  assumes "0 < unat (b - a)"
  shows "unat (a - b) = 2 ^ 64 - unat (b - a)"
proof -
  have "(unat (a - b) + unat (b - a)) mod 2 ^ 64 = 0"
    using unat_word_ariths(1) [of "a - b" "b - a"] by simp
  moreover have "unat (a - b) + unat (b - a) < 2 * 2 ^ 64"
    by (rule order_less_le_trans [OF add_strict_mono [OF unat64_less unat64_less]]) simp
  ultimately obtain k where "unat (a - b) + unat (b - a) = 2 ^ 64 * k" and "k < 2"
    by (auto simp: mod_eq_0_iff_dvd elim!: dvdE)
  moreover from this assms have "k = 1" by (cases k) auto
  ultimately show ?thesis by simp
qed

text \<open>
  What the stack and the frames rely on of a memory of quadwords: a quadword reads back as it was
  written and leaves those at least eight bytes away. Then what was pushed can be read.
\<close>

fun pushes :: "(uintptr \<Rightarrow> uint64 \<Rightarrow> 'm \<Rightarrow> 'm) \<Rightarrow> uintptr \<Rightarrow> uint64 list \<Rightarrow> 'm \<Rightarrow> 'm" where
  "pushes wr sp [] m = m"
| "pushes wr sp (v # vs) m = pushes wr (sp - 8) vs (wr (sp - 8) v m)"

locale quad_memory =
  fixes rd :: "'m \<Rightarrow> uintptr \<Rightarrow> uint64"
    and wr :: "uintptr \<Rightarrow> uint64 \<Rightarrow> 'm \<Rightarrow> 'm"
  assumes rd_same: "rd (wr a v m) a = v"
    and rd_other: "8 \<le> unat (b - a) \<Longrightarrow> 8 \<le> unat (a - b) \<Longrightarrow> rd (wr a v m) b = rd m b"
begin

lemma rd_above:
  "unat (b - sp) + 8 * length vs + 8 \<le> 2 ^ 64 \<Longrightarrow> rd (pushes wr sp vs m) b = rd m b"
proof (induction vs arbitrary: sp m)
  case Nil
  then show ?case by simp
next
  case (Cons v vs)
  have up: "unat (b - (sp - 8)) = unat (b - sp) + 8"
    using Cons.prems unat_add_nat [of "b - sp" 8] by (simp add: algebra_simps)
  have "unat (sp - 8 - b) = 2 ^ 64 - unat (b - (sp - 8))"
    by (rule unat_other_way) (use up in simp)
  then have "rd (wr (sp - 8) v m) b = rd m b"
    using up Cons.prems by (intro rd_other) simp_all
  moreover have "rd (pushes wr (sp - 8) vs (wr (sp - 8) v m)) b = rd (wr (sp - 8) v m) b"
    by (rule Cons.IH) (use Cons.prems up in simp)
  ultimately show ?case by simp
qed

lemma rd_pushed:
  "i < length vs \<Longrightarrow> 8 * length vs < 2 ^ 64 \<Longrightarrow> rd (pushes wr sp vs m) (sp - 8 * of_nat (Suc i)) = vs ! i"
proof (induction vs arbitrary: sp m i)
  case Nil
  then show ?case by simp
next
  case (Cons v vs)
  show ?case
  proof (cases i)
    case 0
    have "rd (pushes wr (sp - 8) vs (wr (sp - 8) v m)) (sp - 8) = rd (wr (sp - 8) v m) (sp - 8)"
      by (rule rd_above) (use Cons.prems in simp)
    with 0 show ?thesis by (simp add: rd_same)
  next
    case (Suc j)
    with Cons.IH [of j "sp - 8" "wr (sp - 8) v m"] Cons.prems show ?thesis
      by (simp add: algebra_simps)
  qed
qed

lemma rd_slot:
  assumes "j < length vs" and "8 * length vs < 2 ^ 64"
  shows "rd (pushes wr sp vs m) (sp - 8 * of_nat (length vs) + 8 * of_nat j) = vs ! (length vs - Suc j)"
proof -
  have at: "sp - 8 * of_nat (Suc (length vs - Suc j)) = sp - 8 * of_nat (length vs) + 8 * of_nat j"
    using assms(1) by (simp add: of_nat_diff algebra_simps)
  show ?thesis unfolding at [symmetric] by (rule rd_pushed) (use assms in simp_all)
qed

lemma rd_beyond:
  assumes "8 * (length vs + k + 1) \<le> 2 ^ 64"
  shows "rd (pushes wr sp vs m) (sp + 8 * of_nat k) = rd m (sp + 8 * of_nat k)"
proof -
  have "unat (8 * of_nat k :: uint64) = 8 * k"
    using assms unat_of_nat_small [of "8 * k"] by simp
  with assms show ?thesis by (intro rd_above) simp
qed

end

interpretation q8: quad_memory read64 write64
proof unfold_locales
  fix a b :: uintptr and v and m :: mem8
  show "read64 (write64 a v m) a = v"
    using load_store_same [of "bytes_of v" m a] by (simp add: read64_def write64_def word_of_bytes_of)
  assume "8 \<le> unat (b - a)" "8 \<le> unat (a - b)"
  from blocks_apart [OF this] have "write64 a v m x = m x" if "x \<in> block b 8" for x
    using that by (simp add: write64_def store_other)
  then have "load (write64 a v m) b 8 = load m b 8"
    using load_cong [of b 8 "write64 a v m" m 0] by simp
  then show "read64 (write64 a v m) b = read64 m b" by (simp add: read64_def)
qed
section \<open>Registers and frames\<close>

text \<open>\<^verbatim>\<open>struct pt_regs\<close>, and the offsets of its members that the assembly uses.\<close>

record pt_regs =
  pt_r15 :: uint64
  pt_r14 :: uint64
  pt_r13 :: uint64
  pt_r12 :: uint64
  pt_r11 :: uint64
  pt_r10 :: uint64
  pt_r9 :: uint64
  pt_r8 :: uint64
  pt_rbx :: uint64
  pt_rcx :: uint64
  pt_rdx :: uint64
  pt_rsi :: uint64
  pt_rdi :: uint64
  pt_rbp :: uint64
  pt_ds :: uint64
  pt_es :: uint64
  pt_rax :: uint64
  pt_func :: uint64
  pt_errcode :: uint64
  pt_rip :: uint64
  pt_cs :: uint64
  pt_rflags :: uint64
  pt_rsp :: uint64
  pt_ss :: uint64

definition R15 :: uint64 where "R15 = 0x00"
definition R14 :: uint64 where "R14 = 0x08"
definition R13 :: uint64 where "R13 = 0x10"
definition R12 :: uint64 where "R12 = 0x18"
definition R11 :: uint64 where "R11 = 0x20"
definition R9 :: uint64 where "R9 = 0x30"
definition R8 :: uint64 where "R8 = 0x38"
definition RBX :: uint64 where "RBX = 0x40"
definition RCX :: uint64 where "RCX = 0x48"
definition RDX :: uint64 where "RDX = 0x50"
definition RSI :: uint64 where "RSI = 0x58"
definition RDI :: uint64 where "RDI = 0x60"
definition RBP :: uint64 where "RBP = 0x68"
definition DS :: uint64 where "DS = 0x70"
definition ES :: uint64 where "ES = 0x78"
definition RAX :: uint64 where "RAX = 0x80"
definition FUNC :: uint64 where "FUNC = 0x88"
definition ERRCODE :: uint64 where "ERRCODE = 0x90"
definition RIP :: uint64 where "RIP = 0x98"
definition CS :: uint64 where "CS = 0xa0"
definition RFLAGS :: uint64 where "RFLAGS = 0xa8"
definition OLDRSP :: uint64 where "OLDRSP = 0xb0"
definition OLDSS :: uint64 where "OLDSS = 0xb8"

lemmas offset_defs [layout_simps] = R15_def R14_def R13_def R12_def R11_def R9_def R8_def RBX_def RCX_def RDX_def
  RSI_def RDI_def RBP_def DS_def ES_def RAX_def FUNC_def ERRCODE_def RIP_def CS_def RFLAGS_def
  OLDRSP_def OLDSS_def

text \<open>The members from the frame; \<open>linkage.h\<close> has no name for the offset of \<^verbatim>\<open>r10\<close>.\<close>

definition read_pt_regs :: "mem8 \<Rightarrow> uintptr \<Rightarrow> pt_regs" where
  "read_pt_regs m a = \<lparr>pt_r15 = read64 m (a + R15), pt_r14 = read64 m (a + R14), pt_r13 = read64 m (a + R13),
     pt_r12 = read64 m (a + R12), pt_r11 = read64 m (a + R11), pt_r10 = read64 m (a + 0x28),
     pt_r9 = read64 m (a + R9), pt_r8 = read64 m (a + R8), pt_rbx = read64 m (a + RBX),
     pt_rcx = read64 m (a + RCX), pt_rdx = read64 m (a + RDX), pt_rsi = read64 m (a + RSI),
     pt_rdi = read64 m (a + RDI), pt_rbp = read64 m (a + RBP), pt_ds = read64 m (a + DS),
     pt_es = read64 m (a + ES), pt_rax = read64 m (a + RAX), pt_func = read64 m (a + FUNC),
     pt_errcode = read64 m (a + ERRCODE), pt_rip = read64 m (a + RIP), pt_cs = read64 m (a + CS),
     pt_rflags = read64 m (a + RFLAGS), pt_rsp = read64 m (a + OLDRSP), pt_ss = read64 m (a + OLDSS)\<rparr>"

datatype reg = Rax | Rbx | Rcx | Rdx | Rsi | Rdi | Rbp | Rsp
  | Gr8 | Gr9 | Gr10 | Gr11 | Gr12 | Gr13 | Gr14 | Gr15

record machine =
  gpr :: "reg \<Rightarrow> uint64"
  m_ds :: uint16
  m_es :: uint16
  m_rip :: uint64
  m_cs :: uint64
  m_rflags :: uint64
  m_ss :: uint64
  m_mem :: mem8

text \<open>
  The instructions the entry code uses, the source operand first. A selector is zero-extended
  when it is read, and its low 16 bits are loaded.
\<close>

datatype instr =
    Push reg | PushI uint64 | Pop reg
  | FromDs reg | FromEs reg | ToDs reg | ToEs reg
  | Mov reg reg | MovI uint64 reg | Xor reg reg | AddI uint64 reg
  | LoadAt uint64 reg reg | XchgTop reg | Cld | Iretq

definition set_reg :: "reg \<Rightarrow> uint64 \<Rightarrow> machine \<Rightarrow> machine" where
  "set_reg r v s = s\<lparr>gpr := (gpr s)(r := v)\<rparr>"

definition push64 :: "uint64 \<Rightarrow> machine \<Rightarrow> machine" where
  "push64 v s = s\<lparr>gpr := (gpr s)(Rsp := gpr s Rsp - 8), m_mem := write64 (gpr s Rsp - 8) v (m_mem s)\<rparr>"

definition pop64 :: "machine \<Rightarrow> uint64 \<times> machine" where
  "pop64 s = (read64 (m_mem s) (gpr s Rsp), set_reg Rsp (gpr s Rsp + 8) s)"

fun exec :: "instr \<Rightarrow> machine \<Rightarrow> machine" where
  "exec (Push r) s = push64 (gpr s r) s"
| "exec (PushI v) s = push64 v s"
| "exec (Pop r) s = (let (v, s1) = pop64 s in set_reg r v s1)"
| "exec (FromDs r) s = set_reg r (ucast (m_ds s)) s"
| "exec (FromEs r) s = set_reg r (ucast (m_es s)) s"
| "exec (ToDs r) s = s\<lparr>m_ds := ucast (gpr s r)\<rparr>"
| "exec (ToEs r) s = s\<lparr>m_es := ucast (gpr s r)\<rparr>"
| "exec (Mov a b) s = set_reg b (gpr s a) s"
| "exec (MovI v b) s = set_reg b v s"
| "exec (Xor a b) s = set_reg b (gpr s b XOR gpr s a) s"
| "exec (AddI v b) s = set_reg b (gpr s b + v) s"
| "exec (LoadAt d a b) s = set_reg b (read64 (m_mem s) (gpr s a + d)) s"
| "exec (XchgTop r) s =
     (set_reg r (read64 (m_mem s) (gpr s Rsp)) s)\<lparr>m_mem := write64 (gpr s Rsp) (gpr s r) (m_mem s)\<rparr>"
| "exec Cld s = s\<lparr>m_rflags := m_rflags s AND NOT 0x400\<rparr>"
| "exec Iretq s =
     (let (ip, s1) = pop64 s; (cs, s2) = pop64 s1; (fl, s3) = pop64 s2; (sp, s4) = pop64 s3; (ss, s5) = pop64 s4
      in (set_reg Rsp sp s5)\<lparr>m_rip := ip, m_cs := cs, m_rflags := fl, m_ss := ss\<rparr>)"

definition run :: "instr list \<Rightarrow> machine \<Rightarrow> machine" where
  "run is s = foldl (\<lambda>s i. exec i s) s is"

definition SAVE_ALL :: "instr list" where
  "SAVE_ALL = [Cld, Push Rax, Push Rax, FromEs Rax, Push Rax, FromDs Rax, Push Rax, Xor Rax Rax,
     Push Rbp, Push Rdi, Push Rsi, Push Rdx, Push Rcx, Push Rbx, Push Gr8, Push Gr9, Push Gr10,
     Push Gr11, Push Gr12, Push Gr13, Push Gr14, Push Gr15, MovI 0x10 Rdx, ToDs Rdx, ToEs Rdx]"

text \<open>\<^verbatim>\<open>IRQ##nr##_interrupt\<close> up to the jump to \<^verbatim>\<open>do_IRQ\<close>; its first argument is the address of
  \<^verbatim>\<open>ret_from_intr\<close>, which it pushes as the return address of \<^verbatim>\<open>do_IRQ\<close>.\<close>

definition Build_IRQ :: "uintptr \<Rightarrow> uint64 \<Rightarrow> instr list" where
  "Build_IRQ ret_from_intr nr =
     [PushI 0x00] @ SAVE_ALL @ [Mov Rsp Rdi, MovI ret_from_intr Rax, Push Rax, MovI nr Rsi]"

text \<open>\<^verbatim>\<open>RSETORE_ALL\<close>, where \<^verbatim>\<open>ret_from_intr\<close> jumps to.\<close>

definition RSETORE_ALL :: "instr list" where
  "RSETORE_ALL = [Pop Gr15, Pop Gr14, Pop Gr13, Pop Gr12, Pop Gr11, Pop Gr10, Pop Gr9, Pop Gr8,
     Pop Rbx, Pop Rcx, Pop Rdx, Pop Rsi, Pop Rdi, Pop Rbp, Pop Rax, ToDs Rax, Pop Rax, ToEs Rax,
     Pop Rax, AddI 0x10 Rsp, Iretq]"
section \<open>Entering and leaving\<close>

lemma run_simps [simp]:
  "run [] s = s"
  "run (i # is) s = run is (exec i s)"
  by (simp_all add: run_def)

lemma run_append: "run (is @ js) s = run js (run is s)"
  by (simp add: run_def)

lemma set_reg_simps [simp]:
  "gpr (set_reg r v s) = (gpr s)(r := v)" "m_mem (set_reg r v s) = m_mem s"
  "m_ds (set_reg r v s) = m_ds s" "m_es (set_reg r v s) = m_es s" "m_rip (set_reg r v s) = m_rip s"
  "m_cs (set_reg r v s) = m_cs s" "m_rflags (set_reg r v s) = m_rflags s" "m_ss (set_reg r v s) = m_ss s"
  by (simp_all add: set_reg_def)

lemma pushes_append:
  "pushes wr sp (us @ vs) m = pushes wr (sp - 8 * of_nat (length us)) vs (pushes wr sp us m)"
  by (induction us arbitrary: sp m) (simp_all add: algebra_simps)

lemma write64_outside: "x \<notin> block a 8 \<Longrightarrow> write64 a v m x = m x"
  by (simp add: write64_def store_other)

text \<open>What is pushed stays below the top of the stack.\<close>

lemma pushes_other:
  "8 * length vs < 2 ^ 64 \<Longrightarrow> x \<notin> block (sp - 8 * of_nat (length vs)) (8 * length vs) \<Longrightarrow> pushes write64 sp vs m x = m x"
proof (induction vs arbitrary: sp m)
  case Nil
  then show ?case by simp
next
  case (Cons v vs)
  define n where "n = 8 * length vs"
  have below: "sp - 8 * of_nat (length (v # vs)) = sp - 8 - of_nat n" by (simp add: n_def algebra_simps)
  have out: "\<not> unat (x - (sp - 8 - of_nat n)) < n + 8"
    using Cons.prems(2) unfolding below by (simp add: block_iff n_def)
  have up: "x - (sp - 8 - of_nat n) = (x - (sp - 8)) + of_nat n" by simp
  have "\<not> unat (x - (sp - 8)) < 8"
  proof
    assume "unat (x - (sp - 8)) < 8"
    then have "unat ((x - (sp - 8)) + of_nat n) = unat (x - (sp - 8)) + n"
      using Cons.prems(1) by (intro unat_add_nat) (simp add: n_def)
    with out up \<open>unat (x - (sp - 8)) < 8\<close> show False by simp
  qed
  then have "write64 (sp - 8) v m x = m x" by (simp add: write64_def store_other block_iff)
  moreover have "pushes write64 (sp - 8) vs (write64 (sp - 8) v m) x = write64 (sp - 8) v m x"
    using out Cons.prems(1) by (intro Cons.IH) (auto simp: block_iff n_def)
  ultimately show ?case by simp
qed

text \<open>A run of pushes or pops is one update of the machine.\<close>

lemma run_pushes:
  "Rsp \<notin> set rs \<Longrightarrow> run (map Push rs) s =
     s\<lparr>gpr := (gpr s)(Rsp := gpr s Rsp - 8 * of_nat (length rs)),
       m_mem := pushes write64 (gpr s Rsp) (map (gpr s) rs) (m_mem s)\<rparr>"
proof (induction rs arbitrary: s)
  case Nil
  then show ?case by simp
next
  case (Cons r rs)
  then have "map (gpr (push64 (gpr s r) s)) rs = map (gpr s) rs"
    by (auto simp: push64_def)
  with Cons show ?case
    by (intro machine.equality) (auto simp: push64_def algebra_simps)
qed

fun pops :: "reg list \<Rightarrow> mem8 \<Rightarrow> uintptr \<Rightarrow> (reg \<Rightarrow> uint64) \<Rightarrow> reg \<Rightarrow> uint64" where
  "pops [] m sp g = g(Rsp := sp)"
| "pops (r # rs) m sp g = pops rs m (sp + 8) (g(r := read64 m sp))"

lemma pops_Rsp: "Rsp \<notin> set rs \<Longrightarrow> pops rs m sp (g(Rsp := a)) = pops rs m sp g"
  by (induction rs arbitrary: sp g) (auto simp: fun_upd_twist [where a = Rsp])

lemma run_pops:
  "Rsp \<notin> set rs \<Longrightarrow> run (map Pop rs) s = s\<lparr>gpr := pops rs (m_mem s) (gpr s Rsp) (gpr s)\<rparr>"
proof (induction rs arbitrary: s)
  case Nil
  then show ?case by simp
next
  case (Cons r rs)
  then have "pops rs m sp ((gpr s)(Rsp := a, r := b)) = pops rs m sp ((gpr s)(r := b))" for m sp a b
    using pops_Rsp [of rs m sp "(gpr s)(r := b)" a] by (simp add: fun_upd_twist [where a = Rsp])
  with Cons show ?case by (simp add: pop64_def set_reg_def)
qed

text \<open>Each register takes the quadword at its place.\<close>

lemma pops_other: "r \<noteq> Rsp \<Longrightarrow> r \<notin> set rs \<Longrightarrow> pops rs m sp g r = g r"
  by (induction rs arbitrary: sp g) auto

lemma pops_sp: "Rsp \<notin> set rs \<Longrightarrow> pops rs m sp g Rsp = sp + 8 * of_nat (length rs)"
  by (induction rs arbitrary: sp g) (auto simp: algebra_simps)

lemma pops_nth:
  "distinct rs \<Longrightarrow> Rsp \<notin> set rs \<Longrightarrow> i < length rs \<Longrightarrow>
   pops rs m sp g (rs ! i) = read64 m (sp + 8 * of_nat i)"
proof (induction rs arbitrary: sp g i)
  case Nil
  then show ?case by simp
next
  case (Cons r rs)
  show ?case
  proof (cases i)
    case 0
    with Cons.prems show ?thesis by (auto simp: pops_other)
  next
    case (Suc j)
    with Cons.IH [of j] Cons.prems show ?thesis by (simp add: algebra_simps)
  qed
qed

text \<open>What the stub has pushed below the frame of the processor, the last push last.\<close>

definition saved_regs :: "reg list" where
  "saved_regs = [Rbp, Rdi, Rsi, Rdx, Rcx, Rbx, Gr8, Gr9, Gr10, Gr11, Gr12, Gr13, Gr14, Gr15]"

definition saved :: "machine \<Rightarrow> uint64 list" where
  "saved s = [0, gpr s Rax, gpr s Rax, ucast (m_es s), ucast (m_ds s)] @ map (gpr s) saved_regs"

lemma Build_IRQ_parts:
  "Build_IRQ ret nr = [PushI 0, Cld, Push Rax, Push Rax, FromEs Rax, Push Rax, FromDs Rax, Push Rax, Xor Rax Rax] @
     map Push saved_regs @ [MovI 0x10 Rdx, ToDs Rdx, ToEs Rdx, Mov Rsp Rdi, MovI ret Rax, Push Rax, MovI nr Rsi]"
  by (simp add: Build_IRQ_def SAVE_ALL_def saved_regs_def)

lemma stub_state:
  assumes "s1 = run (Build_IRQ ret nr) s"
  shows "gpr s1 Rdi = gpr s Rsp - 0x98" and "gpr s1 Rsi = nr" and "gpr s1 Rsp = gpr s Rsp - 0xa0"
    and "m_mem s1 = pushes write64 (gpr s Rsp) (saved s @ [ret]) (m_mem s)"
    and "m_ds s1 = 0x10" and "m_es s1 = 0x10" and "m_rflags s1 = m_rflags s AND NOT 0x400"
proof -
  define s0 where "s0 = run [PushI 0, Cld, Push Rax, Push Rax, FromEs Rax, Push Rax, FromDs Rax, Push Rax, Xor Rax Rax] s"
  have g0: "gpr s0 = (gpr s)(Rax := 0, Rsp := gpr s Rsp - 40)"
    unfolding s0_def by (rule ext) (simp add: push64_def)
  have m0: "m_mem s0 = pushes write64 (gpr s Rsp) [0, gpr s Rax, gpr s Rax, ucast (m_es s), ucast (m_ds s)] (m_mem s)"
    unfolding s0_def by (simp add: push64_def)
  have f0: "m_rflags s0 = m_rflags s AND NOT 0x400"
    unfolding s0_def by (simp add: push64_def)
  have same: "map (gpr s0) saved_regs = map (gpr s) saved_regs"
    by (simp add: g0 saved_regs_def)
  have out: "Rsp \<notin> set saved_regs" "length saved_regs = 14" by (simp_all add: saved_regs_def)
  note r = assms [unfolded Build_IRQ_parts, unfolded run_append, folded s0_def, unfolded run_pushes [OF out(1)] same out(2)]
  show "gpr s1 Rdi = gpr s Rsp - 0x98" "gpr s1 Rsi = nr" "gpr s1 Rsp = gpr s Rsp - 0xa0" "m_ds s1 = 0x10" "m_es s1 = 0x10"
    "m_rflags s1 = m_rflags s AND NOT 0x400"
    unfolding r by (simp_all add: push64_def g0 f0)
  show "m_mem s1 = pushes write64 (gpr s Rsp) (saved s @ [ret]) (m_mem s)"
    unfolding r saved_def by (simp add: push64_def g0 m0 pushes_append out)
qed
lemma stub_frame:
  assumes "s1 = run (Build_IRQ ret nr) s"
  shows "j < 19 \<Longrightarrow> read64 (m_mem s1) (gpr s Rsp - 0x98 + 8 * of_nat j) = saved s ! (18 - j)"
    and "k < 5 \<Longrightarrow> read64 (m_mem s1) (gpr s Rsp + 8 * of_nat k) = read64 (m_mem s) (gpr s Rsp + 8 * of_nat k)"
proof -
  have len: "length (saved s) = 19" by (simp add: saved_def saved_regs_def)
  note mem = stub_state(4) [OF assms]
  have last: "(saved s @ [ret]) ! (18 - j) = saved s ! (18 - j)" for j
    using less_Suc_eq_le [of "18 - j" 18] by (simp add: nth_append len)
  show "j < 19 \<Longrightarrow> read64 (m_mem s1) (gpr s Rsp - 0x98 + 8 * of_nat j) = saved s ! (18 - j)"
    using q8.rd_slot [of "Suc j" "saved s @ [ret]" "gpr s Rsp" "m_mem s"] last [of j]
    by (simp add: mem len algebra_simps)
  show "k < 5 \<Longrightarrow> read64 (m_mem s1) (gpr s Rsp + 8 * of_nat k) = read64 (m_mem s) (gpr s Rsp + 8 * of_nat k)"
    using q8.rd_beyond [of "saved s @ [ret]" k "gpr s Rsp" "m_mem s"] by (simp add: mem len)
qed

lemma RSETORE_ALL_parts:
  "RSETORE_ALL = map Pop (rev saved_regs @ [Rax]) @ [ToDs Rax, Pop Rax, ToEs Rax, Pop Rax, AddI 0x10 Rsp, Iretq]"
  by (simp add: RSETORE_ALL_def saved_regs_def)

text \<open>What the exit code makes of a frame at the top of the stack.\<close>

lemma restore_state:
  assumes "t = run RSETORE_ALL s" and "m = m_mem s" and "sp = gpr s Rsp"
  shows "i < 14 \<Longrightarrow> gpr t (rev saved_regs ! i) = read64 m (sp + 8 * of_nat i)"
    and "gpr t Rax = read64 m (sp + 0x80)"
    and "m_ds t = ucast (read64 m (sp + 0x70))" and "m_es t = ucast (read64 m (sp + 0x78))"
    and "m_rip t = read64 m (sp + 0x98)" and "m_cs t = read64 m (sp + 0xa0)"
    and "m_rflags t = read64 m (sp + 0xa8)" and "gpr t Rsp = read64 m (sp + 0xb0)"
    and "m_ss t = read64 m (sp + 0xb8)" and "m_mem t = m"
proof -
  let ?rs = "rev saved_regs @ [Rax]"
  have out: "distinct ?rs" "Rsp \<notin> set ?rs" "length ?rs = 15" "length saved_regs = 14"
    by (simp_all add: saved_regs_def)
  define g where "g = pops ?rs m sp (gpr s)"
  have nth: "i < 15 \<Longrightarrow> g (?rs ! i) = read64 m (sp + 8 * of_nat i)" for i
    unfolding g_def using pops_nth [OF out(1,2)] out(3) by simp
  have rax: "g Rax = read64 m (sp + 0x70)" using nth [of 14] by (simp add: nth_append out(4))
  have rsp: "g Rsp = sp + 0x78" unfolding g_def using pops_sp [OF out(2), of m sp "gpr s"] out(4) by simp
  note r = assms(1) [unfolded RSETORE_ALL_parts, unfolded run_append, unfolded run_pops [OF out(2)], folded assms(2,3), folded g_def]
  {
    assume i: "i < 14"
    then have "rev saved_regs ! i \<in> set (rev saved_regs)" by (intro nth_mem) (simp add: out(4))
    then have "rev saved_regs ! i \<noteq> Rax \<and> rev saved_regs ! i \<noteq> Rsp" by (auto simp: saved_regs_def)
    then have "gpr t (rev saved_regs ! i) = g (rev saved_regs ! i)"
      unfolding r by (simp add: pop64_def Let_def)
    with nth [of i] i show "gpr t (rev saved_regs ! i) = read64 m (sp + 8 * of_nat i)"
      by (simp add: nth_append out(4))
  }
  show "gpr t Rax = read64 m (sp + 0x80)" "m_ds t = ucast (read64 m (sp + 0x70))"
    "m_es t = ucast (read64 m (sp + 0x78))" "m_rip t = read64 m (sp + 0x98)"
    "m_cs t = read64 m (sp + 0xa0)" "m_rflags t = read64 m (sp + 0xa8)"
    "gpr t Rsp = read64 m (sp + 0xb0)" "m_ss t = read64 m (sp + 0xb8)" "m_mem t = m"
    unfolding r by (simp_all add: pop64_def Let_def rax rsp assms(2) add.commute)
qed

lemma selector_back: "ucast (ucast (x :: uint16) :: uint64) = x"
  by (rule bit_word_eqI) (simp add: bit_unsigned_iff)

text \<open>The members of \<^verbatim>\<open>struct pt_regs\<close> are where the stub pushes them.\<close>

lemma stub_builds_pt_regs:
  assumes "s1 = run (Build_IRQ ret nr) s"
  shows "read_pt_regs (m_mem s1) (gpr s1 Rdi) =
    \<lparr>pt_r15 = gpr s Gr15, pt_r14 = gpr s Gr14, pt_r13 = gpr s Gr13, pt_r12 = gpr s Gr12,
     pt_r11 = gpr s Gr11, pt_r10 = gpr s Gr10, pt_r9 = gpr s Gr9, pt_r8 = gpr s Gr8, pt_rbx = gpr s Rbx,
     pt_rcx = gpr s Rcx, pt_rdx = gpr s Rdx, pt_rsi = gpr s Rsi, pt_rdi = gpr s Rdi, pt_rbp = gpr s Rbp,
     pt_ds = ucast (m_ds s), pt_es = ucast (m_es s), pt_rax = gpr s Rax, pt_func = gpr s Rax, pt_errcode = 0,
     pt_rip = read64 (m_mem s) (gpr s Rsp), pt_cs = read64 (m_mem s) (gpr s Rsp + 8),
     pt_rflags = read64 (m_mem s) (gpr s Rsp + 16), pt_rsp = read64 (m_mem s) (gpr s Rsp + 24),
     pt_ss = read64 (m_mem s) (gpr s Rsp + 32)\<rparr>"
proof -
  note f = stub_frame [OF assms]
  show ?thesis
    using f(1) [of 0] f(1) [of 1] f(1) [of 2] f(1) [of 3] f(1) [of 4] f(1) [of 5] f(1) [of 6] f(1) [of 7]
      f(1) [of 8] f(1) [of 9] f(1) [of 10] f(1) [of 11] f(1) [of 12] f(1) [of 13] f(1) [of 14] f(1) [of 15]
      f(1) [of 16] f(1) [of 17] f(1) [of 18] f(2) [of 0] f(2) [of 1] f(2) [of 2] f(2) [of 3] f(2) [of 4]
    by (simp add: read_pt_regs_def offset_defs stub_state(1) [OF assms] saved_def saved_regs_def add.commute)
qed

section \<open>Exceptions\<close>

text \<open>
  \<^verbatim>\<open>src/entry.sx\<close>: a stub pushes a place holder if the processor pushed no error code, and the
  address of its handler, and jumps to \<^verbatim>\<open>error_code\<close>, here up to the call \<^verbatim>\<open>callq *%rdx\<close>.
\<close>

definition error_code_entry :: "instr list" where
  "error_code_entry = [Push Rax, FromEs Rax, Push Rax, FromDs Rax, Push Rax, Xor Rax Rax,
     Push Rbp, Push Rdi, Push Rsi, Push Rdx, Push Rcx, Push Rbx, Push Gr8, Push Gr9, Push Gr10,
     Push Gr11, Push Gr12, Push Gr13, Push Gr14, Push Gr15, Cld, LoadAt ERRCODE Rsp Rsi,
     LoadAt FUNC Rsp Rdx, MovI 0x10 Rdi, ToDs Rdi, ToEs Rdi, Mov Rsp Rdi]"

definition exception_stub :: "bool \<Rightarrow> uintptr \<Rightarrow> instr list" where
  "exception_stub has_code handler =
     (if has_code then [] else [PushI 0]) @ [Push Rax, MovI handler Rax, XchgTop Rax] @ error_code_entry"

text \<open>The processor's frame starts above the error code, where there is one.\<close>

definition frame_top :: "bool \<Rightarrow> machine \<Rightarrow> uintptr" where
  "frame_top has_code s = (if has_code then gpr s Rsp + 8 else gpr s Rsp)"

definition code_of :: "bool \<Rightarrow> machine \<Rightarrow> uint64" where
  "code_of has_code s = (if has_code then read64 (m_mem s) (gpr s Rsp) else 0)"

lemma write64_twice: "write64 a v (write64 a w m) = write64 a v m"
  by (rule ext) (simp add: write64_def store_eq)

definition pushed :: "uintptr \<Rightarrow> machine \<Rightarrow> uint64 list" where
  "pushed handler s = [handler, gpr s Rax, ucast (m_es s), ucast (m_ds s)] @ map (gpr s) saved_regs"

lemma exception_stub_parts:
  "exception_stub has_code h = ((if has_code then [] else [PushI 0]) @ [Push Rax, MovI h Rax, XchgTop Rax,
     Push Rax, FromEs Rax, Push Rax, FromDs Rax, Push Rax, Xor Rax Rax]) @ map Push saved_regs @
     [Cld, LoadAt ERRCODE Rsp Rsi, LoadAt FUNC Rsp Rdx, MovI 0x10 Rdi, ToDs Rdi, ToEs Rdi, Mov Rsp Rdi]"
  by (simp add: exception_stub_def error_code_entry_def saved_regs_def)

lemma exception_state:
  assumes "s1 = run (exception_stub has_code h) s"
  shows "gpr s1 Rdi = frame_top has_code s - 0x98" and "gpr s1 Rsp = frame_top has_code s - 0x98"
    and "gpr s1 Rsi = code_of has_code s" and "gpr s1 Rdx = h"
    and "k < 5 \<Longrightarrow> read64 (m_mem s1) (frame_top has_code s + 8 * of_nat k) =
      read64 (m_mem s) (frame_top has_code s + 8 * of_nat k)"
proof -
  define base where "base = frame_top has_code s - 8"
  define mb where "mb = (if has_code then m_mem s else write64 base 0 (m_mem s))"
  define s0 where "s0 = run ((if has_code then [] else [PushI 0]) @ [Push Rax, MovI h Rax, XchgTop Rax,
     Push Rax, FromEs Rax, Push Rax, FromDs Rax, Push Rax, Xor Rax Rax]) s"
  have g0: "gpr s0 = (gpr s)(Rax := 0, Rsp := base - 32)"
    unfolding s0_def base_def frame_top_def by (rule ext) (simp add: push64_def q8.rd_same)
  have m0: "m_mem s0 = pushes write64 base [h, gpr s Rax, ucast (m_es s), ucast (m_ds s)] mb"
    unfolding s0_def base_def frame_top_def mb_def by (simp add: push64_def q8.rd_same write64_twice)
  have same: "map (gpr s0) saved_regs = map (gpr s) saved_regs" by (simp add: g0 saved_regs_def)
  have out: "Rsp \<notin> set saved_regs" "length saved_regs = 14" "length (pushed h s) = 18"
    by (simp_all add: saved_regs_def pushed_def)
  note r = assms [unfolded exception_stub_parts, unfolded run_append [of _ "map Push saved_regs @ _"], folded s0_def,
      unfolded run_append run_pushes [OF out(1)] same out(2)]
  have mem: "m_mem s1 = pushes write64 base (pushed h s) mb"
    unfolding r pushed_def by (simp add: g0 m0 pushes_append out)
  have code: "read64 mb base = code_of has_code s"
    by (simp add: mb_def code_of_def base_def frame_top_def q8.rd_same)
  show "gpr s1 Rdi = frame_top has_code s - 0x98" "gpr s1 Rsp = frame_top has_code s - 0x98"
    unfolding r by (simp_all add: g0 base_def)
  show "gpr s1 Rsi = code_of has_code s"
    unfolding r using q8.rd_beyond [of "pushed h s" 0 base mb] mem code
    by (simp add: r g0 base_def offset_defs out)
  show "gpr s1 Rdx = h"
    unfolding r using q8.rd_slot [of 17 "pushed h s" base mb] mem
    by (simp add: r g0 base_def offset_defs out pushed_def)
  assume k: "k < 5"
  have "read64 (m_mem s1) (base + 8 * of_nat (Suc k)) = read64 mb (base + 8 * of_nat (Suc k))"
    unfolding mem by (rule q8.rd_beyond) (use k out in simp)
  moreover have "read64 mb (base + 8 * of_nat (Suc k)) = read64 (m_mem s) (base + 8 * of_nat (Suc k))"
    using q8.rd_beyond [of "[0]" k "base + 8" "m_mem s"] k by (simp add: mb_def algebra_simps)
  ultimately show "read64 (m_mem s1) (frame_top has_code s + 8 * of_nat k) =
      read64 (m_mem s) (frame_top has_code s + 8 * of_nat k)"
    by (simp add: base_def)
qed

text \<open>
  An interrupt returns to what it interrupted. Whatever the stub's handler does, if it
  leaves the frame of 24 quadwords on the stack and pops its return address, \<^verbatim>\<open>RSETORE_ALL\<close> gives
  every general register, \<^verbatim>\<open>ds\<close> and \<^verbatim>\<open>es\<close> the value it had when the stub was entered, and
  \<^verbatim>\<open>rip\<close>, \<^verbatim>\<open>cs\<close>, \<^verbatim>\<open>rflags\<close>, \<^verbatim>\<open>rsp\<close> and \<^verbatim>\<open>ss\<close> what the processor had pushed.
\<close>

theorem interrupt_returns:
  assumes "s1 = run (Build_IRQ ret nr) s" and "gpr s2 Rsp = gpr s1 Rsp + 8"
    and "\<forall>j < 24. read64 (m_mem s2) (gpr s2 Rsp + 8 * of_nat j) = read64 (m_mem s1) (gpr s2 Rsp + 8 * of_nat j)"
    and "t = run RSETORE_ALL s2"
  shows "(\<forall>r. gpr t r = (if r = Rsp then read64 (m_mem s) (gpr s Rsp + 24) else gpr s r)) \<and>
    m_ds t = m_ds s \<and> m_es t = m_es s \<and> m_rip t = read64 (m_mem s) (gpr s Rsp) \<and>
    m_cs t = read64 (m_mem s) (gpr s Rsp + 8) \<and> m_rflags t = read64 (m_mem s) (gpr s Rsp + 16) \<and>
    m_ss t = read64 (m_mem s) (gpr s Rsp + 32)"
proof -
  let ?sp = "gpr s Rsp" and ?m = "m_mem s2"
  have sp: "gpr s2 Rsp = ?sp - 0x98" using assms(2) stub_state(3) [OF assms(1)] by simp
  note f = stub_frame [OF assms(1)]
  note same = assms(3) [rule_format, unfolded sp]
  have slot: "read64 ?m (?sp - 0x98 + 8 * of_nat j) = saved s ! (18 - j)" if "j < 19" for j
    using same [of j] f(1) [OF that] that by simp
  have above: "read64 ?m (?sp + 8 * of_nat k) = read64 (m_mem s) (?sp + 8 * of_nat k)" if "k < 5" for k
    using same [of "19 + k"] f(2) [OF that] that by (simp add: algebra_simps)
  note r = restore_state [OF assms(4) refl refl, unfolded sp]
  have len: "length saved_regs = 14" by (simp add: saved_regs_def)
  have "gpr t (rev saved_regs ! i) = gpr s (rev saved_regs ! i)" if "i < 14" for i
    using r(1) [OF that] slot [of i] that
    by (simp add: saved_def nth_append rev_nth len)
  then have "\<forall>r \<in> set (rev saved_regs). gpr t r = gpr s r"
    by (metis in_set_conv_nth length_rev len)
  then have regs: "\<forall>r. r \<noteq> Rsp \<longrightarrow> r \<noteq> Rax \<longrightarrow> gpr t r = gpr s r"
    by (auto simp: saved_regs_def intro: reg.exhaust)
  show ?thesis
    using r slot [of 14] slot [of 15] slot [of 16] above [of 0] above [of 1] above [of 2] above [of 3] above [of 4] regs
    by (auto simp: saved_def selector_back add.commute)
qed

section \<open>Properties\<close>

definition interrupted :: machine where
  "interrupted = \<lparr>gpr = (\<lambda>r. if r = Rsp then 0x7000 else 5), m_ds = 0x10, m_es = 0x10, m_rip = 0, m_cs = 8,
     m_rflags = 0x46, m_ss = 0x10, m_mem = write64 0x7000 0xffff800000104000 (\<lambda>_. 0)\<rparr>"

definition handled :: "machine \<Rightarrow> machine" where
  "handled s = set_reg Rax 0x20 (set_reg Rsp (gpr s Rsp + 8) s)"

theorem interrupt_returns_witness:
  "gpr (run RSETORE_ALL (handled (run (Build_IRQ 0xffff800000104200 0x21) interrupted))) Rax = 5 \<and>
   m_rip (run RSETORE_ALL (handled (run (Build_IRQ 0xffff800000104200 0x21) interrupted))) = 0xffff800000104000"
  using interrupt_returns [OF refl, of "handled (run (Build_IRQ 0xffff800000104200 0x21) interrupted)"
      "0xffff800000104200" "0x21" interrupted, OF _ _ refl]
  by (simp add: handled_def interrupted_def q8.rd_same)

end
