(* ===== verification/Mem_Entry.thy ===== *)
theory Mem_Entry
  imports Mem_Types Entry
begin

text \<open>
  The entries of the paging tables in \<^verbatim>\<open>include/memory.h\<close>: the attribute bits, and for each of the four
  levels the macro that makes an entry and the one that stores it. Reading an entry the way the
  processor does, the frame from bit 12 to bit 51 and the attributes beside it, is documented behaviour.
\<close>

section \<open>Attributes\<close>

definition PAGE_XD :: uint64 where "PAGE_XD = 0x1000000000000000"
definition PAGE_PAT :: uint64 where "PAGE_PAT = 0x1000"
definition PAGE_Global :: uint64 where "PAGE_Global = 0x0100"
definition PAGE_PS :: uint64 where "PAGE_PS = 0x0080"
definition PAGE_Dirty :: uint64 where "PAGE_Dirty = 0x0040"
definition PAGE_Accessed :: uint64 where "PAGE_Accessed = 0x0020"
definition PAGE_PCD :: uint64 where "PAGE_PCD = 0x0010"
definition PAGE_PWT :: uint64 where "PAGE_PWT = 0x0008"
definition PAGE_U_S :: uint64 where "PAGE_U_S = 0x0004"
definition PAGE_R_W :: uint64 where "PAGE_R_W = 0x0002"
definition PAGE_Present :: uint64 where "PAGE_Present = 0x0001"

definition PAGE_KERNEL_GDT :: uint64 where "PAGE_KERNEL_GDT = PAGE_R_W OR PAGE_Present"
definition PAGE_KERNEL_Dir :: uint64 where "PAGE_KERNEL_Dir = PAGE_R_W OR PAGE_Present"
definition PAGE_KERNEL_Page :: uint64 where "PAGE_KERNEL_Page = PAGE_PS OR PAGE_R_W OR PAGE_Present"
definition PAGE_USER_Dir :: uint64 where "PAGE_USER_Dir = PAGE_U_S OR PAGE_R_W OR PAGE_Present"
definition PAGE_USER_Page :: uint64 where "PAGE_USER_Page = PAGE_PS OR PAGE_U_S OR PAGE_R_W OR PAGE_Present"

lemmas page_attr_defs = PAGE_XD_def PAGE_PAT_def PAGE_Global_def PAGE_PS_def PAGE_Dirty_def PAGE_Accessed_def
  PAGE_PCD_def PAGE_PWT_def PAGE_U_S_def PAGE_R_W_def PAGE_Present_def
lemmas page_kind_defs = PAGE_KERNEL_GDT_def PAGE_KERNEL_Dir_def PAGE_KERNEL_Page_def PAGE_USER_Dir_def PAGE_USER_Page_def

section \<open>The four levels\<close>

text \<open>The structures of one \<^verbatim>\<open>uintptr\<close> each that an entry is.\<close>

type_synonym pml4t_t = uint64
type_synonym pdpt_t = uint64
type_synonym pdt_t = uint64
type_synonym pt_t = uint64

definition mk_mpl4t :: "uintptr \<Rightarrow> uint64 \<Rightarrow> pml4t_t" where
  "mk_mpl4t addr attr = addr OR attr"

definition mk_pdpt :: "uintptr \<Rightarrow> uint64 \<Rightarrow> pdpt_t" where
  "mk_pdpt addr attr = addr OR attr"

definition mk_pdt :: "uintptr \<Rightarrow> uint64 \<Rightarrow> pdt_t" where
  "mk_pdt addr attr = addr OR attr"

definition mk_pt :: "uintptr \<Rightarrow> uint64 \<Rightarrow> pt_t" where
  "mk_pt addr attr = addr OR attr"

definition set_mpl4t :: "uintptr \<Rightarrow> pml4t_t \<Rightarrow> mem8 \<Rightarrow> mem8" where
  "set_mpl4t ptr val m = write64 ptr val m"

definition set_pdpt :: "uintptr \<Rightarrow> pdpt_t \<Rightarrow> mem8 \<Rightarrow> mem8" where
  "set_pdpt ptr val m = write64 ptr val m"

definition set_pdt :: "uintptr \<Rightarrow> pdt_t \<Rightarrow> mem8 \<Rightarrow> mem8" where
  "set_pdt ptr val m = write64 ptr val m"

definition set_pt :: "uintptr \<Rightarrow> pt_t \<Rightarrow> mem8 \<Rightarrow> mem8" where
  "set_pt ptr val m = write64 ptr val m"

section \<open>Properties\<close>

text \<open>
  An entry of any of the four levels reads back as it was made. Where \<open>F\<close> are the bits of the
  entry that hold the frame, for an address with no other bits and attributes with none of these, the
  stored entry has the address as frame and the attributes beside it, and no byte outside the eight of
  the entry changes.
\<close>

theorem page_entry_roundtrip:
  assumes "(mk, set_entry) \<in> set [(mk_mpl4t, set_mpl4t), (mk_pdpt, set_pdpt), (mk_pdt, set_pdt), (mk_pt, set_pt)]"
    and "addr AND NOT F = 0" and "attr AND F = 0" and "m' = set_entry ptr (mk addr attr) m"
  shows "read64 m' ptr AND F = addr \<and> read64 m' ptr AND NOT F = attr \<and> (\<forall>x. x \<notin> block ptr 8 \<longrightarrow> m' x = m x)"
proof -
  have mk: "m' = write64 ptr (addr OR attr) m"
    using assms(1,4) by (auto simp: mk_mpl4t_def mk_pdpt_def mk_pdt_def mk_pt_def
        set_mpl4t_def set_pdpt_def set_pdt_def set_pt_def)
  have a: "bit addr i \<longrightarrow> bit F i" and b: "bit attr i \<longrightarrow> \<not> bit F i" if "i < 64" for i
    using that arg_cong [OF assms(2), of "\<lambda>w. bit w i"] arg_cong [OF assms(3), of "\<lambda>w. bit w i"]
    by (auto simp: bit_and_iff bit_not_iff)
  have "(addr OR attr) AND F = addr" "(addr OR attr) AND NOT F = attr"
    using a b by (auto intro!: word64_eqI simp: bit_and_iff bit_or_iff bit_not_iff)
  then show ?thesis by (simp add: mk q8.rd_same write64_outside)
qed

text \<open>The entry of a 2 MB page for the user, whose frame begins at bit 21, at the sample address 6 MB.\<close>

theorem page_entry_roundtrip_witness:
  "read64 (set_pdt 0x103018 (mk_pdt 0x600000 PAGE_USER_Page) (\<lambda>_. 0)) 0x103018 AND 0x000fffffffe00000 = 0x600000 \<and>
   read64 (set_pdt 0x103018 (mk_pdt 0x600000 PAGE_USER_Page) (\<lambda>_. 0)) 0x103018 AND NOT 0x000fffffffe00000 = PAGE_USER_Page"
  using page_entry_roundtrip [OF _ _ _ refl, of mk_pdt set_pdt "0x600000" "0x000fffffffe00000" PAGE_USER_Page "0x103018" "\<lambda>_. 0"]
  by (simp add: page_kind_defs page_attr_defs)

text \<open>
  \<^verbatim>\<open>PAGE_XD\<close>, by its comment the execute-disable bit 63, is bit 60: an entry made with it leaves the
  page executable.
\<close>

theorem page_xd_is_bit_60:
  assumes "addr < 2 ^ 52"
  shows "bit (mk_pt addr PAGE_XD) 60 \<and> \<not> bit (mk_pt addr PAGE_XD) 63"
proof -
  have "addr = take_bit 52 addr"
    using assms by (simp add: take_bit_eq_mod word_less_nat_alt word_unat_eq_iff unat_mod)
  then have "\<not> bit addr 63" by (metis bit_take_bit_iff less_irrefl numeral_less_iff semiring_norm(75-82))
  moreover have "PAGE_XD = push_bit 60 1" by (simp add: PAGE_XD_def)
  then have "bit PAGE_XD n \<longleftrightarrow> n = 60" for n using bit_push_one [of 60 n] by (simp only:) simp
  ultimately show ?thesis by (simp add: mk_pt_def bit_or_iff)
qed

theorem page_xd_is_bit_60_witness: "bit (mk_pt 0x200000 PAGE_XD) 60"
  using page_xd_is_bit_60 [of "0x200000"] by simp

end
