(* ===== verification/Printk_Number.thy ===== *)
theory Printk_Number
  imports Prelude
begin

text \<open>
  Number formatting of \<^verbatim>\<open>src/printk.c\<close>: \<^verbatim>\<open>__skip_atoi\<close> and \<^verbatim>\<open>__number\<close>. A byte is a \<open>char\<close>, an
  \<^verbatim>\<open>int32\<close> an \<open>int\<close> kept in range by \<open>wrap32\<close>, the flags a 32-bit word. What a function writes
  through \<^verbatim>\<open>str\<close> is the list of the bytes.
\<close>

section \<open>Flags, digits and the counting loops\<close>

definition ZEROPAD :: uint32 where "ZEROPAD = 1"
definition SIGN :: uint32 where "SIGN = 2"
definition PLUS :: uint32 where "PLUS = 4"
definition SPACE :: uint32 where "SPACE = 8"
definition LEFT :: uint32 where "LEFT = 16"
definition SPECIAL :: uint32 where "SPECIAL = 32"
definition SMALL :: uint32 where "SMALL = 64"

lemmas flag_defs = ZEROPAD_def SIGN_def PLUS_def SPACE_def LEFT_def SPECIAL_def SMALL_def

definition has :: "uint32 \<Rightarrow> uint32 \<Rightarrow> bool" where
  "has t f \<longleftrightarrow> t AND f \<noteq> 0"

definition is_digit :: "char \<Rightarrow> bool" where
  "is_digit c \<longleftrightarrow> (of_char c :: int) \<ge> 48 \<and> (of_char c :: int) \<le> 57"

fun skip_atoi :: "int \<Rightarrow> string \<Rightarrow> int \<times> string" where
  "skip_atoi i [] = (i, [])"
| "skip_atoi i (c # s) =
     (if is_digit c then skip_atoi (wrap32 (i * 10 + of_char c - 48)) s else (i, c # s))"

text \<open>
  \<^verbatim>\<open>while (n-- > 0) *str++ = c\<close>: the bytes written and the value of \<^verbatim>\<open>n\<close> afterwards.
\<close>

definition spin :: "int \<Rightarrow> char \<Rightarrow> string \<times> int" where
  "spin n c = (if n > 0 then (replicate (nat n) c, - 1) else ([], wrap32 (n - 1)))"

definition upper_digits :: string where
  "upper_digits = ''0123456789ABCDEFGHIJKLMNOPQRSTUVWXYZ''"

definition lower_digits :: string where
  "lower_digits = ''0123456789abcdefghijklmnopqrstuvwxyz''"

text \<open>
  \<^verbatim>\<open>tmp\<close>, least significant digit first. \<^verbatim>\<open>get_remainder\<close> divides without sign, so \<open>num\<close> is the
  64-bit pattern; the base is at least 2 here.
\<close>

function num_digits :: "string \<Rightarrow> uint64 \<Rightarrow> uint64 \<Rightarrow> string" where
  "num_digits ds base num =
     (if num = 0 \<or> base < 2 then []
      else ds ! unat (num mod base) # num_digits ds base (num div base))"
  by pat_completeness auto
termination
proof (relation "measure (\<lambda>(ds, base, num). unat num)")
  fix ds :: string and base num :: uint64
  assume "\<not> (num = 0 \<or> base < 2)"
  then have "unat num > 0" and "unat base \<ge> 2"
    by (auto simp: unat_gt_0 word_less_nat_alt)
  then show "((ds, base, num div base), ds, base, num) \<in> measure (\<lambda>(ds, base, num). unat num)"
    by (simp add: unat_div)
qed simp

declare num_digits.simps [simp del]

section \<open>The routine\<close>

text \<open>
  \<open>None\<close> is the null pointer returned for a base outside 2 to 36. \<^verbatim>\<open>tmp\<close> has 50 places.
\<close>

definition number :: "uint64 \<Rightarrow> int \<Rightarrow> int \<Rightarrow> int \<Rightarrow> uint32 \<Rightarrow> fault + string option" where
  "number num base size0 precision0 type0 =
     (let digits = (if has type0 SMALL then lower_digits else upper_digits);
          t = (if has type0 LEFT then type0 AND NOT ZEROPAD else type0)
      in if base < 2 \<or> base > 36 then Inr None
      else
        (let c = (if has t ZEROPAD then CHR ''0'' else CHR '' '');
             neg = has t SIGN \<and> sint num < 0;
             sign = (if neg then ''-''
                     else if has t PLUS then ''+'' else if has t SPACE then '' '' else []);
             num1 = (if neg then - num else num);
             size1 = (if sign \<noteq> [] then wrap32 (size0 - 1) else size0);
             size2 = (if has t SPECIAL then
                        (if base = 16 then wrap32 (size1 - 2)
                         else if base = 8 then wrap32 (size1 - 1) else size1)
                      else size1);
             tmp = (if num1 = 0 then ''0'' else num_digits digits (of_int base) num1);
             i = int (length tmp);
             precision = (if i > precision0 then i else precision0);
             size3 = wrap32 (size2 - precision);
             (pad1, size4) = (if \<not> has t (ZEROPAD + LEFT) then spin size3 CHR '' '' else ([], size3));
             prefix = (if has t SPECIAL then
                         (if base = 8 then ''0''
                          else if base = 16 then [CHR ''0'', digits ! 33] else [])
                       else []);
             (pad2, size5) = (if \<not> has t LEFT then spin size4 c else ([], size4));
             zeros = replicate (nat (precision - i)) CHR ''0'';
             (pad3, size6) = spin size5 CHR '' ''
         in if length tmp > 50 then Inl ArrayOverflow
            else Inr (Some (pad1 @ sign @ prefix @ pad2 @ zeros @ rev tmp @ pad3))))"

section \<open>Digits\<close>

text \<open>The value of a digit string, most significant digit first.\<close>

fun digit_value :: "char \<Rightarrow> nat" where
  "digit_value c =
     (let v = of_char c :: nat
      in if v < 58 then v - 48 else if v < 91 then v - 55 else v - 87)"

definition string_value :: "nat \<Rightarrow> string \<Rightarrow> nat" where
  "string_value b s = foldl (\<lambda>v c. v * b + digit_value c) 0 s"

lemma digit_tables:
  "map digit_value upper_digits = [0 ..< 36]" "map digit_value lower_digits = [0 ..< 36]"
  by code_simp+

lemma length_digits [simp]: "length upper_digits = 36" "length lower_digits = 36"
  by (simp_all add: upper_digits_def lower_digits_def)

definition digits_of :: "uint32 \<Rightarrow> string" where
  "digits_of t = (if has t SMALL then lower_digits else upper_digits)"

lemma digit_value_nth: "k < 36 \<Longrightarrow> digit_value (digits_of t ! k) = k"
proof -
  assume k: "k < 36"
  have "map digit_value (digits_of t) ! k = [0 ..< 36] ! k"
    by (simp only: digits_of_def digit_tables split: if_split) simp
  moreover have "map digit_value (digits_of t) ! k = digit_value (digits_of t ! k)"
    by (rule nth_map) (use k in \<open>simp add: digits_of_def\<close>)
  moreover have "[0 ..< 36] ! k = k" using k nth_upt [of 0 k 36] by linarith
  ultimately show ?thesis by (simp only:)
qed

lemma string_value_snoc: "string_value b (s @ [c]) = string_value b s * b + digit_value c"
  by (simp add: string_value_def del: digit_value.simps)

lemma num_digits_value:
  assumes "2 \<le> b" and "b \<le> 36"
  shows "string_value (nat b) (rev (num_digits (digits_of t) (of_int b) n)) = unat n"
proof (induction n rule: measure_induct_rule [of unat])
  case (less n)
  have base: "unat (of_int b :: uint64) = nat b"
    using assms unat_of_nat_small [of "nat b"] by simp
  then have ge: "\<not> (of_int b :: uint64) < 2"
    using assms by (simp add: word_less_nat_alt)
  show ?case
  proof (cases "n = 0")
    case True
    then show ?thesis by (subst num_digits.simps) (simp add: string_value_def)
  next
    case False
    have q: "unat (n div of_int b) = unat n div nat b" and r: "unat (n mod of_int b) = unat n mod nat b"
      by (simp_all add: unat_div unat_mod base)
    have "unat n div nat b < unat n"
      using False assms by (simp add: unat_gt_0)
    then have "string_value (nat b) (rev (num_digits (digits_of t) (of_int b) (n div of_int b))) = unat n div nat b"
      using less q by simp
    moreover have "unat n mod nat b < 36"
      by (rule less_le_trans [OF mod_less_divisor]) (use assms in simp_all)
    ultimately show ?thesis
      using False ge assms
      by (subst num_digits.simps) (simp add: string_value_snoc digit_value_nth r del: digit_value.simps)
  qed
qed

lemma num_digits_length:
  assumes "2 \<le> b" and "b \<le> 36" and "unat n < nat b ^ k"
  shows "length (num_digits ds (of_int b) n) \<le> k"
  using assms(3)
proof (induction k arbitrary: n)
  case 0
  then have "n = 0" by (simp add: unat_eq_zero)
  then show ?case by (subst num_digits.simps) simp
next
  case (Suc k)
  have base: "unat (of_int b :: uint64) = nat b"
    using assms unat_of_nat_small [of "nat b"] by simp
  have "unat (n div of_int b) < nat b ^ k"
    using Suc.prems assms by (simp add: unat_div base less_mult_imp_div_less mult.commute)
  with Suc.IH have "length (num_digits ds (of_int b) (n div of_int b)) \<le> k" by simp
  then show ?case by (subst num_digits.simps) simp
qed

section \<open>The layout of a formatted number\<close>

text \<open>
  What \<^verbatim>\<open>__number\<close> is meant to write: the sign, the prefix, the digits extended with zeros to the
  precision, in a field of the width, to the left, to the right, or padded with zeros.
\<close>

definition negative :: "uint64 \<Rightarrow> uint32 \<Rightarrow> bool" where
  "negative num t \<longleftrightarrow> has t SIGN \<and> sint num < 0"

definition sign_text :: "uint64 \<Rightarrow> uint32 \<Rightarrow> string" where
  "sign_text num t = (if negative num t then ''-''
     else if has t PLUS then ''+'' else if has t SPACE then '' '' else [])"

definition prefix_text :: "int \<Rightarrow> uint32 \<Rightarrow> string" where
  "prefix_text base t = (if has t SPECIAL then (if base = 8 then ''0''
     else if base = 16 then [CHR ''0'', digits_of t ! 33] else []) else [])"

definition magnitude :: "uint64 \<Rightarrow> uint32 \<Rightarrow> uint64" where
  "magnitude num t = (if negative num t then - num else num)"

definition digit_text :: "uint64 \<Rightarrow> int \<Rightarrow> uint32 \<Rightarrow> string" where
  "digit_text num base t = (if magnitude num t = 0 then ''0''
     else rev (num_digits (digits_of t) (of_int base) (magnitude num t)))"

definition number_text :: "uint64 \<Rightarrow> int \<Rightarrow> int \<Rightarrow> int \<Rightarrow> uint32 \<Rightarrow> string" where
  "number_text num base width precision t =
     (let front = sign_text num t @ prefix_text base t;
          ds = digit_text num base t;
          body = replicate (nat precision - length ds) CHR ''0'' @ ds;
          pad = nat width - length front - length body
      in if has t LEFT then front @ body @ replicate pad CHR '' ''
         else if has t ZEROPAD then front @ replicate pad CHR ''0'' @ body
         else replicate pad CHR '' '' @ front @ body)"

lemma has_bit: "has t (push_bit k 1) \<longleftrightarrow> k < 32 \<and> bit t k"
proof -
  have one: "bit (push_bit k 1 :: uint32) n \<longleftrightarrow> n = k \<and> k < 32" for n
    by (auto simp: bit_push_bit_iff bit_1_iff simp del: push_bit_of_1)
  show ?thesis
  proof (cases "k < 32 \<and> bit t k")
    case True
    then have "bit (t AND push_bit k 1) k" by (simp add: bit_and_iff one del: push_bit_of_1)
    then have "t AND push_bit k 1 \<noteq> 0" by (auto simp del: push_bit_of_1)
    with True show ?thesis by (simp add: has_def)
  next
    case False
    have "t AND push_bit k 1 = 0"
      by (rule bit_word_eqI) (use False in \<open>auto simp: bit_and_iff one simp del: push_bit_of_1\<close>)
    with False show ?thesis by (simp add: has_def)
  qed
qed

lemma has_flags:
  "has t ZEROPAD \<longleftrightarrow> bit t 0" "has t SIGN \<longleftrightarrow> bit t 1" "has t PLUS \<longleftrightarrow> bit t 2"
  "has t SPACE \<longleftrightarrow> bit t 3" "has t LEFT \<longleftrightarrow> bit t 4" "has t SPECIAL \<longleftrightarrow> bit t 5"
  "has t SMALL \<longleftrightarrow> bit t 6"
  using has_bit [of t 0] has_bit [of t 1] has_bit [of t 2] has_bit [of t 3] has_bit [of t 4]
    has_bit [of t 5] has_bit [of t 6]
  by (simp_all add: flag_defs)

lemma has_or: "has (a OR b) f \<longleftrightarrow> has a f \<or> has b f"
  by (auto simp: has_def bit_eq_iff bit_or_iff bit_and_iff)

lemma has_pad_or_left: "has t (ZEROPAD + LEFT) \<longleftrightarrow> has t ZEROPAD \<or> has t LEFT"
proof -
  have "ZEROPAD + LEFT = ZEROPAD OR LEFT" by (simp add: flag_defs)
  then show ?thesis by (auto simp: has_def bit_eq_iff bit_or_iff bit_and_iff)
qed

lemma has_clear_zeropad:
  "f \<in> {SIGN, PLUS, SPACE, LEFT, SPECIAL, SMALL} \<Longrightarrow> has (t AND NOT ZEROPAD) f = has t f"
  "\<not> has (t AND NOT ZEROPAD) ZEROPAD"
  by (auto simp: has_flags bit_and_iff bit_not_iff) (auto simp: flag_defs bit_1_iff)

lemma spin_text: "fst (spin n c) = replicate (nat n) c"
  by (simp add: spin_def)

lemma spin_rest: "- 1000000000 \<le> n \<Longrightarrow> fst (spin (snd (spin n c)) d) = []"
  by (simp add: spin_def)

lemma spin_left:
  "- 1000000000 \<le> n \<Longrightarrow> fst (spin (snd (spin (snd (spin n c)) d)) e) = []"
  by (simp add: spin_def)

lemma number_layout:
  assumes base: "2 \<le> base" "base \<le> 36" and len: "length (digit_text num base t) \<le> 50"
    and width: "\<bar>width\<bar> \<le> 100000000" and prec: "precision \<le> 100000000"
  shows "number num base width precision t = Inr (Some (number_text num base width precision t))"
proof -
  let ?t = "if has t LEFT then t AND NOT ZEROPAD else t"
  have flags: "has ?t SIGN = has t SIGN" "has ?t PLUS = has t PLUS" "has ?t SPACE = has t SPACE"
    "has ?t LEFT = has t LEFT" "has ?t SPECIAL = has t SPECIAL"
    "has ?t ZEROPAD = (has t ZEROPAD \<and> \<not> has t LEFT)"
    "has ?t (ZEROPAD + LEFT) = (has t ZEROPAD \<or> has t LEFT)"
    by (simp_all add: has_clear_zeropad has_pad_or_left)
  define tmp where "tmp = (if magnitude num t = 0 then ''0''
    else num_digits (digits_of t) (of_int base) (magnitude num t))"
  have ds: "digit_text num base t = rev tmp" by (simp add: digit_text_def tmp_def)
  have l50: "length tmp \<le> 50" using len by (simp add: ds)
  have sl: "length (sign_text num t) = (if sign_text num t \<noteq> [] then 1 else 0)"
    by (simp add: sign_text_def)
  have pl: "length (prefix_text base t) = (if has t SPECIAL then (if base = 16 then 2
      else if base = 8 then 1 else 0) else 0)"
    by (simp add: prefix_text_def)
  define p where "p = (if int (length tmp) > precision then int (length tmp) else precision)"
  define size3 where "size3 = width - int (length (sign_text num t)) - int (length (prefix_text base t)) - p"
  have p: "0 \<le> p" "p \<le> 100000000" "p = int (length (replicate (nat precision - length tmp) CHR ''0'' @ tmp))"
    using l50 prec by (auto simp: p_def)
  have s3: "- 1000000000 \<le> size3" "size3 \<le> 1000000000"
    using p width sl pl by (auto simp: size3_def split: if_splits)
  have zeros: "nat (p - int (length tmp)) = nat precision - length tmp"
    by (auto simp: p_def)
  have pad: "nat width - length (sign_text num t @ prefix_text base t)
      - length (replicate (nat precision - length tmp) CHR ''0'' @ rev tmp) = nat size3"
    using p(3) by (simp add: size3_def nat_diff_distrib')
  have "number num base width precision t =
    (let (pad1, size4) = (if \<not> (has t ZEROPAD \<or> has t LEFT) then spin size3 CHR '' '' else ([], size3));
         (pad2, size5) = (if \<not> has t LEFT then spin size4 (if has t ZEROPAD \<and> \<not> has t LEFT then CHR ''0'' else CHR '' '')
                          else ([], size4));
         (pad3, size6) = spin size5 CHR '' ''
     in Inr (Some (pad1 @ sign_text num t @ prefix_text base t @ pad2 @
          replicate (nat precision - length tmp) CHR ''0'' @ rev tmp @ pad3)))"
  proof -
    have size: "wrap32 ((if has t SPECIAL then
          (if base = 16 then wrap32 ((if sign_text num t \<noteq> [] then wrap32 (width - 1) else width) - 2)
           else if base = 8 then wrap32 ((if sign_text num t \<noteq> [] then wrap32 (width - 1) else width) - 1)
           else (if sign_text num t \<noteq> [] then wrap32 (width - 1) else width))
        else (if sign_text num t \<noteq> [] then wrap32 (width - 1) else width)) - p) = size3"
      using width p(1,2) by (simp add: size3_def sl pl)
    have same: "sign_text num ?t = sign_text num t" "magnitude num ?t = magnitude num t"
      by (simp_all only: sign_text_def magnitude_def negative_def flags)
    show ?thesis
      using base l50
      by (simp only: number_def Let_def flags not_less [symmetric] de_Morgan_disj if_False simp_thms
          negative_def [symmetric] sign_text_def [symmetric] digits_of_def [symmetric]
          magnitude_def [symmetric] same tmp_def [symmetric] p_def [symmetric] size zeros
          prefix_text_def split_beta)
  qed
  also have "\<dots> = Inr (Some (number_text num base width precision t))"
    unfolding number_text_def ds Let_def pad
    using spin_rest [OF s3(1)] spin_left [OF s3(1)]
    by (cases "has t LEFT"; cases "has t ZEROPAD") (simp_all add: spin_text split_beta pad [simplified])
  finally show ?thesis .
qed

section \<open>Reading a number back\<close>

lemma skip_atoi_digits:
  assumes "\<forall>c \<in> set s. is_digit c" and "rest = [] \<or> \<not> is_digit (hd rest)"
  shows "foldl (\<lambda>v c. v * 10 + digit_value c) i s < 2 ^ 31 \<Longrightarrow>
    skip_atoi (int i) (s @ rest) = (int (foldl (\<lambda>v c. v * 10 + digit_value c) i s), rest)"
  using assms(1)
proof (induction s arbitrary: i)
  case Nil
  with assms(2) show ?case by (cases rest) auto
next
  case (Cons c s)
  have mono: "i \<le> foldl (\<lambda>v c. v * 10 + digit_value c) i s" for i s
  proof (induction s arbitrary: i)
    case Nil
    then show ?case by simp
  next
    case (Cons c s)
    have "i \<le> i * 10 + digit_value c" by linarith
    also have "\<dots> \<le> foldl (\<lambda>v c. v * 10 + digit_value c) (i * 10 + digit_value c) s" by (rule Cons)
    finally show ?case by simp
  qed
  have c: "is_digit c" using Cons.prems by simp
  then have v: "int (digit_value c) = of_char c - 48"
  proof -
    have "(of_char c :: int) = int (of_char c :: nat)" by (rule of_nat_of_char [symmetric])
    moreover from this c have "48 \<le> (of_char c :: nat)" "(of_char c :: nat) \<le> 57"
      unfolding is_digit_def by linarith+
    ultimately show ?thesis by (simp add: of_nat_diff)
  qed
  have "i * 10 + digit_value c < 2 ^ 31"
    using le_less_trans [OF mono Cons.prems(1) [simplified foldl_Cons]] .
  then have "wrap32 (int i * 10 + of_char c - 48) = int (i * 10 + digit_value c)"
    using v by (simp del: digit_value.simps)
  moreover have "skip_atoi (int (i * 10 + digit_value c)) (s @ rest) =
      (int (foldl (\<lambda>v c. v * 10 + digit_value c) (i * 10 + digit_value c) s), rest)"
    by (rule Cons.IH) (use Cons.prems in simp_all)
  ultimately show ?case using c by (simp del: digit_value.simps)
qed

lemma decimal_digits:
  assumes "k < 10"
  shows "is_digit (digits_of t ! k)"
proof -
  have "list_all is_digit (take 10 upper_digits)" "list_all is_digit (take 10 lower_digits)"
    by code_simp+
  then have "list_all is_digit (take 10 (digits_of t))" by (simp add: digits_of_def)
  moreover have "digits_of t ! k = take 10 (digits_of t) ! k" using assms by simp
  moreover have "k < length (take 10 (digits_of t))" using assms by (simp add: digits_of_def)
  ultimately show ?thesis by (simp only: list_all_length)
qed

lemma num_digits_long:
  assumes "2 \<le> b" and "b \<le> 36" and "nat b ^ k \<le> unat n"
  shows "k < length (num_digits ds (of_int b) n)"
  using assms(3)
proof (induction k arbitrary: n)
  case 0
  then have "n \<noteq> 0" by auto
  moreover have "\<not> (of_int b :: uint64) < 2"
    using assms unat_of_nat_small [of "nat b"] by (simp add: word_less_nat_alt)
  ultimately show ?case by (subst num_digits.simps) simp
next
  case (Suc k)
  have base: "unat (of_int b :: uint64) = nat b"
    using assms unat_of_nat_small [of "nat b"] by simp
  then have ge: "\<not> (of_int b :: uint64) < 2" using assms by (simp add: word_less_nat_alt)
  have "0 < nat b ^ Suc k" using assms by simp
  with Suc.prems have "n \<noteq> 0" by (auto simp del: power_Suc)
  have "nat b ^ k \<le> unat (n div of_int b)"
    using Suc.prems assms by (simp add: unat_div base less_eq_div_iff_mult_less_eq mult.commute)
  with Suc.IH have "k < length (num_digits ds (of_int b) (n div of_int b))" by simp
  with ge \<open>n \<noteq> 0\<close> show ?case by (subst num_digits.simps) simp
qed

lemma digit_text_length:
  assumes "3 \<le> base" and "base \<le> 36"
  shows "length (digit_text num base t) \<le> 50"
proof -
  have "(18446744073709551616 :: nat) \<le> 3 ^ 50" by simp
  also have "(3 :: nat) ^ 50 \<le> nat base ^ 50" by (rule power_mono) (use assms in simp_all)
  finally have "unat (magnitude num t) < nat base ^ 50"
    by (rule less_le_trans [OF unat64_less])
  then show ?thesis
    using num_digits_length [of base "magnitude num t" 50 "digits_of t"] assms
    by (simp add: digit_text_def)
qed

section \<open>Properties\<close>

text \<open>
  Property C19: \<^verbatim>\<open>__number\<close> writes what it is meant to write, for every base above 2, every flag and
  every width and precision of reasonable size: the sign, prefix, zeros and digits in their field,
  left justified, padded with zeros or padded with blanks; and the digits are the number: read in
  the base they give the magnitude of the argument.
\<close>

theorem number_formats:
  assumes "3 \<le> base" and "base \<le> 36" and "\<bar>width\<bar> \<le> 100000000" and "precision \<le> 100000000"
  shows "number num base width precision t = Inr (Some (number_text num base width precision t)) \<and>
    string_value (nat base) (digit_text num base t) = unat (magnitude num t) \<and>
    (\<not> has t SIGN \<or> 0 \<le> sint num \<longrightarrow> magnitude num t = num)"
proof (intro conjI)
  show "number num base width precision t = Inr (Some (number_text num base width precision t))"
    using assms digit_text_length [OF assms(1,2)] by (intro number_layout) simp_all
  show "string_value (nat base) (digit_text num base t) = unat (magnitude num t)"
    using num_digits_value [of base t "magnitude num t"] assms(1,2)
    by (simp add: digit_text_def string_value_def)
qed (auto simp: magnitude_def negative_def)

theorem number_formats_witness:
  "number 255 16 8 (- 1) (SPECIAL OR SMALL) = Inr (Some ''    0xff'') \<and>
   number (- 42) 10 6 (- 1) (SIGN OR ZEROPAD) = Inr (Some ''-00042'')"
proof -
  have d: "num_digits lower_digits 16 255 = ''ff''" "num_digits upper_digits 10 42 = ''24''"
    by (simp_all add: num_digits.simps [of _ _ 255] num_digits.simps [of _ _ 15]
        num_digits.simps [of _ _ 42] num_digits.simps [of _ _ 4] num_digits.simps [of _ _ 0]
        lower_digits_def upper_digits_def)
  have "number_text 255 16 8 (- 1) (SPECIAL OR SMALL) = ''    0xff''"
    "number_text (- 42) 10 6 (- 1) (SIGN OR ZEROPAD) = ''-00042''"
    using d by (simp_all add: number_text_def sign_text_def prefix_text_def digit_text_def
        magnitude_def negative_def has_def flag_defs digits_of_def)
      (simp_all add: lower_digits_def numeral_eq_Suc)
  then show ?thesis
    using number_formats [of 16 8 "- 1" 255 "SPECIAL OR SMALL"]
      number_formats [of 10 6 "- 1" "- 42" "SIGN OR ZEROPAD"] by simp
qed

text \<open>
  Property C38: a number printed in decimal is read back by \<^verbatim>\<open>__skip_atoi\<close>: for a nonnegative
  \<^verbatim>\<open>int32\<close> the digits are consumed up to the text that follows, and the value is the number.
\<close>

theorem skip_atoi_reads_number:
  assumes "n < 2 ^ 31" and "rest = [] \<or> \<not> is_digit (hd rest)"
  shows "\<exists>s. number (of_nat n) 10 (- 1) (- 1) SIGN = Inr (Some s) \<and> skip_atoi 0 (s @ rest) = (int n, rest)"
proof -
  let ?s = "digit_text (of_nat n) 10 SIGN"
  have n: "sint (of_nat n :: uint64) = int n" "unat (of_nat n :: uint64) = n"
    using assms(1) by (simp_all add: signed_of_nat signed_take_bit_int_eq_self unat_of_nat_small)
  have "\<not> negative (of_nat n) SIGN" by (simp add: negative_def n)
  then have m: "magnitude (of_nat n) SIGN = of_nat n" and
    t: "number_text (of_nat n) 10 (- 1) (- 1) SIGN = ?s"
    by (simp_all add: magnitude_def number_text_def sign_text_def prefix_text_def has_def flag_defs)
  have "number (of_nat n) 10 (- 1) (- 1) SIGN = Inr (Some ?s)"
    unfolding t [symmetric]
    by (rule number_layout) (simp_all add: digit_text_length)
  moreover have "string_value 10 ?s = n"
  proof (cases "n = 0")
    case True
    then show ?thesis
      by (simp add: digit_text_def string_value_def magnitude_def)
  next
    case False
    then have "of_nat n \<noteq> (0 :: uint64)" using n(2) by auto
    then show ?thesis
      using num_digits_value [of 10 SIGN "of_nat n"] n by (simp add: digit_text_def m)
  qed
  moreover have "\<forall>c \<in> set ?s. is_digit c"
  proof -
    have "\<forall>c \<in> set (num_digits (digits_of SIGN) 10 k). is_digit c" for k
    proof (induction k rule: measure_induct_rule [of unat])
      case (less k)
      show ?case
      proof (cases "k = 0")
        case True
        then show ?thesis by (subst num_digits.simps) simp
      next
        case False
        then have "unat (k div 10) < unat k" by (simp add: unat_div unat_gt_0)
        with less have "\<forall>c \<in> set (num_digits (digits_of SIGN) 10 (k div 10)). is_digit c" by blast
        moreover have "unat (k mod 10) < 10" by (simp add: unat_mod)
        ultimately show ?thesis
          by (subst num_digits.simps) (simp add: decimal_digits)
      qed
    qed
    moreover have "is_digit CHR ''0''" by (simp add: is_digit_def)
    ultimately show ?thesis by (auto simp: digit_text_def)
  qed
  ultimately show ?thesis
    using skip_atoi_digits [of ?s rest 0] assms by (intro exI [of _ ?s]) (simp add: string_value_def)
qed

theorem skip_atoi_reads_number_witness:
  "\<exists>s. number (of_nat 1440) 10 (- 1) (- 1) SIGN = Inr (Some s) \<and> skip_atoi 0 (s @ '' x'') = (1440, '' x'')"
  using skip_atoi_reads_number [of 1440 "'' x''"] by (simp add: is_digit_def)

text \<open>
  Base 2 is admitted and too large for the routine. A number of more than 50 binary
  digits is written past the end of the local array \<^verbatim>\<open>tmp[50]\<close>.
\<close>

theorem number_base_2_overflows:
  assumes "2 ^ 50 \<le> unat num" and "\<not> has t SIGN"
  shows "number num 2 width precision t = Inl ArrayOverflow"
proof -
  have "num \<noteq> 0" using assms(1) by auto
  have "50 < length (num_digits ds (of_int 2) num)" for ds
    by (rule num_digits_long) (use assms(1) in simp_all)
  moreover have "\<not> has (if has t LEFT then t AND NOT ZEROPAD else t) SIGN"
    using assms(2) by (simp add: has_clear_zeropad)
  ultimately show ?thesis
    using \<open>num \<noteq> 0\<close> by (simp add: number_def Let_def split_beta)
qed

theorem number_base_2_overflows_witness:
  "number 0xfffffffffffff 2 (- 1) (- 1) 0 = Inl ArrayOverflow"
  by (rule number_base_2_overflows) (simp_all add: has_def)

end
