(* ===== verification/Printk_Format.thy ===== *)
theory Printk_Format
  imports Printk_Number Lib_String
begin

text \<open>
  \<^verbatim>\<open>__vsprintf\<close> of \<^verbatim>\<open>src/printk.c\<close>: the pointer \<^verbatim>\<open>fmt\<close> is the rest of the format, the \<^verbatim>\<open>va_list\<close>
  is the list of the eight-byte argument slots not yet taken, the strings that \<^verbatim>\<open>%s\<close> arguments
  point to lie in a byte memory, and what is written to \<^verbatim>\<open>__buf\<close> is the result. Taking an argument
  that was not passed is the fault \<open>ArgsExhausted\<close>.
\<close>

section \<open>Arguments and the loops with a counter\<close>

definition NUL :: char where "NUL = CHR 0x00"

definition peek :: "string \<Rightarrow> char" where
  "peek s = (case s of [] \<Rightarrow> NUL | c # _ \<Rightarrow> c)"

definition arg32 :: "uint64 \<Rightarrow> int" where
  "arg32 a = sint (ucast a :: uint32)"

definition va_arg :: "uint64 list \<Rightarrow> fault + uint64 \<times> uint64 list" where
  "va_arg args = (case args of [] \<Rightarrow> Inl ArgsExhausted | a # as \<Rightarrow> Inr (a, as))"

text \<open>\<^verbatim>\<open>while (--n > 0) *str++ = c\<close> and \<^verbatim>\<open>while (len < n--) *str++ = c\<close>.\<close>

definition spin_pre :: "int \<Rightarrow> char \<Rightarrow> string \<times> int" where
  "spin_pre n c = (let k = wrap32 (n - 1) in if k > 0 then (replicate (nat k) c, 0) else ([], k))"

definition spin_above :: "int \<Rightarrow> int \<Rightarrow> char \<Rightarrow> string \<times> int" where
  "spin_above len n c =
     (if len < n then (replicate (nat (n - len)) c, wrap32 (len - 1)) else ([], wrap32 (n - 1)))"

section \<open>The parts of a directive\<close>

fun parse_flags :: "uint32 \<Rightarrow> string \<Rightarrow> uint32 \<times> string" where
  "parse_flags flags [] = (flags, [])"
| "parse_flags flags (c # s) =
     (if c = CHR ''-'' then parse_flags (flags OR LEFT) s
      else if c = CHR ''+'' then parse_flags (flags OR PLUS) s
      else if c = CHR '' '' then parse_flags (flags OR SPACE) s
      else if c = CHR ''#'' then parse_flags (flags OR SPECIAL) s
      else if c = CHR ''0'' then parse_flags (flags OR ZEROPAD) s
      else (flags, c # s))"

definition parse_width ::
  "uint32 \<Rightarrow> string \<Rightarrow> uint64 list \<Rightarrow> fault + int \<times> uint32 \<times> string \<times> uint64 list" where
  "parse_width flags fmt args =
     (if is_digit (peek fmt) then
        (let (w, fmt1) = skip_atoi 0 fmt in Inr (w, flags, fmt1, args))
      else if peek fmt = CHR ''*'' then
        (case va_arg args of Inl e \<Rightarrow> Inl e | Inr (a, args1) \<Rightarrow>
           Inr (if arg32 a < 0 then (wrap32 (- arg32 a), flags OR LEFT, tl fmt, args1)
                else (arg32 a, flags, tl fmt, args1)))
      else Inr (- 1, flags, fmt, args))"

definition parse_precision ::
  "string \<Rightarrow> uint64 list \<Rightarrow> fault + int \<times> string \<times> uint64 list" where
  "parse_precision fmt args =
     (if peek fmt = CHR ''.'' then
        (let fmt1 = tl fmt in
         if is_digit (peek fmt1) then
           (let (p, fmt2) = skip_atoi 0 fmt1 in Inr (if p < 0 then 0 else p, fmt2, args))
         else if peek fmt1 = CHR ''*'' then
           (case va_arg args of Inl e \<Rightarrow> Inl e | Inr (a, args1) \<Rightarrow>
              Inr (if arg32 a < 0 then 0 else arg32 a, tl fmt1, args1))
         else Inr (0, fmt1, args))
      else Inr (- 1, fmt, args))"

definition parse_qualifier :: "string \<Rightarrow> char option \<times> string" where
  "parse_qualifier fmt =
     (if peek fmt \<in> {CHR ''h'', CHR ''l'', CHR ''L'', CHR ''Z''} then (Some (peek fmt), tl fmt)
      else (None, fmt))"

definition convert_char :: "uint32 \<Rightarrow> int \<Rightarrow> uint64 \<Rightarrow> string" where
  "convert_char flags width a =
     (let (pad1, w1) = (if \<not> has flags LEFT then spin_pre width CHR '' '' else ([], width));
          (pad2, w2) = spin_pre w1 CHR '' ''
      in pad1 @ [char_of (unat a mod 256)] @ pad2)"

definition chars_at :: "mem8 \<Rightarrow> uintptr \<Rightarrow> nat \<Rightarrow> string" where
  "chars_at m s n = map (\<lambda>i. char_of (unat (m (s + of_nat i)))) [0 ..< n]"

text \<open>A null \<^verbatim>\<open>%s\<close> argument is replaced by \<^verbatim>\<open>'\0'\<close>, which is again the null pointer.\<close>

definition convert_string :: "mem8 \<Rightarrow> uint32 \<Rightarrow> int \<Rightarrow> int \<Rightarrow> uintptr \<Rightarrow> string" where
  "convert_string m flags width precision s0 =
     (let s = (if s0 = 0 then 0 else s0);
          len0 = strlen s m;
          len = (if precision < 0 then len0 else if len0 > precision then precision else len0);
          (pad1, w1) = (if \<not> has flags LEFT then spin_above len width CHR '' '' else ([], width));
          (pad2, w2) = spin_above len w1 CHR '' ''
      in pad1 @ chars_at m s (nat len) @ pad2)"

text \<open>The number conversions: without the qualifier \<^verbatim>\<open>l\<close> the argument is an \<^verbatim>\<open>int32\<close>.\<close>

definition convert_number ::
  "char option \<Rightarrow> int \<Rightarrow> int \<Rightarrow> int \<Rightarrow> uint32 \<Rightarrow> uint64 \<Rightarrow> fault + string" where
  "convert_number qualifier base width precision flags a =
     (let num = (if qualifier = Some CHR ''l'' then a else word_of_int (arg32 a))
      in case number num base width precision flags of
           Inl e \<Rightarrow> Inl e | Inr None \<Rightarrow> Inl NullDeref | Inr (Some t) \<Rightarrow> Inr t)"

text \<open>The switch on the conversion character. The rest of the format is what follows it.\<close>

definition convert ::
  "mem8 \<Rightarrow> uint32 \<Rightarrow> int \<Rightarrow> int \<Rightarrow> char option \<Rightarrow> string \<Rightarrow> uint64 list
     \<Rightarrow> fault + string \<times> string \<times> uint64 list" where
  "convert m flags width precision qualifier fmt args =
     (let c = peek fmt; num = (\<lambda>base w fl. bindR (va_arg args) (\<lambda>(a, args1).
            bindR (convert_number qualifier base w precision fl a) (\<lambda>t. Inr (t, tl fmt, args1))))
      in if c = CHR ''c'' then
           bindR (va_arg args) (\<lambda>(a, args1). Inr (convert_char flags width a, tl fmt, args1))
         else if c = CHR ''s'' then
           bindR (va_arg args) (\<lambda>(a, args1).
             Inr (convert_string m flags width precision a, tl fmt, args1))
         else if c = CHR ''o'' then num 8 width flags
         else if c = CHR ''p'' then
           bindR (va_arg args) (\<lambda>(a, args1).
             bindR (if width = - 1 then convert_number (Some CHR ''l'') 16 (2 * 8) precision (flags OR ZEROPAD) a
                    else convert_number (Some CHR ''l'') 16 width precision flags a)
               (\<lambda>t. Inr (t, tl fmt, args1)))
         else if c = CHR ''x'' then num 16 width (flags OR SMALL)
         else if c = CHR ''X'' then num 16 width flags
         else if c = CHR ''d'' \<or> c = CHR ''i'' then num 10 width (flags OR SIGN)
         else if c = CHR ''u'' then num 10 width flags
         else if c = CHR ''%'' then Inr (''%'', tl fmt, args)
         else if c \<noteq> NUL then Inr ([CHR ''%'', c], tl fmt, args)
         else Inr (''%'', fmt, args))"

definition directive ::
  "mem8 \<Rightarrow> string \<Rightarrow> uint64 list \<Rightarrow> fault + string \<times> string \<times> uint64 list" where
  "directive m fmt args =
     (let (flags, fmt1) = parse_flags 0 fmt
      in case parse_width flags fmt1 args of Inl e \<Rightarrow> Inl e
       | Inr (width, flags1, fmt2, args1) \<Rightarrow>
         (case parse_precision fmt2 args1 of Inl e \<Rightarrow> Inl e
          | Inr (precision, fmt3, args2) \<Rightarrow>
              (let (qualifier, fmt4) = parse_qualifier fmt3
               in convert m flags1 width precision qualifier fmt4 args2)))"

lemma parse_flags_length: "length (snd (parse_flags fl s)) \<le> length s"
  by (induction fl s rule: parse_flags.induct) auto

lemma skip_atoi_length: "length (snd (skip_atoi i s)) \<le> length s"
  by (induction i s rule: skip_atoi.induct) auto

lemma parse_width_length:
  "parse_width fl s args = Inr (w, fl', s', args') \<Longrightarrow> length s' \<le> length s"
  using skip_atoi_length [of 0 s]
  by (auto simp: parse_width_def va_arg_def split: if_splits sum.splits list.splits prod.splits)

lemma parse_precision_length:
  "parse_precision s args = Inr (p, s', args') \<Longrightarrow> length s' \<le> length s"
  using skip_atoi_length [of 0 "tl s"]
  by (auto simp: parse_precision_def va_arg_def Let_def split: if_splits sum.splits list.splits prod.splits)

lemma parse_qualifier_length: "length (snd (parse_qualifier s)) \<le> length s"
  by (simp add: parse_qualifier_def)

lemma convert_length:
  "convert m fl w p q s args = Inr (t, s', args') \<Longrightarrow> length s' \<le> length s"
  by (auto simp: convert_def Let_def bindR_eq_Inr split: if_splits prod.splits)

lemma directive_length:
  "directive m s args = Inr (t, s', args') \<Longrightarrow> length s' \<le> length s"
proof -
  assume a: "directive m s args = Inr (t, s', args')"
  obtain fl s1 where 1: "parse_flags 0 s = (fl, s1)" by fastforce
  with a obtain w fl1 s2 args1 where 2: "parse_width fl s1 args = Inr (w, fl1, s2, args1)"
    by (auto simp: directive_def split: sum.splits)
  with a 1 obtain p s3 args2 where 3: "parse_precision s2 args1 = Inr (p, s3, args2)"
    by (auto simp: directive_def split: sum.splits)
  obtain q s4 where 4: "parse_qualifier s3 = (q, s4)" by fastforce
  have "convert m fl1 w p q s4 args2 = Inr (t, s', args')"
    using a 1 2 3 4 by (simp add: directive_def)
  from convert_length [OF this] parse_qualifier_length [of s3] parse_precision_length [OF 3]
    parse_width_length [OF 2] parse_flags_length [of 0 s] 1 4
  show ?thesis by simp
qed

section \<open>The loop over the format\<close>

function vsprintf :: "mem8 \<Rightarrow> string \<Rightarrow> uint64 list \<Rightarrow> fault + string" where
  "vsprintf m fmt args =
     (case fmt of [] \<Rightarrow> Inr []
      | c # s \<Rightarrow>
          if c = NUL then Inr []
          else if c \<noteq> CHR ''%'' then
            (case vsprintf m s args of Inl e \<Rightarrow> Inl e | Inr t \<Rightarrow> Inr (c # t))
          else
            (case directive m s args of Inl e \<Rightarrow> Inl e
             | Inr (t, s1, args1) \<Rightarrow>
                 (case vsprintf m s1 args1 of Inl e \<Rightarrow> Inl e | Inr u \<Rightarrow> Inr (t @ u))))"
  by pat_completeness auto
termination
  by (relation "measure (\<lambda>(m, fmt, args). length fmt)") (auto dest: directive_length)

declare vsprintf.simps [simp del]

lemma vsprintf_nil [simp]: "vsprintf m [] args = Inr []"
  by (simp add: vsprintf.simps)

lemma vsprintf_char: "c \<noteq> NUL \<Longrightarrow> c \<noteq> CHR ''%'' \<Longrightarrow>
    vsprintf m (c # s) args = (case vsprintf m s args of Inl e \<Rightarrow> Inl e | Inr t \<Rightarrow> Inr (c # t))"
  by (simp add: vsprintf.simps [of m "c # s"])

lemma vsprintf_percent:
  "vsprintf m (CHR ''%'' # s) args = (case directive m s args of Inl e \<Rightarrow> Inl e
     | Inr (t, s1, args1) \<Rightarrow> (case vsprintf m s1 args1 of Inl e \<Rightarrow> Inl e | Inr u \<Rightarrow> Inr (t @ u)))"
  by (simp add: vsprintf.simps [of m "CHR ''%'' # s"] NUL_def)

lemma vsprintf_text:
  "NUL \<notin> set s \<Longrightarrow> CHR ''%'' \<notin> set s \<Longrightarrow>
   vsprintf m (s @ fmt) args = (case vsprintf m fmt args of Inl e \<Rightarrow> Inl e | Inr t \<Rightarrow> Inr (s @ t))"
proof (induction s)
  case Nil
  then show ?case by (simp split: sum.splits)
next
  case (Cons c s)
  then show ?case by (auto simp: vsprintf_char split: sum.splits)
qed

section \<open>No directive faults while arguments last\<close>

lemma number_returns:
  assumes "3 \<le> base" and "base \<le> 36"
  shows "\<exists>t. number num base w p fl = Inr (Some t)"
proof -
  have "length (num_digits ds (of_int base) n) \<le> 50" for ds n
  proof -
    have "(18446744073709551616 :: nat) \<le> 3 ^ 50" by simp
    also have "(3 :: nat) ^ 50 \<le> nat base ^ 50" by (rule power_mono) (use assms in simp_all)
    finally have "unat n < nat base ^ 50" by (rule less_le_trans [OF unat64_less])
    then show ?thesis using num_digits_length [of base n 50] assms by simp
  qed
  then show ?thesis
    using assms by (simp add: number_def Let_def split_beta not_less)
qed

text \<open>A step that takes at most \<open>n\<close> of the arguments and leaves a suffix of the format.\<close>

definition takes :: "nat \<Rightarrow> string \<Rightarrow> uint64 list \<Rightarrow> string \<Rightarrow> uint64 list \<Rightarrow> bool" where
  "takes n s args s' args' \<longleftrightarrow> (\<exists>k j. s' = drop k s \<and> j \<le> n \<and> args' = drop j args)"

lemma takes_refl: "takes 0 s args s args"
  unfolding takes_def by (rule exI [of _ 0], rule exI [of _ 0]) simp

lemma takes_trans:
  "takes n s args s' args' \<Longrightarrow> takes n' s' args' s'' args'' \<Longrightarrow> takes (n + n') s args s'' args''"
proof -
  assume "takes n s args s' args'" "takes n' s' args' s'' args''"
  then obtain k j k' j' where "s' = drop k s" "j \<le> n" "args' = drop j args"
    "s'' = drop k' s'" "j' \<le> n'" "args'' = drop j' args'"
    by (auto simp: takes_def)
  then show ?thesis
    unfolding takes_def by (intro exI [of _ "k' + k"] exI [of _ "j' + j"]) simp
qed

lemma takes_tl: "takes 0 s args (tl s) args" "takes 1 s (a # as) (tl s) as" "takes 1 s (a # as) s as"
  unfolding takes_def
  by (rule exI [of _ 1], rule exI [of _ 0], simp add: drop_Suc)
    (rule exI [of _ 1], rule exI [of _ 1], simp add: drop_Suc,
     rule exI [of _ 0], rule exI [of _ 1], simp)

lemma takes_weaken: "takes n s args s' args' \<Longrightarrow> n \<le> n' \<Longrightarrow> takes n' s args s' args'"
  unfolding takes_def by (elim exE conjE) (intro exI conjI, assumption, simp_all)

lemma parse_flags_takes: "takes 0 s args (snd (parse_flags fl s)) args"
proof (induction fl s rule: parse_flags.induct)
  case (1 flags)
  then show ?case by (simp add: takes_refl)
next
  case (2 flags c s)
  have drop1: "takes 0 (c # s) args s args" using takes_tl(1) [of "c # s"] by simp
  show ?case
    using 2 takes_trans [OF drop1] takes_refl by auto
qed

lemma skip_atoi_takes: "takes 0 s args (snd (skip_atoi i s)) args"
proof (induction i s rule: skip_atoi.induct)
  case (1 i)
  then show ?case by (simp add: takes_refl)
next
  case (2 i c s)
  have drop1: "takes 0 (c # s) args s args" using takes_tl(1) [of "c # s"] by simp
  show ?case using 2 takes_trans [OF drop1] takes_refl by auto
qed

lemma parse_width_takes:
  assumes "args \<noteq> []"
  shows "\<exists>w fl' s' args'. parse_width fl s args = Inr (w, fl', s', args') \<and> takes 1 s args s' args'"
proof -
  obtain a as where args: "args = a # as" using assms by (cases args) auto
  show ?thesis
    using takes_tl(2) [of s a as] takes_weaken [OF takes_refl, of 1 s args]
      takes_weaken [OF skip_atoi_takes, of 1 s args 0]
    by (auto simp: parse_width_def va_arg_def args split_beta)
qed

lemma parse_precision_takes:
  assumes "args \<noteq> []"
  shows "\<exists>p s' args'. parse_precision s args = Inr (p, s', args') \<and> takes 1 s args s' args'"
proof -
  obtain a as where args: "args = a # as" using assms by (cases args) auto
  have tl: "takes 1 s args (tl s) args" by (rule takes_weaken [OF takes_tl(1)]) simp
  show ?thesis
    using tl takes_weaken [OF takes_refl, of 1 s args]
      takes_trans [OF takes_tl(1) [of s args] takes_tl(2) [of "tl s" a as, folded args]]
      takes_trans [OF takes_tl(1) [of s args] takes_weaken [OF skip_atoi_takes, of 1 "tl s" args 0]]
    by (auto simp: parse_precision_def va_arg_def args split_beta Let_def)
qed

lemma convert_takes:
  assumes "args \<noteq> []"
  shows "\<exists>t s' args'. convert m fl w p q s args = Inr (t, s', args') \<and> takes 1 s args s' args'"
proof -
  obtain a as where args: "args = a # as" using assms by (cases args) auto
  have num: "\<exists>t. convert_number q base w p fl a = Inr t" if "base \<in> {8, 10, 16}" for q base w p fl a
  proof -
    have "3 \<le> base \<and> base \<le> 36" using that by auto
    then obtain t where "number (if q = Some CHR ''l'' then a else word_of_int (arg32 a)) base w p fl = Inr (Some t)"
      using number_returns [of base] by blast
    then show ?thesis by (auto simp: convert_number_def)
  qed
  have "takes 1 s args (tl s) as" "takes 1 s args (tl s) args" "takes 1 s args s args"
    using takes_tl(2) [of s a as] takes_weaken [OF takes_tl(1), of 1 s args]
      takes_weaken [OF takes_refl, of 1 s args] by (simp_all add: args)
  moreover have "va_arg args = Inr (a, as)" by (simp add: va_arg_def args)
  ultimately show ?thesis
    using num [of 8 q w p fl a] num [of 16 "Some CHR ''l''" 16 p "fl OR ZEROPAD" a]
      num [of 16 "Some CHR ''l''" w p fl a] num [of 16 q w p "fl OR SMALL" a] num [of 16 q w p fl a]
      num [of 10 q w p "fl OR SIGN" a] num [of 10 q w p fl a]
    by (auto simp: convert_def Let_def)
qed

lemma directive_takes:
  assumes "3 \<le> length args"
  shows "\<exists>t s' args'. directive m s args = Inr (t, s', args') \<and> takes 3 s args s' args'"
proof -
  obtain fl s1 where 1: "parse_flags 0 s = (fl, s1)" by fastforce
  have t1: "takes 0 s args s1 args" using parse_flags_takes [of s args 0] 1 by simp
  obtain w fl1 s2 args1 where 2: "parse_width fl s1 args = Inr (w, fl1, s2, args1)" "takes 1 s1 args s2 args1"
    using parse_width_takes [of args fl s1] assms by fastforce
  then have l1: "2 \<le> length args1" using assms by (auto simp: takes_def)
  then obtain p s3 args2 where 3: "parse_precision s2 args1 = Inr (p, s3, args2)" "takes 1 s2 args1 s3 args2"
    using parse_precision_takes [of args1 s2] by fastforce
  then have l2: "1 \<le> length args2" using l1 by (auto simp: takes_def)
  obtain q s4 where 4: "parse_qualifier s3 = (q, s4)" by fastforce
  then have t4: "takes 0 s3 args2 s4 args2"
    using takes_tl(1) [of s3 args2] takes_refl [of s3 args2]
    by (auto simp: parse_qualifier_def split: if_splits)
  obtain t s' args' where 5: "convert m fl1 w p q s4 args2 = Inr (t, s', args')" "takes 1 s4 args2 s' args'"
    using convert_takes [of args2 m fl1 w p q s4] l2 by fastforce
  have "takes (0 + 1 + 1 + 0 + 1) s args s' args'"
    by (rule takes_trans [OF takes_trans [OF takes_trans [OF takes_trans [OF t1 2(2)] 3(2)] t4] 5(2)])
  moreover have "directive m s args = Inr (t, s', args')"
    by (simp add: directive_def 1 2(1) 3(1) 4 5(1))
  ultimately show ?thesis by (simp add: numeral_3_eq_3)
qed

definition percents :: "string \<Rightarrow> nat" where
  "percents s = length (filter (\<lambda>c. c = CHR ''%'') s)"

lemma percents_drop: "percents (drop k s) \<le> percents s"
proof -
  have "percents s = percents (take k s) + percents (drop k s)"
    unfolding percents_def by (metis append_take_drop_id filter_append length_append)
  then show ?thesis by simp
qed

lemma vsprintf_returns:
  "3 * percents fmt \<le> length args \<Longrightarrow> \<exists>t. vsprintf m fmt args = Inr t"
proof (induction "length fmt" arbitrary: fmt args rule: less_induct)
  case less
  show ?case
  proof (cases fmt)
    case Nil
    then show ?thesis by simp
  next
    case (Cons c s)
    consider "c = NUL" | "c \<noteq> NUL" "c \<noteq> CHR ''%''" | "c = CHR ''%''" by blast
    then show ?thesis
    proof cases
      case 1
      then show ?thesis unfolding Cons by (subst vsprintf.simps) simp
    next
      case 2
      then have "3 * percents s \<le> length args" using less.prems Cons by (simp add: percents_def)
      with less.hyps [of s args] Cons obtain t where "vsprintf m s args = Inr t" by auto
      with 2 Cons show ?thesis by (simp add: vsprintf_char)
    next
      case 3
      then have p: "3 + 3 * percents s \<le> length args" using less.prems Cons by (simp add: percents_def)
      then obtain t s' args' where d: "directive m s args = Inr (t, s', args')" "takes 3 s args s' args'"
        using directive_takes [of args m s] by auto
      then obtain k j where kj: "s' = drop k s" "j \<le> 3" "args' = drop j args" by (auto simp: takes_def)
      then have "3 * percents s' \<le> length args'" using p percents_drop [of k s] by simp
      moreover have "length s' < length fmt" using kj Cons by simp
      ultimately obtain u where "vsprintf m s' args' = Inr u" using less.hyps [of s' args'] by auto
      with 3 Cons d show ?thesis by (simp add: vsprintf_percent)
    qed
  qed
qed

lemma vsprintf_decimal_text:
  assumes "NUL \<notin> set s" and "CHR ''%'' \<notin> set s" and "vsprintf m fmt args = Inr t"
  shows "vsprintf m (s @ ''%d'' @ fmt) (a # args) =
    Inr (s @ number_text (word_of_int (arg32 a)) 10 (- 1) (- 1) SIGN @ t)"
proof -
  have n: "number (word_of_int (arg32 a)) 10 (- 1) (- 1) SIGN =
      Inr (Some (number_text (word_of_int (arg32 a)) 10 (- 1) (- 1) SIGN))"
    by (rule number_layout) (simp_all add: digit_text_length)
  have "directive m (''d'' @ fmt) (a # args) =
      Inr (number_text (word_of_int (arg32 a)) 10 (- 1) (- 1) SIGN, fmt, args)"
    by (simp add: directive_def parse_width_def parse_precision_def parse_qualifier_def peek_def
        is_digit_def convert_def va_arg_def convert_number_def n)
  then show ?thesis
    using assms by (simp add: vsprintf_text vsprintf_percent)
qed

section \<open>Properties\<close>



text \<open>
  Text around directives is copied unchanged and a decimal directive writes its
  argument, cut to 32 bits, as \<^verbatim>\<open>__number\<close> formats it; the rest of the format is processed with
  the remaining arguments.
\<close>

theorem vsprintf_decimal:
  assumes "NUL \<notin> set s" and "CHR ''%'' \<notin> set s" and "vsprintf m fmt args = Inr t"
  shows "vsprintf m (s @ ''%d'' @ fmt) (a # args) =
    Inr (s @ number_text (word_of_int (arg32 a)) 10 (- 1) (- 1) SIGN @ t)"
  by (rule vsprintf_decimal_text [OF assms])

theorem vsprintf_decimal_witness:
  "vsprintf (\<lambda>_. 0) ''interrupt %d!'' [33] = Inr ''interrupt 33!''"
proof -
  have "vsprintf (\<lambda>_. 0) ''!'' [] = Inr ''!''"
    by (simp add: vsprintf_char NUL_def)
  moreover have "number_text 33 10 (- 1) (- 1) SIGN = ''33''"
    by (simp add: number_text_def sign_text_def prefix_text_def digit_text_def magnitude_def
        negative_def has_def flag_defs digits_of_def num_digits.simps [of _ _ 33]
        num_digits.simps [of _ _ 3] num_digits.simps [of _ _ 0] upper_digits_def)
  ultimately show ?thesis
    using vsprintf_decimal [of "''interrupt ''" "\<lambda>_. 0" "''!''" "[]" "''!''" 33]
    by (simp add: NUL_def arg32_def)
qed

text \<open>
  The unsigned conversions sign-extend. \<^verbatim>\<open>%x\<close>, \<^verbatim>\<open>%X\<close>, \<^verbatim>\<open>%o\<close> and \<^verbatim>\<open>%u\<close> without the
  qualifier \<^verbatim>\<open>l\<close> take an \<^verbatim>\<open>int32\<close>, and \<^verbatim>\<open>__number\<close> divides it as 64 unsigned bits: an argument
  with bit 31 set prints as the digits of its value plus \<^verbatim>\<open>0xffffffff00000000\<close>.
\<close>

theorem unsigned_conversions_sign_extend:
  assumes "bit a 31" and "base \<in> {8, 10, 16}" and "\<not> has fl SIGN" and "\<bar>width\<bar> \<le> 100000000"
    and "precision \<le> 100000000"
  shows "\<exists>n. convert_number None base width precision fl a = Inr (number_text n base width precision fl) \<and>
    string_value (nat base) (digit_text n base fl) = unat (take_bit 32 a) + 0xffffffff00000000"
proof -
  let ?n = "word_of_int (arg32 a) :: uint64"
  have base: "3 \<le> base" "base \<le> 36" using assms(2) by auto
  have "magnitude ?n fl = ?n" using assms(3) by (simp add: magnitude_def negative_def)
  moreover have "unat ?n = unat (take_bit 32 a) + 0xffffffff00000000"
  proof -
    let ?u = "uint (take_bit 32 a)"
    have u: "?u = take_bit 32 (uint a)" by (simp add: unsigned_take_bit_eq)
    have n: "uint ?n = arg32 a mod 2 ^ 64" by (simp add: uint_word_of_int)
    have "arg32 a = signed_take_bit 31 (uint a)"
      by (simp add: arg32_def signed_ucast_eq)
    also have "\<dots> = ?u - 2 ^ 32"
      using assms(1) unfolding u by (simp add: signed_take_bit_eq_take_bit_minus bit_uint_iff)
    finally have eq: "arg32 a = ?u - 2 ^ 32" .
    have "(?u - 2 ^ 32) mod 2 ^ 64 = ?u + 0xffffffff00000000"
    proof -
      have "0 \<le> ?u" "?u < 2 ^ 32"
        unfolding u using take_bit_int_less_exp [of 32 "uint a"] by simp_all
      then have "(?u - 2 ^ 32 + 2 ^ 64) mod 2 ^ 64 = ?u - 2 ^ 32 + 2 ^ 64"
        by (intro mod_pos_pos_trivial) simp_all
      then show ?thesis unfolding mod_add_self2 by simp
    qed
    then have "int (unat ?n) = int (unat (take_bit 32 a)) + 0xffffffff00000000"
      unfolding of_nat_unat n unfolding eq .
    then show ?thesis by linarith
  qed
  moreover have "convert_number None base width precision fl a = Inr (number_text ?n base width precision fl)"
    using number_layout [of base ?n fl width precision] digit_text_length [OF base] assms(4,5) base
    by (simp add: convert_number_def)
  ultimately show ?thesis
    using num_digits_value [of base fl "magnitude ?n fl"] base
    by (intro exI [of _ ?n]) (auto simp: digit_text_def string_value_def)
qed

theorem unsigned_conversions_sign_extend_witness:
  "\<exists>n. convert_number None 16 (- 1) (- 1) SMALL 0x80000000 = Inr (number_text n 16 (- 1) (- 1) SMALL) \<and>
    string_value 16 (digit_text n 16 SMALL) = 0xffffffff80000000"
proof -
  have "bit (0x80000000 :: uint64) 31" by (simp add: bit_iff_odd_drop_bit)
  moreover have "unat (take_bit 32 (0x80000000 :: uint64)) = 0x80000000" by simp
  moreover have "\<not> has SMALL SIGN" by (simp add: has_def flag_defs)
  ultimately show ?thesis
    using unsigned_conversions_sign_extend [where a = "0x80000000" and base = 16 and fl = SMALL
        and width = "- 1" and precision = "- 1"] by auto
qed

end
