(* ===== verification/Printk_Console.thy ===== *)
theory Printk_Console
  imports Printk_Format Font
begin

text \<open>
  The console of \<^verbatim>\<open>src/printk.c\<close>: the cursor and the frame buffer behind \<^verbatim>\<open>Pos\<close>, the routine that
  draws a glyph, \<^verbatim>\<open>__print_char\<close> with its control characters, and the printing functions. The frame
  buffer is a function from the index of a pixel, relative to \<^verbatim>\<open>Pos.FB_addr\<close>, to its colour;
  nothing in the code keeps the index inside the buffer, so neither does the model.
\<close>

section \<open>State\<close>

record position =
  XResolution :: int
  YResolution :: int
  XPosition :: int
  YPosition :: int
  XCharSize :: int
  YCharSize :: int
  FB_addr :: uintptr
  FB_length :: uint64

record console =
  Pos :: position
  fb :: "int \<Rightarrow> uint32"

definition WHITE :: uint32 where "WHITE = 0x00ffffff"
definition BLACK :: uint32 where "BLACK = 0x00000000"
definition RED :: uint32 where "RED = 0x00ff0000"
definition ORANGE :: uint32 where "ORANGE = 0x00ff8000"
definition YELLOW :: uint32 where "YELLOW = 0x00ffff00"
definition GREEN :: uint32 where "GREEN = 0x0000ff00"
definition BLUE :: uint32 where "BLUE = 0x000000ff"
definition INDIGO :: uint32 where "INDIGO = 0x0000ffff"
definition PURPLE :: uint32 where "PURPLE = 0x008000ff"

text \<open>\<^verbatim>\<open>idiv\<close>: the quotient is truncated; zero and the one overflow raise \<open>#DE\<close>.\<close>

definition cdiv :: "int \<Rightarrow> int \<Rightarrow> fault + int" where
  "cdiv a b = (if b = 0 \<or> (a = - 2147483648 \<and> b = - 1) then Inl DivideError
               else Inr (sgn a * sgn b * (\<bar>a\<bar> div \<bar>b\<bar>)))"

section \<open>Operations\<close>

text \<open>\<^verbatim>\<open>__putchar\<close>: 16 rows of 8 pixels, from the high bit of each row of the glyph.\<close>

definition put_row :: "int \<Rightarrow> uint32 \<Rightarrow> uint32 \<Rightarrow> uint8 \<Rightarrow> (int \<Rightarrow> uint32) \<Rightarrow> int \<Rightarrow> uint32" where
  "put_row addr FRcolor BKcolor row =
     fold (\<lambda>j f. f(addr + int j := if row AND push_bit (7 - j) 1 \<noteq> 0 then FRcolor else BKcolor)) [0 ..< 8]"

definition put_glyph ::
  "int \<Rightarrow> int \<Rightarrow> int \<Rightarrow> uint32 \<Rightarrow> uint32 \<Rightarrow> char \<Rightarrow> (int \<Rightarrow> uint32) \<Rightarrow> int \<Rightarrow> uint32" where
  "put_glyph Xsize x y FRcolor BKcolor c =
     fold (\<lambda>i. put_row (wrap32 (Xsize * wrap32 (y + int i)) + x) FRcolor BKcolor
                 (font_ascii ! of_char c ! i)) [0 ..< 16]"

definition draw :: "uint32 \<Rightarrow> uint32 \<Rightarrow> char \<Rightarrow> console \<Rightarrow> console" where
  "draw FRcolor BKcolor c s =
     s\<lparr>fb := put_glyph (XResolution (Pos s)) (wrap32 (XPosition (Pos s) * XCharSize (Pos s)))
              (wrap32 (YPosition (Pos s) * YCharSize (Pos s))) FRcolor BKcolor c (fb s)\<rparr>"

definition set_x :: "int \<Rightarrow> console \<Rightarrow> console" where
  "set_x x s = s\<lparr>Pos := (Pos s)\<lparr>XPosition := x\<rparr>\<rparr>"

definition set_y :: "int \<Rightarrow> console \<Rightarrow> console" where
  "set_y y s = s\<lparr>Pos := (Pos s)\<lparr>YPosition := y\<rparr>\<rparr>"

definition columns :: "console \<Rightarrow> fault + int" where
  "columns s = cdiv (XResolution (Pos s)) (XCharSize (Pos s))"

definition lines_of :: "console \<Rightarrow> fault + int" where
  "lines_of s = cdiv (YResolution (Pos s)) (YCharSize (Pos s))"

definition next_x :: "console \<Rightarrow> console" where
  "next_x s = set_x (wrap32 (XPosition (Pos s) + 1)) s"

definition next_y :: "console \<Rightarrow> console" where
  "next_y s = set_y (wrap32 (YPosition (Pos s) + 1)) s"

definition newline :: "console \<Rightarrow> console" where
  "newline s = set_x 0 (next_y s)"

definition backspace :: "uint32 \<Rightarrow> uint32 \<Rightarrow> console \<Rightarrow> fault + console" where
  "backspace FRcolor BKcolor s =
     (let s1 = set_x (wrap32 (XPosition (Pos s) - 1)) s in
      bindR
        (if XPosition (Pos s1) < 0 then
           bindR (columns s1) (\<lambda>cols.
             let s2 = set_x (wrap32 (wrap32 (cols - 1) * XCharSize (Pos s1))) s1;
                 s3 = set_y (wrap32 (YPosition (Pos s2) - 1)) s2
             in if YPosition (Pos s3) < 0 then
                  bindR (lines_of s3) (\<lambda>rows.
                    Inr (set_y (wrap32 (wrap32 (rows - 1) * YCharSize (Pos s3))) s3))
                else Inr s3)
         else Inr s1)
        (\<lambda>s4. Inr (draw FRcolor BKcolor CHR '' '' s4)))"

definition tab :: "uint32 \<Rightarrow> uint32 \<Rightarrow> console \<Rightarrow> console" where
  "tab FRcolor BKcolor s =
     (let tab_cnt = wrap32 ((wrap32 (XPosition (Pos s) + 8) AND NOT (8 - 1)) - XPosition (Pos s))
      in ((\<lambda>s. next_x (draw FRcolor BKcolor CHR '' '' s)) ^^ nat (tab_cnt mod 4294967296)) s)"

definition wrap_cursor :: "console \<Rightarrow> fault + console" where
  "wrap_cursor s =
     bindR (columns s) (\<lambda>cols.
       let s1 = (if XPosition (Pos s) \<ge> cols then newline s else s)
       in bindR (lines_of s1) (\<lambda>rows.
            Inr (if YPosition (Pos s1) \<ge> rows then set_y 0 s1 else s1)))"

definition print_char :: "uint32 \<Rightarrow> uint32 \<Rightarrow> char \<Rightarrow> console \<Rightarrow> fault + console" where
  "print_char FRcolor BKcolor c s =
     bindR
       (if c = CHR 0x0A then Inr (newline s)
        else if c = CHR 0x08 then backspace FRcolor BKcolor s
        else if c = CHR 0x09 then Inr (tab FRcolor BKcolor s)
        else Inr (next_x (draw FRcolor BKcolor c s)))
       wrap_cursor"

text \<open>\<^verbatim>\<open>__buf\<close> has 4096 places; the text and its terminator are written there unchecked.\<close>

definition color_printk ::
  "uint32 \<Rightarrow> uint32 \<Rightarrow> mem8 \<Rightarrow> string \<Rightarrow> uint64 list \<Rightarrow> console \<Rightarrow> fault + int \<times> console" where
  "color_printk FRcolor BKcolor m fmt args s =
     bindR (vsprintf m fmt args) (\<lambda>buf.
       if length buf \<ge> 4096 then Inl ArrayOverflow
       else bindR (foldR (print_char FRcolor BKcolor) buf s) (\<lambda>s1. Inr (int (length buf), s1)))"

definition printf :: "mem8 \<Rightarrow> string \<Rightarrow> uint64 list \<Rightarrow> console \<Rightarrow> fault + console" where
  "printf m fmt args s = bindR (color_printk WHITE BLACK m fmt args s) (\<lambda>(n, s1). Inr s1)"

definition set_pos :: "position \<Rightarrow> console \<Rightarrow> console" where
  "set_pos new s = s\<lparr>Pos := new\<rparr>"

definition putchar :: "char \<Rightarrow> console \<Rightarrow> fault + console" where
  "putchar ch s = print_char WHITE BLACK ch s"

definition dump_bin :: "uint64 \<Rightarrow> console \<Rightarrow> fault + console" where
  "dump_bin i s =
     bindR (putchar CHR ''0'' s) (\<lambda>s1. bindR (putchar CHR ''b'' s1)
       (foldR (\<lambda>j. if i AND shl64 1 j \<noteq> 0 then putchar CHR ''1'' else putchar CHR ''0'') (rev [0 ..< 64])))"

definition dump_hex :: "mem8 \<Rightarrow> uint64 \<Rightarrow> console \<Rightarrow> fault + console" where
  "dump_hex m i s = printf m ''%#016x'' [i] s"

section \<open>Drawing\<close>

lemma Pos_simps [simp]:
  "Pos (draw fr bk c s) = Pos s"
  "Pos (set_x x s) = (Pos s)\<lparr>XPosition := x\<rparr>" "Pos (set_y y s) = (Pos s)\<lparr>YPosition := y\<rparr>"
  "fb (set_x x s) = fb s" "fb (set_y y s) = fb s"
  by (simp_all add: draw_def set_x_def set_y_def)

text \<open>The state of one pixel after a row and after a glyph.\<close>

lemma put_row_pixel:
  "put_row a fr bk row f p =
     (if a \<le> p \<and> p < a + 8 then (if bit row (nat (7 - (p - a))) then fr else bk) else f p)"
proof -
  have bit: "row AND push_bit k 1 \<noteq> 0 \<longleftrightarrow> bit row k" if "k < 8" for k
  proof
    assume "bit row k"
    then have "bit (row AND push_bit k 1) k"
      using that by (simp add: bit_and_iff bit_push_bit_iff del: push_bit_of_1)
    then show "row AND push_bit k 1 \<noteq> 0" by (auto simp del: push_bit_of_1)
  next
    show "row AND push_bit k 1 \<noteq> 0 \<Longrightarrow> bit row k"
      by (rule ccontr, erule notE, rule bit_word_eqI)
        (auto simp: bit_and_iff bit_push_bit_iff bit_1_iff simp del: push_bit_of_1)
  qed
  have "fold (\<lambda>j f. f(a + int j := if row AND push_bit (7 - j) 1 \<noteq> 0 then fr else bk)) [0 ..< n] f p =
      (if a \<le> p \<and> p < a + int n then (if bit row (nat (7 - (p - a))) then fr else bk) else f p)"
    if "n \<le> 8" for n
    using that
  proof (induction n)
    case 0
    show ?case by auto
  next
    case (Suc n)
    have "nat (7 - int n) = 7 - n" by simp
    with Suc bit [of "7 - n"] show ?case by auto
  qed
  from this [of 8] show ?thesis by (simp add: put_row_def)
qed

lemma same_row:
  fixes xs :: int
  assumes "0 \<le> u" "u < xs" "0 \<le> x" "x + 8 \<le> xs"
  shows "xs * r + x \<le> xs * v + u \<and> xs * v + u < xs * r + x + 8 \<longleftrightarrow> v = r \<and> x \<le> u \<and> u < x + 8"
proof
  assume a: "xs * r + x \<le> xs * v + u \<and> xs * v + u < xs * r + x + 8"
  have "\<not> v < r"
  proof
    assume "v < r"
    then have "xs * (v + 1) \<le> xs * r" using assms by (intro mult_left_mono) auto
    then have "xs * v + xs \<le> xs * r" by (simp add: algebra_simps)
    with a assms show False by linarith
  qed
  moreover have "\<not> r < v"
  proof
    assume "r < v"
    then have "xs * (r + 1) \<le> xs * v" using assms by (intro mult_left_mono) auto
    then have "xs * r + xs \<le> xs * v" by (simp add: algebra_simps)
    with a assms show False by linarith
  qed
  ultimately have "v = r" by linarith
  with a show "v = r \<and> x \<le> u \<and> u < x + 8" by simp
qed auto

lemma put_glyph_pixel:
  assumes u: "0 \<le> u" "u < xs" and x: "0 \<le> x" "x + 8 \<le> xs"
    and y: "0 \<le> y" "xs * (y + 16) < 2147483648"
  shows "put_glyph xs x y fr bk c f (xs * v + u) =
    (if x \<le> u \<and> u < x + 8 \<and> y \<le> v \<and> v < y + 16
     then (if bit (font_ascii ! of_char c ! nat (v - y)) (nat (7 - (u - x))) then fr else bk)
     else f (xs * v + u))"
proof -
  have rows: "wrap32 (xs * wrap32 (y + int i)) = xs * (y + int i)" if "i < 16" for i
  proof -
    have "8 * (y + 16) < 2147483648"
      by (rule le_less_trans [OF mult_right_mono y(2)]) (use x y in auto)
    then have small: "y + 16 < 2147483648" using y(1) by simp
    have "xs * (y + int i) \<le> xs * (y + 16)" using that x by (intro mult_left_mono) auto
    moreover have "0 \<le> xs * (y + int i)" using x y by simp
    ultimately show ?thesis using small that y by simp
  qed
  have "fold (\<lambda>i. put_row (wrap32 (xs * wrap32 (y + int i)) + x) fr bk (font_ascii ! of_char c ! i))
      [0 ..< n] f (xs * v + u) =
    (if x \<le> u \<and> u < x + 8 \<and> y \<le> v \<and> v < y + int n
     then (if bit (font_ascii ! of_char c ! nat (v - y)) (nat (7 - (u - x))) then fr else bk)
     else f (xs * v + u))" if "n \<le> 16" for n
    using that
  proof (induction n)
    case 0
    show ?case by auto
  next
    case (Suc n)
    have "v = y + int n \<and> x \<le> u \<and> u < x + 8 \<longleftrightarrow>
        xs * (y + int n) + x \<le> xs * v + u \<and> xs * v + u < xs * (y + int n) + x + 8"
      using same_row [OF u x, of "y + int n" v] by blast
    then show ?case
      using Suc rows [of n]
      by (cases "v = y + int n") (auto simp: put_row_pixel)
  qed
  from this [of 16] show ?thesis by (simp add: put_glyph_def)
qed

section \<open>The cursor\<close>

text \<open>
  A console the code has set up: a frame buffer of at least one character in each direction, cells
  8 by 16, pixels that 32-bit indices reach, and the cursor on a cell.
\<close>

definition cols :: "console \<Rightarrow> int" where "cols s = XResolution (Pos s) div 8"
definition rows :: "console \<Rightarrow> int" where "rows s = YResolution (Pos s) div 16"

definition screen :: "console \<Rightarrow> bool" where
  "screen s \<longleftrightarrow> XCharSize (Pos s) = 8 \<and> YCharSize (Pos s) = 16 \<and>
     8 \<le> XResolution (Pos s) \<and> 16 \<le> YResolution (Pos s) \<and>
     XResolution (Pos s) < 65536 \<and> YResolution (Pos s) < 16384"

definition cursor_ok :: "console \<Rightarrow> bool" where
  "cursor_ok s \<longleftrightarrow> screen s \<and> 0 \<le> XPosition (Pos s) \<and> XPosition (Pos s) < cols s \<and>
     0 \<le> YPosition (Pos s) \<and> YPosition (Pos s) < rows s"

definition cursor :: "console \<Rightarrow> int \<times> int" where
  "cursor s = (XPosition (Pos s), YPosition (Pos s))"

text \<open>
  How a character moves the cursor on a screen of \<open>w\<close> by \<open>h\<close> cells: a backspace in column 0 does
  not move it.
\<close>

fun move :: "int \<Rightarrow> int \<Rightarrow> char \<Rightarrow> int \<times> int \<Rightarrow> int \<times> int" where
  "move w h c (x, y) =
     (let x1 = (if c = CHR 0x0A then w else if c = CHR 0x08 then x - 1
                else if c = CHR 0x09 then (x div 8 + 1) * 8 else x + 1)
      in if x1 < 0 then (0, if w = 1 then (if y = 0 then 0 else y - 1) else y)
         else if x1 < w then (x1, y)
         else (0, if y + 1 < h then y + 1 else 0))"

lemma columns_rows:
  assumes "screen s"
  shows "columns s = Inr (cols s)" "lines_of s = Inr (rows s)" "1 \<le> cols s" "1 \<le> rows s"
    "cols s \<le> 8192" "rows s \<le> 1024"
  using assms by (simp_all add: screen_def columns_def lines_of_def cdiv_def cols_def rows_def) linarith+

lemma cursor_simps [simp]:
  "cursor (draw fr bk c s) = cursor s" "cursor (set_x x s) = (x, snd (cursor s))"
  "cursor (set_y y s) = (fst (cursor s), y)"
  by (simp_all add: cursor_def)

lemma screen_simps [simp]:
  "screen (draw fr bk c s) = screen s" "screen (set_x x s) = screen s" "screen (set_y y s) = screen s"
  "cols (draw fr bk c s) = cols s" "cols (set_x x s) = cols s" "cols (set_y y s) = cols s"
  "rows (draw fr bk c s) = rows s" "rows (set_x x s) = rows s" "rows (set_y y s) = rows s"
  by (simp_all add: screen_def cols_def rows_def)

definition at :: "int \<Rightarrow> int \<Rightarrow> console \<Rightarrow> console \<Rightarrow> bool" where
  "at x y s0 s \<longleftrightarrow> screen s \<and> cols s = cols s0 \<and> rows s = rows s0 \<and>
     XPosition (Pos s) = x \<and> YPosition (Pos s) = y"

lemma tab_at:
  assumes "screen s" and "0 \<le> XPosition (Pos s)" and "XPosition (Pos s) < 8192"
  shows "at ((XPosition (Pos s) div 8 + 1) * 8) (YPosition (Pos s)) s (tab fr bk s)"
proof -
  let ?x = "XPosition (Pos s)"
  have iter: "at (?x + int n) (YPosition (Pos s)) s (((\<lambda>s. next_x (draw fr bk CHR '' '' s)) ^^ n) s)"
    if "n \<le> 8" for n
    using that
  proof (induction n)
    case 0
    show ?case using assms by (simp add: at_def)
  next
    case (Suc n)
    then show ?case using assms by (simp add: at_def next_x_def)
  qed
  have "(?x + 8) AND NOT 7 = (?x + 8) div 8 * 8"
  proof -
    have "(?x + 8) AND NOT (mask 3) = push_bit 3 (drop_bit 3 (?x + 8))"
      by (rule bit_eqI) (auto simp: bit_and_iff bit_not_iff bit_push_bit_iff bit_drop_bit_eq bit_mask_iff)
    then show ?thesis by (simp add: mask_eq_exp_minus_1 push_bit_eq_mult drop_bit_eq_div)
  qed
  then have cnt: "wrap32 ((wrap32 (?x + 8) AND NOT (8 - 1)) - ?x) = 8 - ?x mod 8"
    using assms by (simp add: minus_mod_eq_div_mult [symmetric])
  have range: "0 < 8 - ?x mod 8" "8 - ?x mod 8 \<le> 8" by simp_all
  then have "nat ((8 - ?x mod 8) mod 4294967296) = nat (8 - ?x mod 8)" by simp
  then have eq: "tab fr bk s = ((\<lambda>s. next_x (draw fr bk CHR '' '' s)) ^^ nat (8 - ?x mod 8)) s"
    by (simp only: tab_def Let_def cnt)
  have x: "?x + int (nat (8 - ?x mod 8)) = (?x div 8 + 1) * 8"
    using range by (simp add: minus_mod_eq_div_mult [symmetric])
  have "nat (8 - ?x mod 8) \<le> 8" using range by linarith
  from iter [OF this] show ?thesis unfolding eq x .
qed

lemma wrap_cursor_at:
  assumes "at x y s0 s" and "0 \<le> x" and "x \<le> 100000" and "0 \<le> y" and "y \<le> 100000"
  shows "\<exists>s'. wrap_cursor s = Inr s' \<and> fb s' = fb s \<and>
    at (if x < cols s0 then x else 0)
      (if (if x < cols s0 then y else y + 1) < rows s0 then (if x < cols s0 then y else y + 1) else 0) s0 s'"
proof -
  have scr: "screen s" using assms(1) by (simp add: at_def)
  have scr': "columns (newline s) = Inr (cols s)" "lines_of (newline s) = Inr (rows s)"
    "columns s = Inr (cols s)" "lines_of s = Inr (rows s)"
    using columns_rows(1,2) [of "newline s"] columns_rows(1,2) [OF scr] scr
    by (simp_all add: newline_def next_y_def)
  show ?thesis
    using assms scr' by (auto simp: wrap_cursor_def at_def newline_def next_y_def Let_def)
qed

lemma backspace_at:
  assumes "cursor_ok s"
  shows "\<exists>x y s'. backspace fr bk s = Inr s' \<and> at x y s s' \<and> 0 \<le> x \<and> x \<le> 65536 \<and> 0 \<le> y \<and> y \<le> 16384 \<and>
    (if XPosition (Pos s) > 0 then x = XPosition (Pos s) - 1 \<and> y = YPosition (Pos s)
     else x = (cols s - 1) * 8 \<and>
       y = (if YPosition (Pos s) > 0 then YPosition (Pos s) - 1 else (rows s - 1) * 16))"
proof -
  have scr: "screen s" using assms by (simp add: cursor_ok_def)
  note cr = columns_rows [OF scr]
  have c: "columns (set_x x t) = columns t" "lines_of (set_y y (set_x x t)) = lines_of t"
    "lines_of (set_x x t) = lines_of t" "lines_of (set_y y t) = lines_of t" for x y t
    by (simp_all add: columns_def lines_of_def)
  have ch: "XCharSize (Pos s) = 8" "YCharSize (Pos s) = 16" using scr by (simp_all add: screen_def)
  show ?thesis
    using assms scr cr
    by (auto simp: backspace_def Let_def at_def c ch cursor_ok_def)
qed

lemma print_char_moves:
  assumes "cursor_ok s"
  shows "\<exists>s'. print_char fr bk c s = Inr s' \<and> cursor_ok s' \<and> cols s' = cols s \<and> rows s' = rows s \<and>
    cursor s' = move (cols s) (rows s) c (cursor s)"
proof -
  let ?x = "XPosition (Pos s)" and ?y = "YPosition (Pos s)"
  have scr: "screen s" and b: "0 \<le> ?x" "?x < cols s" "0 \<le> ?y" "?y < rows s"
    using assms by (simp_all add: cursor_ok_def)
  note cr = columns_rows [OF scr]
  have finish: ?thesis
    if "print_char fr bk c s = wrap_cursor s1" "at x y s s1" "0 \<le> x" "x \<le> 100000" "0 \<le> y" "y \<le> 100000"
      "move (cols s) (rows s) c (?x, ?y) = (if x < cols s then x else 0,
        if (if x < cols s then y else y + 1) < rows s then (if x < cols s then y else y + 1) else 0)"
    for s1 x y
  proof -
    from wrap_cursor_at [OF that(2-6)] obtain s' where "wrap_cursor s1 = Inr s'"
      "at (if x < cols s then x else 0)
        (if (if x < cols s then y else y + 1) < rows s then (if x < cols s then y else y + 1) else 0) s s'"
      by blast
    with that b cr show ?thesis by (simp add: at_def cursor_def cursor_ok_def)
  qed
  consider "c = CHR 0x0A" | "c = CHR 0x08" | "c = CHR 0x09"
    | "c \<noteq> CHR 0x0A" "c \<noteq> CHR 0x08" "c \<noteq> CHR 0x09" by blast
  then show ?thesis
  proof cases
    case 1
    show ?thesis
      by (rule finish [of "newline s" 0 "?y + 1"])
        (use 1 scr b cr in \<open>auto simp: print_char_def at_def newline_def next_y_def Let_def\<close>)
  next
    case 2
    from backspace_at [OF assms, of fr bk] obtain x y s1 where bs: "backspace fr bk s = Inr s1" "at x y s s1"
      "0 \<le> x" "x \<le> 65536" "0 \<le> y" "y \<le> 16384"
      "if ?x > 0 then x = ?x - 1 \<and> y = ?y
       else x = (cols s - 1) * 8 \<and> y = (if ?y > 0 then ?y - 1 else (rows s - 1) * 16)" by blast
    show ?thesis
      by (rule finish [of s1 x y]) (use 2 bs b cr in \<open>auto simp: print_char_def Let_def split: if_splits\<close>)
  next
    case 3
    have "0 \<le> ?x div 8" "?x div 8 \<le> ?x" using b by linarith+
    then show ?thesis
      using tab_at [OF scr b(1)] b cr 3
      by (intro finish [of "tab fr bk s" "(?x div 8 + 1) * 8" ?y]) (auto simp: print_char_def Let_def)
  next
    case 4
    show ?thesis
      by (rule finish [of "next_x (draw fr bk c s)" "?x + 1" ?y])
        (use 4 scr b cr in \<open>auto simp: print_char_def at_def next_x_def Let_def\<close>)
  qed
qed

section \<open>Printing a text\<close>

text \<open>
  What the printing functions rely on: a routine that puts one character, never fails on a good
  terminal, keeps it good, and moves the cursor as a function of the character and the cursor alone.
\<close>

locale terminal =
  fixes put :: "char \<Rightarrow> 's \<Rightarrow> 'e + 's"
    and good :: "'s \<Rightarrow> bool"
    and where_at :: "'s \<Rightarrow> 'p"
    and size_of :: "'s \<Rightarrow> 'z"
    and step :: "'z \<Rightarrow> char \<Rightarrow> 'p \<Rightarrow> 'p"
  assumes put_step: "good s \<Longrightarrow> \<exists>t. put c s = Inr t \<and> good t \<and> size_of t = size_of s \<and>
    where_at t = step (size_of s) c (where_at s)"
begin

lemma put_text:
  "good s \<Longrightarrow> \<exists>t. foldR put cs s = Inr t \<and> good t \<and> size_of t = size_of s \<and>
     where_at t = foldl (\<lambda>p c. step (size_of s) c p) (where_at s) cs"
proof (induction cs arbitrary: s)
  case Nil
  then show ?case by simp
next
  case (Cons c cs)
  from put_step [OF Cons.prems] obtain t where t: "put c s = Inr t" "good t" "size_of t = size_of s"
    "where_at t = step (size_of s) c (where_at s)" by blast
  with Cons.IH [OF t(2)] show ?case by auto
qed

lemma put_two:
  "good s \<Longrightarrow> \<exists>t. bindR (put a s) (foldR put cs) = Inr t \<and> good t"
  using put_text [of s "a # cs"] by auto

end

interpretation tty: terminal "print_char fr bk" cursor_ok cursor "\<lambda>s. (cols s, rows s)"
  "\<lambda>(w, h). move w h" for fr bk
proof unfold_locales
  fix c s
  assume "cursor_ok s"
  from print_char_moves [OF this, of fr bk c]
  show "\<exists>t. print_char fr bk c s = Inr t \<and> cursor_ok t \<and> (cols t, rows t) = (cols s, rows s) \<and>
      cursor t = (case (cols s, rows s) of (w, h) \<Rightarrow> move w h) c (cursor s)"
    by simp
qed

section \<open>Properties\<close>

text \<open>The console the kernel sets up: 1440 by 900 pixels, cells of 8 by 16, the frame buffer white.\<close>

definition wide_screen :: console where
  "wide_screen = \<lparr>Pos = \<lparr>XResolution = 1440, YResolution = 900, XPosition = 0, YPosition = 0,
     XCharSize = 8, YCharSize = 16, FB_addr = 0xffff800000a00000, FB_length = 5184000\<rparr>,
     fb = (\<lambda>_. 0xffffff)\<rparr>"

lemma cursor_ok_wide_screen [simp]:
  "cursor_ok wide_screen" "cols wide_screen = 180" "rows wide_screen = 56" "cursor wide_screen = (0, 0)"
  by (simp_all add: cursor_ok_def screen_def cols_def rows_def wide_screen_def cursor_def)



text \<open>
  A printable character is drawn in its cell and nowhere else: pixel \<open>(u, v)\<close> of the
  frame buffer shows the glyph of the font in the foreground colour inside the 8 by 16 pixels of the
  cell under the cursor, and keeps its colour outside.
\<close>

theorem character_drawn_in_cell:
  assumes "cursor_ok s" and "c \<notin> {CHR 0x0A, CHR 0x08, CHR 0x09}" and "0 \<le> u" and "u < XResolution (Pos s)"
  shows "\<exists>t. print_char fr bk c s = Inr t \<and>
    fb t (XResolution (Pos s) * v + u) =
      (if u div 8 = XPosition (Pos s) \<and> v div 16 = YPosition (Pos s)
       then (if bit (font_ascii ! of_char c ! nat (v mod 16)) (nat (7 - u mod 8)) then fr else bk)
       else fb s (XResolution (Pos s) * v + u))"
proof -
  let ?x = "XPosition (Pos s)" and ?y = "YPosition (Pos s)" and ?xs = "XResolution (Pos s)"
  have scr: "screen s" and b: "0 \<le> ?x" "?x < cols s" "0 \<le> ?y" "?y < rows s"
    using assms(1) by (simp_all add: cursor_ok_def)
  note cr = columns_rows [OF scr]
  have at: "at (?x + 1) ?y s (next_x (draw fr bk c s))"
    using scr b cr by (simp add: at_def next_x_def)
  obtain t where t: "wrap_cursor (next_x (draw fr bk c s)) = Inr t" "fb t = fb (next_x (draw fr bk c s))"
    using wrap_cursor_at [OF at] b cr by auto
  then have run: "print_char fr bk c s = Inr t"
    using assms(2) by (simp add: print_char_def)
  have w: "wrap32 (?x * 8) = ?x * 8" "wrap32 (?y * 16) = ?y * 16" using b cr by simp_all
  have edge: "?x * 8 + 8 \<le> ?xs" "?y * 16 + 16 \<le> 16384" "?xs < 65536"
    using b scr by (simp_all add: cols_def rows_def screen_def) linarith+
  have "?xs * (?y * 16 + 16) \<le> ?xs * 16384" using edge b by (intro mult_left_mono) simp_all
  also have "\<dots> < 2147483648" using edge by simp
  finally have small: "?xs * (?y * 16 + 16) < 2147483648" .
  have "fb t (?xs * v + u) = put_glyph ?xs (?x * 8) (?y * 16) fr bk c (fb s) (?xs * v + u)"
    using scr by (simp add: t(2) next_x_def draw_def screen_def w)
  also have "\<dots> = (if ?x * 8 \<le> u \<and> u < ?x * 8 + 8 \<and> ?y * 16 \<le> v \<and> v < ?y * 16 + 16
      then (if bit (font_ascii ! of_char c ! nat (v - ?y * 16)) (nat (7 - (u - ?x * 8))) then fr else bk)
      else fb s (?xs * v + u))"
    by (rule put_glyph_pixel) (use assms(3,4) b edge small in simp_all)
  finally have pixel: "fb t (?xs * v + u) = (if ?x * 8 \<le> u \<and> u < ?x * 8 + 8 \<and> ?y * 16 \<le> v \<and> v < ?y * 16 + 16
      then (if bit (font_ascii ! of_char c ! nat (v - ?y * 16)) (nat (7 - (u - ?x * 8))) then fr else bk)
      else fb s (?xs * v + u))" .
  have cell: "?x * 8 \<le> u \<and> u < ?x * 8 + 8 \<longleftrightarrow> u div 8 = ?x" "?y * 16 \<le> v \<and> v < ?y * 16 + 16 \<longleftrightarrow> v div 16 = ?y"
    by linarith+
  have "fb t (?xs * v + u) = (if u div 8 = ?x \<and> v div 16 = ?y
      then (if bit (font_ascii ! of_char c ! nat (v mod 16)) (nat (7 - u mod 8)) then fr else bk)
      else fb s (?xs * v + u))"
  proof (cases "u div 8 = ?x \<and> v div 16 = ?y")
    case True
    then have "u - ?x * 8 = u mod 8" "v - ?y * 16 = v mod 16"
      by (auto simp: minus_div_mult_eq_mod [symmetric])
    with True cell pixel show ?thesis by simp
  next
    case False
    then have "\<not> (?x * 8 \<le> u \<and> u < ?x * 8 + 8 \<and> ?y * 16 \<le> v \<and> v < ?y * 16 + 16)" using cell by blast
    with pixel have "fb t (?xs * v + u) = fb s (?xs * v + u)" by (simp only: if_False)
    with False show ?thesis by (simp only: if_False)
  qed
  with run show ?thesis by blast
qed

theorem character_drawn_in_cell_witness:
  "\<exists>t. print_char RED BLACK CHR '' '' wide_screen = Inr t \<and> fb t 1443 = BLACK"
proof -
  have "XResolution (Pos wide_screen) = 1440" "XPosition (Pos wide_screen) = 0" "YPosition (Pos wide_screen) = 0"
    by (simp_all add: wide_screen_def)
  with character_drawn_in_cell [OF cursor_ok_wide_screen(1), of "CHR '' ''" 3 RED BLACK 1]
  show ?thesis by (auto simp: blank_glyph)
qed

text \<open>
  A backspace in the first column does not go back. It is meant to move to the last
  column of the line above; the positions are computed in pixels instead of cells, so the cursor ends
  where it was. In the first line the blank it draws lies outside the frame buffer: pixels at and
  beyond \<^verbatim>\<open>XResolution * YResolution\<close> are overwritten with the background colour.
\<close>

theorem backspace_at_column_0:
  assumes "cursor_ok s" and "XPosition (Pos s) = 0" and "YPosition (Pos s) = 0"
    and "XResolution (Pos s) = 1440" and "YResolution (Pos s) = 900"
  shows "\<exists>t. print_char fr bk CHR 0x08 s = Inr t \<and> cursor t = (0, 0) \<and>
    (\<exists>p \<ge> 1440 * 900. fb t p = bk)"
proof -
  have scr: "screen s" using assms(1) by (simp add: cursor_ok_def)
  let ?d = "draw fr bk CHR '' '' (set_y 880 (set_x 1432 s))"
  have cr: "columns s = Inr 180" "lines_of s = Inr 56" "cols s = 180" "rows s = 56"
    using columns_rows [OF scr] assms(4,5) by (simp_all add: cols_def rows_def)
  have bs: "backspace fr bk s = Inr ?d"
    using assms scr cr
    by (simp add: backspace_def Let_def screen_def columns_def lines_of_def) (simp add: set_x_def set_y_def)
  have "at 1432 880 s ?d" using scr by (simp add: at_def)
  then obtain t where t: "wrap_cursor ?d = Inr t" "fb t = fb ?d"
    using wrap_cursor_at [of 1432 880 s ?d] by auto
  then have run: "print_char fr bk CHR 0x08 s = Inr t" by (simp add: print_char_def bs)
  have "fb ?d (1440 * 14080 + 11456) =
      put_glyph 1440 11456 14080 fr bk CHR '' '' (fb s) (1440 * 14080 + 11456)"
    using scr assms(4) by (simp add: draw_def screen_def set_x_def set_y_def)
  also have "\<dots> = bk"
  proof -
    have row: "put_row a fr bk 0 f p = (if a \<le> p \<and> p < a + 8 then bk else f p)" for a f p
      by (simp add: put_row_pixel)
    have "put_glyph 1440 11456 14080 fr bk CHR '' '' f =
        fold (\<lambda>i. put_row (wrap32 (1440 * wrap32 (14080 + int i)) + 11456) fr bk 0) [0 ..< 16] f" for f
      unfolding put_glyph_def by (rule fold_cong) (simp_all add: blank_glyph)
    moreover have "[0 ..< 16] = [0, 1, 2, 3, 4, 5, 6, 7, 8, 9, 10, 11, 12, 13, 14, 15 :: nat]"
      by (simp add: upt_rec)
    ultimately show ?thesis by (simp add: row)
  qed
  finally have "fb t (1440 * 14080 + 11456) = bk" by (simp add: t(2))
  moreover have "cursor t = (0, 0)"
    using print_char_moves [OF assms(1), of fr bk "CHR 0x08"] run assms(2,3) cr by (simp add: cursor_def)
  ultimately show ?thesis
    using run by (intro exI [of _ t]) (auto intro: exI [of _ "1440 * 14080 + 11456"])
qed

theorem backspace_at_column_0_witness:
  "\<exists>t. print_char WHITE BLACK CHR 0x08 wide_screen = Inr t \<and> (\<exists>p \<ge> 1440 * 900. fb t p = BLACK) \<and>
    (\<forall>p. fb wide_screen p \<noteq> BLACK)"
proof -
  have "\<forall>p. fb wide_screen p \<noteq> BLACK" by (simp add: wide_screen_def BLACK_def)
  moreover have "XPosition (Pos wide_screen) = 0" "YPosition (Pos wide_screen) = 0"
    "XResolution (Pos wide_screen) = 1440" "YResolution (Pos wide_screen) = 900"
    by (simp_all add: wide_screen_def)
  ultimately show ?thesis
    using backspace_at_column_0 [OF cursor_ok_wide_screen(1), of WHITE BLACK] by blast
qed

section \<open>Types\<close>

text \<open>
  What C says of the state by its types alone: the fields are values of \<^verbatim>\<open>int\<close>. With a resolution that
  is not negative and cells that are not empty no division fails, wherever the cursor is. The cursor is
  the only part of \<^verbatim>\<open>Pos\<close> that printing changes.
\<close>

definition int_range :: "int set" where
  "int_range = {- 2147483648 ..< 2147483648}"

definition well_typed :: "console \<Rightarrow> bool" where
  "well_typed s \<longleftrightarrow> {XResolution (Pos s), YResolution (Pos s), XPosition (Pos s), YPosition (Pos s),
       XCharSize (Pos s), YCharSize (Pos s)} \<subseteq> int_range \<and>
     0 \<le> XResolution (Pos s) \<and> 0 \<le> YResolution (Pos s) \<and> XCharSize (Pos s) \<noteq> 0 \<and> YCharSize (Pos s) \<noteq> 0"

definition geometry :: "console \<Rightarrow> position" where
  "geometry s = (Pos s)\<lparr>XPosition := 0, YPosition := 0\<rparr>"

lemma wrap32_int_range [simp]: "wrap32 x \<in> int_range" "0 \<in> int_range"
  using wrap32_bounds [of x] by (auto simp: int_range_def)

lemma typed_simps [simp]:
  "well_typed s \<Longrightarrow> x \<in> int_range \<Longrightarrow> well_typed (set_x x s)" "well_typed s \<Longrightarrow> x \<in> int_range \<Longrightarrow> well_typed (set_y x s)"
  "well_typed (draw fr bk c s) = well_typed s"
  "geometry (set_x x s) = geometry s" "geometry (set_y x s) = geometry s" "geometry (draw fr bk c s) = geometry s"
  by (auto simp: well_typed_def geometry_def)

lemma typed_division:
  "well_typed s \<Longrightarrow> \<exists>n. columns s = Inr n" "well_typed s \<Longrightarrow> \<exists>n. lines_of s = Inr n"
  by (auto simp: well_typed_def columns_def lines_of_def cdiv_def)

definition fine :: "console \<Rightarrow> fault + console \<Rightarrow> bool" where
  "fine s r \<longleftrightarrow> (\<exists>t. r = Inr t \<and> well_typed t \<and> geometry t = geometry s)"

lemma typed_wrap_cursor: "well_typed s \<Longrightarrow> fine s (wrap_cursor s)"
proof -
  assume s: "well_typed s"
  obtain n where n: "columns s = Inr n" using typed_division(1) [OF s] by blast
  define s1 where "s1 = (if XPosition (Pos s) \<ge> n then newline s else s)"
  have s1: "well_typed s1" "geometry s1 = geometry s" using s by (simp_all add: s1_def newline_def next_y_def)
  obtain k where "lines_of s1 = Inr k" using typed_division(2) [OF s1(1)] by blast
  then show ?thesis
    using s1 n by (simp add: fine_def wrap_cursor_def Let_def s1_def [symmetric])
qed

lemma typed_backspace: "well_typed s \<Longrightarrow> fine s (backspace fr bk s)"
proof -
  assume s: "well_typed s"
  define s1 where "s1 = set_x (wrap32 (XPosition (Pos s) - 1)) s"
  have s1: "well_typed s1" "geometry s1 = geometry s" using s by (simp_all add: s1_def)
  obtain n where n: "columns s1 = Inr n" using typed_division(1) [OF s1(1)] by blast
  define s2 where "s2 = set_x (wrap32 (wrap32 (n - 1) * XCharSize (Pos s1))) s1"
  define s3 where "s3 = set_y (wrap32 (YPosition (Pos s2) - 1)) s2"
  have s3: "well_typed s3" "geometry s3 = geometry s" using s1 by (simp_all add: s2_def s3_def)
  obtain k where "lines_of s3 = Inr k" using typed_division(2) [OF s3(1)] by blast
  then show ?thesis
    using s1 s3 n by (simp add: fine_def backspace_def Let_def s1_def [symmetric] s2_def [symmetric] s3_def [symmetric])
qed

lemma typed_tab: "well_typed s \<Longrightarrow> well_typed (tab fr bk s) \<and> geometry (tab fr bk s) = geometry s"
proof -
  assume s: "well_typed s"
  have "well_typed (((\<lambda>s. next_x (draw fr bk CHR '' '' s)) ^^ n) s) \<and>
      geometry (((\<lambda>s. next_x (draw fr bk CHR '' '' s)) ^^ n) s) = geometry s" for n
    using s by (induction n) (simp_all add: next_x_def)
  then show ?thesis by (simp add: tab_def Let_def)
qed

lemma typed_print_char:
  assumes "well_typed s"
  shows "fine s (print_char fr bk c s)"
proof -
  have "fine s (if c = CHR 0x0A then Inr (newline s) else if c = CHR 0x08 then backspace fr bk s
        else if c = CHR 0x09 then Inr (tab fr bk s) else Inr (next_x (draw fr bk c s)))"
    using assms typed_backspace [OF assms] typed_tab [OF assms]
    by (auto simp: fine_def newline_def next_y_def next_x_def)
  then obtain t where t: "(if c = CHR 0x0A then Inr (newline s) else if c = CHR 0x08 then backspace fr bk s
        else if c = CHR 0x09 then Inr (tab fr bk s) else Inr (next_x (draw fr bk c s))) = Inr t"
    "well_typed t" "geometry t = geometry s" unfolding fine_def by blast
  then show ?thesis
    using typed_wrap_cursor [OF t(2)] by (simp add: fine_def print_char_def)
qed

interpretation typed: terminal "print_char fr bk" well_typed "\<lambda>_. ()" geometry "\<lambda>_ _ _. ()" for fr bk
  using typed_print_char by unfold_locales (simp add: fine_def)



text \<open>The text \<^verbatim>\<open>dump_bin\<close> writes after \<^verbatim>\<open>0b\<close>.\<close>

definition binary_text :: "uint64 \<Rightarrow> string" where
  "binary_text i = map (\<lambda>j. if bit i j then CHR ''1'' else CHR ''0'') (rev [0 ..< 64])"

lemma foldR_map: "foldR (\<lambda>x. f (g x)) xs s = foldR f (map g xs) s"
proof (induction xs arbitrary: s)
  case Nil
  then show ?case by simp
next
  case (Cons x xs)
  then show ?case by (cases "f (g x) s") simp_all
qed

lemma string_value_Cons: "string_value b (c # s) = digit_value c * b ^ length s + string_value b s"
proof -
  have "foldl (\<lambda>v c. v * b + digit_value c) v s = v * b ^ length s + foldl (\<lambda>v c. v * b + digit_value c) 0 s" for v
  proof (induction s arbitrary: v)
    case Nil
    then show ?case by simp
  next
    case (Cons d s)
    show ?case
      using Cons [of "v * b + digit_value d"] Cons [of "digit_value d"]
      by (simp add: algebra_simps del: digit_value.simps)
  qed
  from this [of "digit_value c"] show ?thesis by (simp add: string_value_def del: digit_value.simps)
qed

lemma binary_value:
  "string_value 2 (map (\<lambda>j. if bit (i :: uint64) j then CHR ''1'' else CHR ''0'') (rev [0 ..< n])) = take_bit n (unat i)"
proof (induction n)
  case 0
  then show ?case by (simp add: string_value_def)
next
  case (Suc n)
  have "digit_value (if b then CHR ''1'' else CHR ''0'') = of_bool b" for b
    by simp
  then show ?case
    using Suc by (simp add: string_value_Cons take_bit_Suc_from_most bit_unsigned_iff del: digit_value.simps)
qed

text \<open>
  \<^verbatim>\<open>dump_bin\<close> prints \<^verbatim>\<open>0b\<close> and the 64 binary digits of its argument, the highest first:
  read in base 2 they give the argument.
\<close>

theorem dump_bin_prints_binary:
  "dump_bin i s = foldR putchar (''0b'' @ binary_text i) s \<and> length (binary_text i) = 64 \<and>
   string_value 2 (binary_text i) = unat i"
proof (intro conjI)
  have bit: "i AND shl64 1 j \<noteq> 0 \<longleftrightarrow> bit i j" if "j < 64" for j
  proof
    assume "bit i j"
    then have "bit (i AND push_bit j 1) j" using that by (simp add: bit_and_iff bit_push_one del: push_bit_of_1)
    then show "i AND shl64 1 j \<noteq> 0" using that by (auto simp del: push_bit_of_1)
  next
    show "i AND shl64 1 j \<noteq> 0 \<Longrightarrow> bit i j"
      using that by (auto intro!: word64_eqI simp: bit_and_iff bit_push_one simp del: push_bit_of_1)
  qed
  have digits: "foldR (\<lambda>j. if i AND shl64 1 j \<noteq> 0 then putchar CHR ''1'' else putchar CHR ''0'') (rev [0 ..< 64]) =
      foldR putchar (binary_text i)"
    unfolding binary_text_def foldR_map [symmetric]
    by (rule ext, rule foldR_cong) (simp add: bit del: shl64_less)
  have cons: "foldR putchar (c # cs) = (\<lambda>s. bindR (putchar c s) (foldR putchar cs))" for c cs
    by (simp add: fun_eq_iff)
  show "dump_bin i s = foldR putchar (''0b'' @ binary_text i) s"
    unfolding dump_bin_def digits by (simp only: append_Cons append_Nil cons)
  show "length (binary_text i) = 64" by (simp add: binary_text_def)
  show "string_value 2 (binary_text i) = unat i"
    unfolding binary_text_def binary_value by (simp add: take_bit_nat_eq_self)
qed

text \<open>
  \<^verbatim>\<open>dump_hex\<close> loses the upper half of its 64-bit argument. It prints with \<^verbatim>\<open>%#016x\<close>,
  which takes an \<^verbatim>\<open>int32\<close>: arguments with the same low 32 bits print the same text.
\<close>

theorem dump_hex_drops_upper_half: "dump_hex m i s = dump_hex m (take_bit 32 i) s"
proof -
  have "directive m ''#016x'' [a] = bindR (convert_number None 16 16 (- 1) (SPECIAL OR ZEROPAD OR SMALL) a)
      (\<lambda>t. Inr (t, [], []))" for a
    by (simp add: directive_def parse_width_def parse_precision_def parse_qualifier_def peek_def
        is_digit_def convert_def va_arg_def NUL_def) (simp add: flag_defs)
  moreover have "arg32 (take_bit 32 i) = arg32 i"
  proof -
    have "(ucast (take_bit 32 i) :: uint32) = ucast i"
      by (rule bit_word_eqI) (simp add: bit_unsigned_iff bit_take_bit_iff)
    then show ?thesis by (simp only: arg32_def)
  qed
  ultimately have "vsprintf m ''%#016x'' [i] = vsprintf m ''%#016x'' [take_bit 32 i]"
    by (simp add: vsprintf_percent convert_number_def)
  then show ?thesis by (simp add: dump_hex_def printf_def color_printk_def)
qed

end
