(* ===== verification/Gate.thy ===== *)
theory Gate
  imports Prelude
begin

text \<open>
  \<^verbatim>\<open>include/gate.h\<close>: the interrupt descriptor table and the task state segment. \<^verbatim>\<open>_set_gate\<close> is
  inline assembly; its model is the trace of its instructions on the registers it uses. A descriptor
  is the pair of quadwords the macro stores; the fields are read back as the processor reads them.
\<close>

section \<open>The assembly of \<open>_set_gate\<close>\<close>

record gate_regs =
  g_rax :: uint64
  g_rcx :: uint64
  g_rdx :: uint64

type_synonym gate_struct = "uint64 \<times> uint64"
type_synonym idt_table = "nat \<Rightarrow> gate_struct"

text \<open>A write to a 16-bit register keeps the rest, a write to a 32-bit register clears it.\<close>

definition movw_dx_ax :: "gate_regs \<Rightarrow> gate_regs" where
  "movw_dx_ax r = r\<lparr>g_rax := (g_rax r AND NOT 0xffff) OR (g_rdx r AND 0xffff)\<rparr>"

definition movl_edx_ecx :: "gate_regs \<Rightarrow> gate_regs" where
  "movl_edx_ecx r = r\<lparr>g_rcx := g_rdx r AND 0xffffffff\<rparr>"

definition set_gate :: "uint64 \<Rightarrow> uint8 \<Rightarrow> uintptr \<Rightarrow> gate_struct" where
  "set_gate attr ist code_addr =
     (let r0 = \<lparr>g_rax = shl64 0x8 16, g_rcx = ucast ist, g_rdx = code_addr\<rparr>;
          r1 = movw_dx_ax r0;
          r2 = r1\<lparr>g_rcx := g_rcx r1 AND 0x7\<rparr>;
          r3 = r2\<lparr>g_rcx := g_rcx r2 + shl64 attr 8\<rparr>;
          r4 = r3\<lparr>g_rcx := shl64 (g_rcx r3) 32\<rparr>;
          r5 = r4\<lparr>g_rax := g_rax r4 + g_rcx r4\<rparr>;
          r6 = r5\<lparr>g_rcx := g_rcx r5 XOR g_rcx r5\<rparr>;
          r7 = movl_edx_ecx r6;
          r8 = r7\<lparr>g_rcx := shr64 (g_rcx r7) 16\<rparr>;
          r9 = r8\<lparr>g_rcx := shl64 (g_rcx r8) 48\<rparr>;
          r10 = r9\<lparr>g_rax := g_rax r9 + g_rcx r9\<rparr>;
          r11 = r10\<lparr>g_rdx := shr64 (g_rdx r10) 32\<rparr>
      in (g_rax r10, g_rdx r11))"

definition set_intr_gate :: "uint32 \<Rightarrow> uint8 \<Rightarrow> uintptr \<Rightarrow> idt_table \<Rightarrow> idt_table" where
  "set_intr_gate n ist addr idt = idt(unat n := set_gate 0x8E ist addr)"

definition set_trap_gate :: "uint32 \<Rightarrow> uint8 \<Rightarrow> uintptr \<Rightarrow> idt_table \<Rightarrow> idt_table" where
  "set_trap_gate n ist addr idt = idt(unat n := set_gate 0x8F ist addr)"

definition set_system_gate :: "uint32 \<Rightarrow> uint8 \<Rightarrow> uintptr \<Rightarrow> idt_table \<Rightarrow> idt_table" where
  "set_system_gate n ist addr idt = idt(unat n := set_gate 0xEF ist addr)"

definition set_system_intr_gate :: "uint32 \<Rightarrow> uint8 \<Rightarrow> uintptr \<Rightarrow> idt_table \<Rightarrow> idt_table" where
  "set_system_intr_gate n ist addr idt = idt(unat n := set_gate 0xEE ist addr)"

text \<open>
  \<^verbatim>\<open>TSS64_Table\<close>, 26 words of 32 bits; the code stores quadwords at word offsets. \<^verbatim>\<open>load_TR\<close> loads
  the selector of descriptor \<open>n\<close> of the GDT.
\<close>

type_synonym tss_table = "nat \<Rightarrow> uint32"

definition put64 :: "nat \<Rightarrow> uint64 \<Rightarrow> tss_table \<Rightarrow> tss_table" where
  "put64 i v t = t(i := ucast v, i + 1 := ucast (drop_bit 32 v))"

definition get64 :: "tss_table \<Rightarrow> nat \<Rightarrow> uint64" where
  "get64 t i = ucast (t i) OR push_bit 32 (ucast (t (i + 1)))"

definition set_tss64 ::
  "uint64 \<Rightarrow> uint64 \<Rightarrow> uint64 \<Rightarrow> uint64 \<Rightarrow> uint64 \<Rightarrow> uint64 \<Rightarrow> uint64 \<Rightarrow> uint64 \<Rightarrow> uint64 \<Rightarrow> uint64
     \<Rightarrow> tss_table \<Rightarrow> tss_table" where
  "set_tss64 rsp0 rsp1 rsp2 ist1 ist2 ist3 ist4 ist5 ist6 ist7 t =
     (let t1 = put64 1 rsp0 t; t2 = put64 3 rsp1 t1; t3 = put64 5 rsp2 t2;
          t4 = put64 9 ist1 t3; t5 = put64 11 ist2 t4; t6 = put64 13 ist3 t5;
          t7 = put64 15 ist4 t6; t8 = put64 17 ist5 t7; t9 = put64 19 ist6 t8
      in put64 21 ist7 t9)"

definition load_TR :: "uint16 \<Rightarrow> uint16" where
  "load_TR n = push_bit 3 n"

section \<open>Reading a descriptor back\<close>

definition gate_offset :: "gate_struct \<Rightarrow> uintptr" where
  "gate_offset d = take_bit 16 (fst d) OR push_bit 16 (drop_bit 48 (fst d)) OR push_bit 32 (take_bit 32 (snd d))"

definition gate_selector :: "gate_struct \<Rightarrow> uint64" where
  "gate_selector d = take_bit 16 (drop_bit 16 (fst d))"

definition gate_ist :: "gate_struct \<Rightarrow> uint64" where
  "gate_ist d = take_bit 8 (drop_bit 32 (fst d))"

definition gate_attr :: "gate_struct \<Rightarrow> uint64" where
  "gate_attr d = take_bit 8 (drop_bit 40 (fst d))"

lemma add_or: "(\<And>n. \<not> (bit a n \<and> bit b n)) \<Longrightarrow> a + b = (a OR b :: uint64)"
  by (rule disjunctive_add) auto

lemma low_masks: "(0xffff :: uint64) = mask 16" "(0xffffffff :: uint64) = mask 32" "(7 :: uint64) = mask 3"
  by (simp_all add: mask_eq_exp_minus_1)

lemma selector_bit: "bit (shl64 8 16) n \<longleftrightarrow> n = 19"
proof -
  have "shl64 8 16 = push_bit 19 1" by simp
  then show ?thesis by (simp only: bit_push_one) simp
qed

text \<open>Bit by bit, the first quadword.\<close>

lemma set_gate_low_bit:
  assumes "attr < 256"
  shows "bit (fst (set_gate attr ist a)) n \<longleftrightarrow>
    (n < 16 \<and> bit a n) \<or> n = 19 \<or> (32 \<le> n \<and> n < 35 \<and> bit ist (n - 32)) \<or>
    (40 \<le> n \<and> n < 48 \<and> bit attr (n - 40)) \<or> (48 \<le> n \<and> n < 64 \<and> bit a (n - 32))"
proof -
  have attr: "bit attr k \<Longrightarrow> k < 8" for k
  proof -
    assume "bit attr k"
    moreover have "attr = take_bit 8 attr"
      using assms by (simp add: take_bit_eq_mod word_less_nat_alt word_unat_eq_iff unat_mod)
    ultimately show "k < 8" by (metis bit_take_bit_iff)
  qed
  define L M H where "L = (shl64 8 16 AND NOT 0xffff) OR (a AND 0xffff)"
    and "M = (ucast ist AND 7) + shl64 attr 8" and "H = shr64 (a AND 0xffffffff) 16"
  have l: "bit L k \<longleftrightarrow> (k < 16 \<and> bit a k) \<or> k = 19" for k
    by (auto simp: L_def bit_or_iff bit_and_iff bit_not_iff low_masks bit_mask_iff selector_bit simp del: shl64_less)
  have "M = (ucast ist AND 7) OR shl64 attr 8"
    unfolding M_def by (rule add_or) (auto simp: bit_and_iff low_masks bit_mask_iff bit_push_bit_iff)
  then have m: "bit M k \<longleftrightarrow> (k < 3 \<and> bit ist k) \<or> (8 \<le> k \<and> k < 16 \<and> bit attr (k - 8))" for k
    using attr [of "k - 8"]
    by (auto simp: bit_or_iff bit_and_iff low_masks bit_mask_iff bit_push_bit_iff bit_unsigned_iff)
  have h: "bit H k \<longleftrightarrow> k < 16 \<and> bit a (k + 16)" for k
    by (auto simp: H_def bit_drop_bit_eq bit_and_iff low_masks bit_mask_iff add.commute)
  have "L + shl64 M 32 = L OR shl64 M 32"
    by (rule add_or) (auto simp: l m bit_push_bit_iff)
  moreover have "(L OR shl64 M 32) + shl64 H 48 = (L OR shl64 M 32) OR shl64 H 48"
    by (rule add_or) (auto simp: l m h bit_or_iff bit_push_bit_iff)
  moreover have "fst (set_gate attr ist a) = L + shl64 M 32 + shl64 H 48"
    by (simp add: set_gate_def movw_dx_ax_def movl_edx_ecx_def Let_def L_def M_def H_def)
  ultimately have "fst (set_gate attr ist a) = (L OR shl64 M 32) OR shl64 H 48" by (simp only:)
  then show ?thesis
    by (auto simp: l m h bit_or_iff bit_push_bit_iff)
qed

lemma set_gate_high: "snd (set_gate attr ist a) = drop_bit 32 a"
  by (simp add: set_gate_def movw_dx_ax_def movl_edx_ecx_def Let_def)

lemma gate_fields:
  assumes "attr < 256"
  shows "gate_offset (set_gate attr ist a) = a" and "gate_selector (set_gate attr ist a) = 8"
    and "gate_ist (set_gate attr ist a) = ucast ist AND 7" and "gate_attr (set_gate attr ist a) = attr"
proof -
  note low = set_gate_low_bit [OF assms]
  show "gate_offset (set_gate attr ist a) = a"
  proof (rule word64_eqI)
    fix i :: nat
    assume "i < 64"
    then show "bit (gate_offset (set_gate attr ist a)) i = bit a i"
      by (cases "i < 16"; cases "i < 32")
        (auto simp: gate_offset_def set_gate_high low bit_or_iff bit_take_bit_iff bit_push_bit_iff bit_drop_bit_eq)
  qed
  have eight: "bit (8 :: uint64) n \<longleftrightarrow> n = 3" for n
    using bit_push_one [of 3 n] by simp
  show "gate_selector (set_gate attr ist a) = 8"
  proof (rule word64_eqI)
    fix i :: nat
    assume "i < 64"
    then show "bit (gate_selector (set_gate attr ist a)) i = bit (8 :: uint64) i"
      unfolding eight by (auto simp: gate_selector_def low bit_take_bit_iff bit_drop_bit_eq)
  qed
  show "gate_ist (set_gate attr ist a) = ucast ist AND 7"
    by (rule word64_eqI) (auto simp: gate_ist_def low bit_take_bit_iff bit_drop_bit_eq bit_and_iff
        low_masks bit_mask_iff bit_unsigned_iff)
  have "attr = take_bit 8 attr"
    using assms by (simp add: take_bit_eq_mod word_less_nat_alt word_unat_eq_iff unat_mod)
  moreover have "gate_attr (set_gate attr ist a) = take_bit 8 attr"
    by (rule word64_eqI) (auto simp: gate_attr_def low bit_take_bit_iff bit_drop_bit_eq)
  ultimately show "gate_attr (set_gate attr ist a) = attr" by simp
qed

section \<open>Tables\<close>

text \<open>
  What the setup code relies on of a table in memory: writing one slot changes what that slot reads
  and nothing else. Then a run of writes to different slots is their finite map.
\<close>

locale slot_table =
  fixes slot_put :: "nat \<Rightarrow> 'd \<Rightarrow> 't \<Rightarrow> 't"
    and slot_get :: "'t \<Rightarrow> nat \<Rightarrow> 'd"
  assumes read_write: "slot_get (slot_put k d t) j = (if j = k then d else slot_get t j)"
begin

lemma read_writes:
  "distinct (map fst ws) \<Longrightarrow>
   slot_get (fold (\<lambda>(k, d). slot_put k d) ws t) j = (case map_of ws j of Some d \<Rightarrow> d | None \<Rightarrow> slot_get t j)"
proof (induction ws arbitrary: t)
  case Nil
  then show ?case by simp
next
  case (Cons w ws)
  obtain k d where w: "w = (k, d)" by fastforce
  with Cons.prems have "map_of ws k = None" by (auto simp: map_of_eq_None_iff)
  with Cons w show ?case by (auto simp: read_write split: option.splits)
qed

lemma write_twice: "slot_get (slot_put k d (slot_put k e t)) j = slot_get (slot_put k d t) j"
  by (simp add: read_write)

end

interpretation idt: slot_table "\<lambda>n d t. t(n := d)" "\<lambda>t. t :: idt_table"
  by unfold_locales simp

lemma get64_put64:
  assumes "j = i \<or> j + 1 < i \<or> i + 1 < j"
  shows "get64 (put64 i v t) j = (if j = i then v else get64 t j)"
proof (cases "j = i")
  case True
  have "ucast (ucast v :: uint32) OR push_bit 32 (ucast (ucast (drop_bit 32 v) :: uint32)) = v"
    by (rule word64_eqI) (auto simp: bit_or_iff bit_push_bit_iff bit_unsigned_iff bit_drop_bit_eq)
  with True show ?thesis by (simp add: get64_def put64_def)
next
  case False
  with assms show ?thesis by (auto simp: get64_def put64_def)
qed

text \<open>The stack slots of the task state segment are the odd word offsets.\<close>

interpretation tss: slot_table "\<lambda>k. put64 (2 * k + 1)" "\<lambda>t k. get64 t (2 * k + 1)"
proof unfold_locales
  fix k d t j
  have "2 * j + 1 = 2 * k + 1 \<or> 2 * j + 1 + 1 < 2 * k + 1 \<or> 2 * k + 1 + 1 < 2 * j + (1 :: nat)" by presburger
  from get64_put64 [OF this, of d t]
  show "get64 (put64 (2 * k + 1) d t) (2 * j + 1) = (if j = k then d else get64 t (2 * j + 1))" by simp
qed

section \<open>Properties\<close>

text \<open>
  Property C26: a descriptor reads back as it was set. For every handler address, stack index and
  8-bit attribute the descriptor \<^verbatim>\<open>_set_gate\<close> assembles in its registers has the handler's address
  as offset, the kernel code segment as selector, the low three bits of the stack index and the
  attribute.
\<close>

theorem set_gate_roundtrip:
  assumes "attr < 256"
  shows "gate_offset (set_gate attr ist code_addr) = code_addr \<and>
    gate_selector (set_gate attr ist code_addr) = 8 \<and>
    gate_ist (set_gate attr ist code_addr) = ucast ist AND 7 \<and>
    gate_attr (set_gate attr ist code_addr) = attr"
  using gate_fields [OF assms] by simp

theorem set_gate_roundtrip_witness:
  "gate_offset (set_gate 0x8E 2 0xffff8000001042a8) = 0xffff8000001042a8 \<and>
   gate_attr (set_gate 0x8E 2 0xffff8000001042a8) = 0x8E"
  using set_gate_roundtrip [of "0x8E" 2 "0xffff8000001042a8"] by simp

lemma set_tss64_unchanged:
  assumes "w \<notin> {1 ..< 7} \<union> {9 ..< 23}"
  shows "set_tss64 r0 r1 r2 i1 i2 i3 i4 i5 i6 i7 t w = t w"
proof -
  from assms have "\<forall>k \<in> {1, 2, 3, 4, 5, 6, 9, 10, 11, 12, 13, 14, 15, 16, 17, 18, 19, 20, 21, 22}. w \<noteq> k"
    by auto
  then show ?thesis
    unfolding set_tss64_def Let_def put64_def one_add_one by simp
qed

text \<open>
  \<^verbatim>\<open>set_tss64\<close> writes each of the three privilege stacks and seven interrupt stacks to
  its own place, as two 32-bit halves at the offsets the processor reads them from, and overlaps no
  other; every other word of the table is unchanged.
\<close>

theorem set_tss64_slots:
  assumes "t' = set_tss64 r0 r1 r2 i1 i2 i3 i4 i5 i6 i7 t"
  shows "map (get64 t') [1, 3, 5, 9, 11, 13, 15, 17, 19, 21] = [r0, r1, r2, i1, i2, i3, i4, i5, i6, i7] \<and>
    (\<forall>w. w \<notin> {1 ..< 7} \<union> {9 ..< 23} \<longrightarrow> t' w = t w)"
proof (intro conjI allI impI)
  show "map (get64 t') [1, 3, 5, 9, 11, 13, 15, 17, 19, 21] = [r0, r1, r2, i1, i2, i3, i4, i5, i6, i7]"
    unfolding assms set_tss64_def Let_def by (simp add: get64_put64)
qed (simp add: assms set_tss64_unchanged)

theorem set_tss64_slots_witness:
  "get64 (set_tss64 1 2 3 4 5 6 7 8 9 10 (\<lambda>_. 0)) 21 = 10 \<and> set_tss64 1 2 3 4 5 6 7 8 9 10 (\<lambda>_. 7) 7 = 7"
  using set_tss64_slots [OF refl, of 1 2 3 4 5 6 7 8 9 10 "\<lambda>_. 0"]
    set_tss64_slots [OF refl, of 1 2 3 4 5 6 7 8 9 10 "\<lambda>_. 7"] by simp

end
