(* ===== verification/Printk_Hex.thy ===== *)
theory Printk_Hex
  imports Printk_Console
begin

text \<open>
  The hexadecimal reports of the kernel. \<^verbatim>\<open>trap.c\<close> and \<^verbatim>\<open>task.c\<close> print addresses with
  \<^verbatim>\<open>%#018lx\<close> and selectors with \<^verbatim>\<open>%#010x\<close>: these directives write \<^verbatim>\<open>0x\<close> and all the digits.
\<close>

fun hex_text :: "nat \<Rightarrow> uint64 \<Rightarrow> string" where
  "hex_text 0 v = []"
| "hex_text (Suc k) v = hex_text k (v div 16) @ [lower_digits ! unat (v mod 16)]"

lemma length_hex_text [simp]: "length (hex_text k v) = k"
  by (induction k arbitrary: v) simp_all

lemma hex_text_0: "hex_text k 0 = replicate k CHR ''0''"
  by (induction k) (simp_all add: lower_digits_def replicate_append_same)

lemma hex_text_digits:
  "unat v < 16 ^ k \<Longrightarrow>
   replicate (k - length (num_digits lower_digits 16 v)) CHR ''0'' @ rev (num_digits lower_digits 16 v) = hex_text k v"
proof (induction k arbitrary: v)
  case 0
  then have "v = 0" by (simp add: unat_eq_zero)
  then show ?case by (simp add: num_digits.simps [of _ _ 0])
next
  case (Suc k)
  show ?case
  proof (cases "v = 0")
    case True
    then show ?thesis by (simp add: num_digits.simps [of _ _ 0] hex_text_0 replicate_append_same flip: hex_text.simps)
  next
    case False
    then have step: "num_digits lower_digits 16 v =
        lower_digits ! unat (v mod 16) # num_digits lower_digits 16 (v div 16)"
      by (subst num_digits.simps) simp
    have "unat (v div 16) < 16 ^ k" using Suc.prems by (simp add: unat_div less_mult_imp_div_less)
    from Suc.IH [OF this] show ?thesis by (simp add: step)
  qed
qed

definition hex_flags :: uint32 where
  "hex_flags = (SPECIAL OR ZEROPAD) OR SMALL"

lemma has_hex_flags:
  "has hex_flags SPECIAL" "has hex_flags ZEROPAD" "has hex_flags SMALL" "\<not> has hex_flags LEFT"
  "\<not> has hex_flags SIGN" "\<not> has hex_flags PLUS" "\<not> has hex_flags SPACE"
  by (simp_all add: hex_flags_def has_def flag_defs)

lemma number_text_hex:
  assumes "unat v < 16 ^ k" and "0 < k" and "width = 2 + int k"
  shows "number_text v 16 width (- 1) hex_flags = ''0x'' @ hex_text k v"
proof -
  have mag: "magnitude v hex_flags = v" and digits: "digits_of hex_flags = lower_digits"
    by (simp_all add: magnitude_def negative_def digits_of_def has_hex_flags)
  have front: "sign_text v hex_flags @ prefix_text 16 hex_flags = ''0x''"
    by (simp add: sign_text_def negative_def prefix_text_def has_hex_flags digits lower_digits_def)
  let ?d = "digit_text v 16 hex_flags"
  have "replicate (k - length ?d) CHR ''0'' @ ?d = hex_text k v"
  proof (cases "v = 0")
    case True
    then obtain j where "k = Suc j" using assms(2) by (cases k) auto
    then show ?thesis
      unfolding digit_text_def mag unfolding True by (simp add: hex_text_0 replicate_append_same del: hex_text.simps)
  next
    case False
    with hex_text_digits [OF assms(1)] show ?thesis by (simp add: digit_text_def mag digits)
  qed
  moreover have "nat width - 2 - length ?d = k - length ?d" using assms(3) by simp
  ultimately show ?thesis
    unfolding number_text_def Let_def front by (simp add: has_hex_flags)
qed

lemma number_hex:
  assumes "unat v < 16 ^ k" and "0 < k" and "k \<le> 50" and "width = 2 + int k"
  shows "number v 16 width (- 1) hex_flags = Inr (Some (''0x'' @ hex_text k v))"
  using number_layout [of 16 v hex_flags width "- 1"] digit_text_length [of 16 v hex_flags] assms
    number_text_hex [OF assms(1,2,4)]
  by simp

text \<open>The two directives, with the text before them.\<close>

lemma vsprintf_hex64:
  assumes "NUL \<notin> set s" and "CHR ''%'' \<notin> set s"
  shows "vsprintf m (s @ ''%#018lx'' @ fmt) (a # args) =
    (case vsprintf m fmt args of Inl e \<Rightarrow> Inl e | Inr t \<Rightarrow> Inr (s @ ''0x'' @ hex_text 16 a @ t))"
proof -
  have "directive m (''#018lx'' @ fmt) (a # args) = Inr (''0x'' @ hex_text 16 a, fmt, args)"
    using number_hex [of a 16 18] unat64_less [of a]
    by (simp add: directive_def parse_width_def parse_precision_def parse_qualifier_def peek_def
        is_digit_def convert_def va_arg_def convert_number_def hex_flags_def skip_atoi.simps)
  then show ?thesis
    using assms by (simp add: vsprintf_text vsprintf_percent split: sum.splits)
qed

lemma vsprintf_hex32:
  assumes "NUL \<notin> set s" and "CHR ''%'' \<notin> set s" and "a < 0x80000000"
  shows "vsprintf m (s @ ''%#010x'' @ fmt) (a # args) =
    (case vsprintf m fmt args of Inl e \<Rightarrow> Inl e | Inr t \<Rightarrow> Inr (s @ ''0x'' @ hex_text 8 a @ t))"
proof -
  have "uint a < 0x80000000" using assms(3) by (simp add: word_less_def)
  moreover have "(- 2147483648 :: int) \<le> uint a" by (rule order_trans [of _ 0]) simp_all
  ultimately have "arg32 a = uint a"
    by (simp add: arg32_def signed_ucast_eq signed_take_bit_int_eq_self)
  then have arg: "word_of_int (arg32 a) = a" by simp
  have "unat a < 16 ^ 8" using assms(3) by (simp add: word_less_nat_alt)
  then have "directive m (''#010x'' @ fmt) (a # args) = Inr (''0x'' @ hex_text 8 a, fmt, args)"
    using number_hex [of a 8 10]
    by (simp add: directive_def parse_width_def parse_precision_def parse_qualifier_def peek_def
        is_digit_def convert_def va_arg_def convert_number_def hex_flags_def skip_atoi.simps arg)
  then show ?thesis
    using assms by (simp add: vsprintf_text vsprintf_percent split: sum.splits)
qed

text \<open>Text without directives is copied; a format is read field by field.\<close>

definition plain :: "string \<Rightarrow> bool" where
  "plain buf \<longleftrightarrow> NUL \<notin> set buf \<and> CHR ''%'' \<notin> set buf"

lemma plain_simps [simp]:
  "plain []" "plain (c # buf) \<longleftrightarrow> c \<noteq> NUL \<and> c \<noteq> CHR ''%'' \<and> plain buf"
  "plain (t @ u) \<longleftrightarrow> plain t \<and> plain u"
  by (auto simp: plain_def)

lemma vsprintf_plain: "plain buf \<Longrightarrow> vsprintf m buf [] = Inr buf"
  using vsprintf_text [where s = buf and fmt = "[]" and args = "[]"] by (simp add: plain_def)

lemma vsprintf_field:
  assumes "plain s" and "vsprintf m fmt args = Inr t"
  shows "vsprintf m (s @ ''%#018lx'' @ fmt) (a # args) = Inr (s @ ''0x'' @ hex_text 16 a @ t)"
  using vsprintf_hex64 [of s m fmt a args] assms by (simp add: plain_def)

text \<open>Strings, and the lengths of what the other directives write.\<close>

lemma length_number_text:
  assumes "3 \<le> base" and "base \<le> 36" and "width \<le> 100" and "precision \<le> 0"
  shows "length (number_text num base width precision t) \<le> 153"
proof -
  have "length (digit_text num base t) \<le> 50" by (rule digit_text_length [OF assms(1,2)])
  moreover have "length (sign_text num t @ prefix_text base t) \<le> 3"
    by (simp add: sign_text_def prefix_text_def)
  ultimately show ?thesis
    using assms(3,4) by (auto simp: number_text_def Let_def)
qed

lemma vsprintf_string:
  assumes "plain s" and "vsprintf m fmt args = Inr t" and "cstr m p n" and "n < 1000"
  shows "vsprintf m (s @ ''%s'' @ fmt) (p # args) = Inr (s @ chars_at m p n @ t)"
proof -
  have "strlen p m = int n" using strlen_cstr [OF assms(3)] assms(4) by simp
  then have "directive m (''s'' @ fmt) (p # args) = Inr (chars_at m p n, fmt, args)"
    by (simp add: directive_def parse_width_def parse_precision_def parse_qualifier_def peek_def
        is_digit_def convert_def va_arg_def convert_string_def spin_above_def has_def split_beta)
  then show ?thesis
    using assms(1,2) by (simp add: vsprintf_text vsprintf_percent plain_def)
qed

lemma length_chars_at [simp]: "length (chars_at m p n) = n"
  by (simp add: chars_at_def)

text \<open>The bounded form of these lemmas: some text of limited length is written.\<close>

definition formats :: "mem8 \<Rightarrow> string \<Rightarrow> uint64 list \<Rightarrow> nat \<Rightarrow> bool" where
  "formats m fmt args k \<longleftrightarrow> (\<exists>t. vsprintf m fmt args = Inr t \<and> length t \<le> k)"

lemma formats_plain: "plain s \<Longrightarrow> length s \<le> k \<Longrightarrow> formats m s [] k"
  using vsprintf_plain [of s m] by (simp add: formats_def)

lemma formats_hex:
  assumes "plain s" and "formats m fmt args k" and "length s + 18 + k \<le> k'"
  shows "formats m (s @ ''%#018lx'' @ fmt) (a # args) k'"
proof -
  obtain t where "vsprintf m fmt args = Inr t" "length t \<le> k" using assms(2) by (auto simp: formats_def)
  with vsprintf_field [OF assms(1), of m fmt args t a] assms(3) show ?thesis
    unfolding formats_def by (intro exI conjI) (assumption, simp del: hex_text.simps)
qed

lemma formats_decimal:
  assumes "plain s" and "formats m fmt args k" and "length s + 153 + k \<le> k'"
  shows "formats m (s @ ''%d'' @ fmt) (a # args) k'"
proof -
  obtain t where "vsprintf m fmt args = Inr t" "length t \<le> k" using assms(2) by (auto simp: formats_def)
  with vsprintf_decimal_text [of s m fmt args t a] assms(1,3)
    length_number_text [of 10 "- 1" "- 1" "word_of_int (arg32 a)" SIGN] show ?thesis
    unfolding formats_def plain_def by (intro exI conjI) (auto)
qed

lemma formats_string:
  assumes "plain s" and "formats m fmt args k" and "cstr m p n" and "n < 1000" and "length s + n + k \<le> k'"
  shows "formats m (s @ ''%s'' @ fmt) (p # args) k'"
proof -
  obtain t where "vsprintf m fmt args = Inr t" "length t \<le> k" using assms(2) by (auto simp: formats_def)
  with vsprintf_string [OF assms(1) _ assms(3,4), of fmt args t] assms(5) show ?thesis
    unfolding formats_def by (intro exI conjI) (assumption, simp)
qed

lemma formats_pointer:
  assumes "plain s" and "formats m fmt args k" and "length s + 153 + k \<le> k'"
  shows "formats m (s @ ''%p'' @ fmt) (a # args) k'"
proof -
  let ?t = "number_text a 16 16 (- 1) (0 OR ZEROPAD)"
  obtain t where t: "vsprintf m fmt args = Inr t" "length t \<le> k" using assms(2) by (auto simp: formats_def)
  have n: "number a 16 16 (- 1) (0 OR ZEROPAD) = Inr (Some ?t)"
    by (rule number_layout) (simp_all add: digit_text_length)
  have "directive m (''p'' @ fmt) (a # args) = Inr (?t, fmt, args)"
    using n by (simp add: directive_def parse_width_def parse_precision_def parse_qualifier_def peek_def
        is_digit_def convert_def va_arg_def convert_number_def)
  then have "vsprintf m (s @ ''%p'' @ fmt) (a # args) = Inr (s @ ?t @ t)"
    using assms(1) t by (simp add: vsprintf_text vsprintf_percent plain_def)
  with length_number_text [of 16 16 "- 1" a "0 OR ZEROPAD"] t(2) assms(3) show ?thesis
    unfolding formats_def by (intro exI conjI) (assumption, simp)
qed

end
