(* ===== verification/Trap.thy ===== *)
theory Trap
  imports Gate Entry Printk_Hex
begin

text \<open>
  \<^verbatim>\<open>src/trap.c\<close>: the handlers of the processor's exceptions and \<^verbatim>\<open>init_sys_vector\<close>, which installs
  their gates. A handler prints on the console and stays in \<^verbatim>\<open>while (1)\<close>: its result is the console
  it loops with, or a fault. \<open>m\<close> is the byte memory it reads \<^verbatim>\<open>*(uint64 *)(rsp + 0x98)\<close> from.
\<close>

section \<open>Reports\<close>

definition report :: "mem8 \<Rightarrow> string \<Rightarrow> uint64 list \<Rightarrow> console \<Rightarrow> fault + console" where
  "report m fmt args s = bindR (color_printk RED BLACK m fmt args s) (\<lambda>(n, s1). Inr s1)"

text \<open>The first line of every handler, whose format differs in the title.\<close>

definition exc_report :: "string \<Rightarrow> mem8 \<Rightarrow> uint64 \<Rightarrow> uint64 \<Rightarrow> console \<Rightarrow> fault + console" where
  "exc_report title m rsp error_code s =
     report m (title @ '', ERROR_CODE: %#018lx, RSP: %#018lx, RIP: %#018lx'' @ [CHR 0x0A])
       [error_code, rsp, read64 m (rsp + 0x98)] s"

definition hang :: "console \<Rightarrow> fault + console ending" where
  "hang s = Inr (Loops s)"

text \<open>What the handlers of the four segment exceptions print of the error code.\<close>

definition selector_report :: "mem8 \<Rightarrow> uint64 \<Rightarrow> console \<Rightarrow> fault + console" where
  "selector_report m error_code s =
     bindR (if error_code AND 0x01 \<noteq> 0
            then report m (''The exception occurred during delivery of an event external to '' @
                   ''the program, such as an interrupt or an earlier exception.'' @ [CHR 0x0A]) [] s
            else Inr s) (\<lambda>s1.
     bindR (if error_code AND 0x02 \<noteq> 0
            then report m (''Refers to a gate descriptor in the IDT;'' @ [CHR 0x0A]) [] s1
            else report m (''Refers to a descriptor in the GDT or the current LDT;'' @ [CHR 0x0A]) [] s1) (\<lambda>s2.
     bindR (if error_code AND 0x02 = 0
            then (if error_code AND 0x04 \<noteq> 0
                  then report m (''Refers to a segment or gate descriptor in the LDT;'' @ [CHR 0x0A]) [] s2
                  else report m (''Refers to a descriptor in the current GDT;'' @ [CHR 0x0A]) [] s2)
            else Inr s2) (\<lambda>s3.
     report m (''Segment Selector Index: %#010x'' @ [CHR 0x0A]) [error_code AND 0xfff8] s3)))"

section \<open>The handlers\<close>

definition do_divide_error :: "mem8 \<Rightarrow> uint64 \<Rightarrow> uint64 \<Rightarrow> console \<Rightarrow> fault + console ending" where
  "do_divide_error m rsp error_code s = bindR (exc_report ''do_divide_error(0)'' m rsp error_code s) hang"

definition do_debug :: "mem8 \<Rightarrow> uint64 \<Rightarrow> uint64 \<Rightarrow> console \<Rightarrow> fault + console ending" where
  "do_debug m rsp error_code s = bindR (exc_report ''do_debug(1)'' m rsp error_code s) hang"

definition do_nmi :: "mem8 \<Rightarrow> uint64 \<Rightarrow> uint64 \<Rightarrow> console \<Rightarrow> fault + console ending" where
  "do_nmi m rsp error_code s = bindR (exc_report ''do_nmi(2)'' m rsp error_code s) hang"

definition do_int3 :: "mem8 \<Rightarrow> uint64 \<Rightarrow> uint64 \<Rightarrow> console \<Rightarrow> fault + console ending" where
  "do_int3 m rsp error_code s = bindR (exc_report ''do_int3(3)'' m rsp error_code s) hang"

definition do_overflow :: "mem8 \<Rightarrow> uint64 \<Rightarrow> uint64 \<Rightarrow> console \<Rightarrow> fault + console ending" where
  "do_overflow m rsp error_code s = bindR (exc_report ''do_overflow(4)'' m rsp error_code s) hang"

definition do_bounds :: "mem8 \<Rightarrow> uint64 \<Rightarrow> uint64 \<Rightarrow> console \<Rightarrow> fault + console ending" where
  "do_bounds m rsp error_code s = bindR (exc_report ''do_bounds(5)'' m rsp error_code s) hang"

definition do_undefined_opcode :: "mem8 \<Rightarrow> uint64 \<Rightarrow> uint64 \<Rightarrow> console \<Rightarrow> fault + console ending" where
  "do_undefined_opcode m rsp error_code s = bindR (exc_report ''do_undefined_opcode(6)'' m rsp error_code s) hang"

definition do_dev_not_available :: "mem8 \<Rightarrow> uint64 \<Rightarrow> uint64 \<Rightarrow> console \<Rightarrow> fault + console ending" where
  "do_dev_not_available m rsp error_code s = bindR (exc_report ''do_dev_not_available(7)'' m rsp error_code s) hang"

definition do_double_fault :: "mem8 \<Rightarrow> uint64 \<Rightarrow> uint64 \<Rightarrow> console \<Rightarrow> fault + console ending" where
  "do_double_fault m rsp error_code s = bindR (exc_report ''do_double_fault(8)'' m rsp error_code s) hang"

definition do_coprocessor_segment_overrun :: "mem8 \<Rightarrow> uint64 \<Rightarrow> uint64 \<Rightarrow> console \<Rightarrow> fault + console ending" where
  "do_coprocessor_segment_overrun m rsp error_code s = bindR (exc_report ''do_coprocessor_segment_overrun(9)'' m rsp error_code s) hang"

definition do_invalid_TSS :: "mem8 \<Rightarrow> uint64 \<Rightarrow> uint64 \<Rightarrow> console \<Rightarrow> fault + console ending" where
  "do_invalid_TSS m rsp error_code s =
     bindR (exc_report ''do_invalid_TSS(10)'' m rsp error_code s) (\<lambda>s1. bindR (selector_report m error_code s1) hang)"

definition do_segment_not_present :: "mem8 \<Rightarrow> uint64 \<Rightarrow> uint64 \<Rightarrow> console \<Rightarrow> fault + console ending" where
  "do_segment_not_present m rsp error_code s =
     bindR (exc_report ''do_segment_not_present(11)'' m rsp error_code s) (\<lambda>s1. bindR (selector_report m error_code s1) hang)"

definition do_stack_segment_fault :: "mem8 \<Rightarrow> uint64 \<Rightarrow> uint64 \<Rightarrow> console \<Rightarrow> fault + console ending" where
  "do_stack_segment_fault m rsp error_code s =
     bindR (exc_report ''do_stack_segment_fault(12)'' m rsp error_code s) (\<lambda>s1. bindR (selector_report m error_code s1) hang)"

definition do_general_protection :: "mem8 \<Rightarrow> uint64 \<Rightarrow> uint64 \<Rightarrow> console \<Rightarrow> fault + console ending" where
  "do_general_protection m rsp error_code s =
     bindR (exc_report ''do_general_protection(13)'' m rsp error_code s) (\<lambda>s1. bindR (selector_report m error_code s1) hang)"

definition do_page_fault :: "uint64 \<Rightarrow> mem8 \<Rightarrow> uint64 \<Rightarrow> uint64 \<Rightarrow> console \<Rightarrow> fault + console ending" where
  "do_page_fault cr2 m rsp error_code s =
     bindR (exc_report ''do_page_fault(14)'' m rsp error_code s) (\<lambda>s1.
     bindR (if error_code AND 0x01 = 0 then report m (''Page Not-Present, '' @ [CHR 0x09]) [] s1 else Inr s1) (\<lambda>s2.
     bindR (if error_code AND 0x02 \<noteq> 0 then report m (''Write Cause Fault, '' @ [CHR 0x09]) [] s2
            else report m (''Read Cause Fault, '' @ [CHR 0x09]) [] s2) (\<lambda>s3.
     bindR (if error_code AND 0x04 \<noteq> 0 then report m (''Fault in user(3)'' @ [CHR 0x09]) [] s3
            else report m (''Fault in supervisor(0, 1, 2)'' @ [CHR 0x09]) [] s3) (\<lambda>s4.
     bindR (if error_code AND 0x08 \<noteq> 0 then report m ('', Reserved Bit Cause Fault'' @ [CHR 0x09]) [] s4 else Inr s4) (\<lambda>s5.
     bindR (if error_code AND 0x10 \<noteq> 0 then report m '', Instruction fetch Cause Fault'' [] s5 else Inr s5) (\<lambda>s6.
     bindR (report m [CHR 0x0A] [] s6) (\<lambda>s7.
     bindR (report m (''CR2: %#018lx'' @ [CHR 0x0A]) [cr2] s7) hang)))))))"

definition do_x87_FPU_error :: "mem8 \<Rightarrow> uint64 \<Rightarrow> uint64 \<Rightarrow> console \<Rightarrow> fault + console ending" where
  "do_x87_FPU_error m rsp error_code s = bindR (exc_report ''do_x87_FPU_error(16)'' m rsp error_code s) hang"

definition do_alignment_check :: "mem8 \<Rightarrow> uint64 \<Rightarrow> uint64 \<Rightarrow> console \<Rightarrow> fault + console ending" where
  "do_alignment_check m rsp error_code s = bindR (exc_report ''do_alignment_check(17)'' m rsp error_code s) hang"

definition do_machine_check :: "mem8 \<Rightarrow> uint64 \<Rightarrow> uint64 \<Rightarrow> console \<Rightarrow> fault + console ending" where
  "do_machine_check m rsp error_code s = bindR (exc_report ''do_machine_check(18)'' m rsp error_code s) hang"

definition do_SIMD_exception :: "mem8 \<Rightarrow> uint64 \<Rightarrow> uint64 \<Rightarrow> console \<Rightarrow> fault + console ending" where
  "do_SIMD_exception m rsp error_code s = bindR (exc_report ''do_SIMD_exception(19)'' m rsp error_code s) hang"

definition do_virtualization_exception :: "mem8 \<Rightarrow> uint64 \<Rightarrow> uint64 \<Rightarrow> console \<Rightarrow> fault + console ending" where
  "do_virtualization_exception m rsp error_code s = bindR (exc_report ''do_virtualization_exception(20)'' m rsp error_code s) hang"

section \<open>The gates\<close>

text \<open>\<open>link\<close> gives the linker's address of a symbol.\<close>

definition init_sys_vector :: "(string \<Rightarrow> uintptr) \<Rightarrow> idt_table \<Rightarrow> idt_table" where
  "init_sys_vector link t =
     (let t = set_trap_gate 0 1 (link ''do_divide_error'') t;
          t = set_trap_gate 1 1 (link ''do_debug'') t;
          t = set_intr_gate 2 1 (link ''nmi'') t;
          t = set_system_gate 3 1 (link ''int3'') t;
          t = set_system_gate 4 1 (link ''overflow'') t;
          t = set_system_gate 5 1 (link ''bounds'') t;
          t = set_trap_gate 6 1 (link ''undefined_opcode'') t;
          t = set_trap_gate 7 1 (link ''dev_not_available'') t;
          t = set_trap_gate 8 1 (link ''double_fault'') t;
          t = set_trap_gate 9 1 (link ''coprocessor_segment_overrun'') t;
          t = set_trap_gate 10 1 (link ''invalid_TSS'') t;
          t = set_trap_gate 11 1 (link ''segment_not_present'') t;
          t = set_trap_gate 12 1 (link ''stack_segment_fault'') t;
          t = set_trap_gate 13 1 (link ''general_protection'') t;
          t = set_trap_gate 14 1 (link ''page_fault'') t;
          t = set_trap_gate 16 1 (link ''x87_FPU_error'') t;
          t = set_trap_gate 17 1 (link ''alignment_check'') t;
          t = set_trap_gate 18 1 (link ''machine_check'') t;
          t = set_trap_gate 19 1 (link ''SIMD_exception'') t;
          t = set_trap_gate 20 1 (link ''virtualization_exception'') t
      in t)"

section \<open>What is printed\<close>

text \<open>The texts the handlers are meant to print, as functions of the error code's bits.\<close>

definition exception_text :: "string \<Rightarrow> uint64 \<Rightarrow> uint64 \<Rightarrow> uint64 \<Rightarrow> string" where
  "exception_text title error_code rsp rip =
     title @ '', ERROR_CODE: 0x'' @ hex_text 16 error_code @ '', RSP: 0x'' @ hex_text 16 rsp @
     '', RIP: 0x'' @ hex_text 16 rip @ [CHR 0x0A]"

definition selector_text :: "uint64 \<Rightarrow> string" where
  "selector_text error_code =
     (if bit error_code 0 then ''The exception occurred during delivery of an event external to the program, such as an interrupt or an earlier exception.'' @ [CHR 0x0A] else []) @
     (if bit error_code 1 then ''Refers to a gate descriptor in the IDT;'' @ [CHR 0x0A]
      else ''Refers to a descriptor in the GDT or the current LDT;'' @ [CHR 0x0A] @
        (if bit error_code 2 then ''Refers to a segment or gate descriptor in the LDT;''
         else ''Refers to a descriptor in the current GDT;'') @ [CHR 0x0A]) @
     ''Segment Selector Index: 0x'' @ hex_text 8 (push_bit 3 (take_bit 13 (drop_bit 3 error_code))) @ [CHR 0x0A]"

definition page_fault_text :: "uint64 \<Rightarrow> uint64 \<Rightarrow> string" where
  "page_fault_text error_code cr2 =
     (if bit error_code 0 then [] else ''Page Not-Present, '' @ [CHR 0x09]) @
     (if bit error_code 1 then ''Write'' else ''Read'') @ '' Cause Fault, '' @ [CHR 0x09] @
     ''Fault in '' @ (if bit error_code 2 then ''user(3)'' else ''supervisor(0, 1, 2)'') @ [CHR 0x09] @
     (if bit error_code 3 then '', Reserved Bit Cause Fault'' @ [CHR 0x09] else []) @
     (if bit error_code 4 then '', Instruction fetch Cause Fault'' else []) @ [CHR 0x0A] @
     ''CR2: 0x'' @ hex_text 16 cr2 @ [CHR 0x0A]"

definition prints :: "string \<Rightarrow> console \<Rightarrow> fault + console" where
  "prints buf = foldR (print_char RED BLACK) buf"

lemma prints_append: "bindR (prints a s) (prints b) = prints (a @ b) s"
  by (simp add: prints_def foldR_append)

lemma prints_nil: "Inr s = prints [] s"
  by (simp add: prints_def)

text \<open>Each report prints the text it formats.\<close>

lemma report_prints:
  assumes "vsprintf m fmt args = Inr buf" and "length buf < 4096"
  shows "report m fmt args s = prints buf s"
  using assms by (cases "prints buf s") (simp_all add: report_def color_printk_def prints_def)

lemma report_plain: "plain buf \<Longrightarrow> length buf < 4096 \<Longrightarrow> report m buf [] s = prints buf s"
  by (rule report_prints [OF vsprintf_plain])

lemma exc_report_prints:
  assumes "plain title" and "length title < 100"
  shows "exc_report title m rsp error_code s = prints (exception_text title error_code rsp (read64 m (rsp + 0x98))) s"
proof -
  let ?rip = "read64 m (rsp + 0x98)"
  have nl: "plain [CHR 0x0A]" by (simp add: NUL_def)
  have "plain '', RSP: ''" "plain '', RIP: ''" "plain (title @ '', ERROR_CODE: '')"
    using assms(1) by (simp_all add: NUL_def)
  note f = vsprintf_field [OF this(3) vsprintf_field [OF this(1) vsprintf_field [OF this(2) vsprintf_plain [OF nl, of m],
        of ?rip], of rsp], of error_code]
  show ?thesis
    unfolding exc_report_def exception_text_def
    by (rule report_prints) (use f assms(2) in simp_all)
qed

lemma mask_bits:
  fixes v :: uint64
  shows "v AND 1 = 0 \<longleftrightarrow> \<not> bit v 0" "v AND 2 = 0 \<longleftrightarrow> \<not> bit v 1" "v AND 4 = 0 \<longleftrightarrow> \<not> bit v 2"
    "v AND 8 = 0 \<longleftrightarrow> \<not> bit v 3" "v AND 16 = 0 \<longleftrightarrow> \<not> bit v 4"
proof -
  have "v AND push_bit k 1 = 0 \<longleftrightarrow> \<not> bit v k" if "k < 64" for k
  proof -
    have "bit (v AND push_bit k 1) n \<longleftrightarrow> n = k \<and> bit v k" for n
      using that by (auto simp: bit_and_iff bit_push_one simp del: push_bit_of_1)
    then show ?thesis by (metis bit_0_eq bot_apply bot_bool_def word64_eqI)
  qed
  from this [of 0] this [of 1] this [of 2] this [of 3] this [of 4]
  show "v AND 1 = 0 \<longleftrightarrow> \<not> bit v 0" "v AND 2 = 0 \<longleftrightarrow> \<not> bit v 1" "v AND 4 = 0 \<longleftrightarrow> \<not> bit v 2"
    "v AND 8 = 0 \<longleftrightarrow> \<not> bit v 3" "v AND 16 = 0 \<longleftrightarrow> \<not> bit v 4"
    by simp_all
qed

lemma selector_index: "v AND 0xfff8 = push_bit 3 (take_bit 13 (drop_bit 3 (v :: uint64)))"
proof -
  have eq: "(0xfff8 :: uint64) = push_bit 3 (mask 13)" by (simp add: mask_eq_exp_minus_1)
  show ?thesis
    unfolding eq
    by (rule word64_eqI)
      (auto simp: bit_and_iff bit_push_bit_iff bit_mask_iff bit_take_bit_iff bit_drop_bit_eq)
qed

lemma selector_index_small: "v AND 0xfff8 < (0x80000000 :: uint64)"
proof -
  have "v AND 0xfff8 \<le> 0xfff8" by (rule word_and_le1)
  then show ?thesis by (rule order_le_less_trans) simp
qed

lemma report_selector:
  "report m (''Segment Selector Index: %#010x'' @ [CHR 0x0A]) [v AND 0xfff8] s =
   prints (''Segment Selector Index: 0x'' @ hex_text 8 (push_bit 3 (take_bit 13 (drop_bit 3 v))) @ [CHR 0x0A]) s"
proof -
  have "vsprintf m (''Segment Selector Index: '' @ ''%#010x'' @ [CHR 0x0A]) [v AND 0xfff8] =
      Inr (''Segment Selector Index: '' @ ''0x'' @ hex_text 8 (v AND 0xfff8) @ [CHR 0x0A])"
    using vsprintf_hex32 [of "''Segment Selector Index: ''" "v AND 0xfff8" m "[CHR 0x0A]" "[]"]
      vsprintf_plain [of "[CHR 0x0A]" m] selector_index_small [of v]
    by (simp add: NUL_def del: hex_text.simps)
  then show ?thesis
    unfolding selector_index by (intro report_prints) simp_all
qed

lemma report_cr2:
  "report m (''CR2: %#018lx'' @ [CHR 0x0A]) [v] s = prints (''CR2: 0x'' @ hex_text 16 v @ [CHR 0x0A]) s"
proof -
  have "plain [CHR 0x0A]" "plain ''CR2: ''" by (simp_all add: NUL_def)
  from vsprintf_field [OF this(2) vsprintf_plain [OF this(1)], of m v]
  show ?thesis by (intro report_prints) (simp_all del: hex_text.simps)
qed

text \<open>A sequence of reports prints one text.\<close>

lemma prints_cong:
  assumes "f s = prints a s" and "\<And>t. g t = prints b t"
  shows "bindR (f s) g = prints (a @ b) s"
proof -
  have "g = prints b" using assms(2) by (rule ext)
  with assms(1) show ?thesis by (simp add: prints_append)
qed

text \<open>The constant messages, with the conditions they are printed under.\<close>

lemma report_if:
  "plain t \<Longrightarrow> length t < 4096 \<Longrightarrow> (if P then report m t [] s else Inr s) = prints (if P then t else []) s"
  by (simp add: report_plain prints_nil)

lemma report_choice:
  "plain t \<Longrightarrow> length t < 4096 \<Longrightarrow> plain u \<Longrightarrow> length u < 4096 \<Longrightarrow>
   (if P then report m t [] s else report m u [] s) = prints (if P then t else u) s"
  by (simp add: report_plain)

lemma selector_report_prints: "selector_report m error_code s = prints (selector_text error_code) s"
proof -
  let ?ext = "''The exception occurred during delivery of an event external to '' @
      ''the program, such as an interrupt or an earlier exception.'' @ [CHR 0x0A]"
  let ?idt = "''Refers to a gate descriptor in the IDT;'' @ [CHR 0x0A]"
    and ?gdt = "''Refers to a descriptor in the GDT or the current LDT;'' @ [CHR 0x0A]"
    and ?l = "''Refers to a segment or gate descriptor in the LDT;'' @ [CHR 0x0A]"
    and ?g = "''Refers to a descriptor in the current GDT;'' @ [CHR 0x0A]"
    and ?index = "''Segment Selector Index: 0x'' @ hex_text 8 (push_bit 3 (take_bit 13 (drop_bit 3 error_code))) @ [CHR 0x0A]"
  have table: "(if error_code AND 0x02 = 0
        then (if error_code AND 0x04 \<noteq> 0 then report m ?l [] u else report m ?g [] u) else Inr u) =
      prints (if bit error_code 1 then [] else if bit error_code 2 then ?l else ?g) u" for u
    by (simp add: report_plain NUL_def mask_bits prints_nil)
  have "selector_report m error_code s =
    prints ((if bit error_code 0 then ?ext else []) @ (if bit error_code 1 then ?idt else ?gdt) @
      (if bit error_code 1 then [] else if bit error_code 2 then ?l else ?g) @ ?index) s"
    unfolding selector_report_def
    by (intro prints_cong report_selector table)
      (subst report_if report_choice; simp add: NUL_def mask_bits)+
  also have "(if bit error_code 0 then ?ext else []) @ (if bit error_code 1 then ?idt else ?gdt) @
      (if bit error_code 1 then [] else if bit error_code 2 then ?l else ?g) @ ?index = selector_text error_code"
    by (simp add: selector_text_def)
  finally show ?thesis .
qed


lemma prints_then:
  assumes "f s = prints a s" and "\<And>t. g t = bindR (prints b t) k"
  shows "bindR (f s) g = bindR (prints (a @ b) s) k"
proof -
  have "bindR (prints (a @ b) s) k = bindR (bindR (prints a s) (prints b)) k" by (simp add: prints_append)
  also have "\<dots> = bindR (prints a s) (\<lambda>t. bindR (prints b t) k)" by (cases "prints a s") simp_all
  also have "(\<lambda>t. bindR (prints b t) k) = g" using assms(2) by auto
  finally show ?thesis using assms(1) by simp
qed

lemma page_fault_report_prints:
  "do_page_fault cr2 m rsp error_code s =
     bindR (prints (exception_text ''do_page_fault(14)'' error_code rsp (read64 m (rsp + 0x98)) @
       page_fault_text error_code cr2) s) hang"
proof -
  let ?first = "exception_text ''do_page_fault(14)'' error_code rsp (read64 m (rsp + 0x98))"
  let ?np = "if bit error_code 0 then [] else ''Page Not-Present, '' @ [CHR 0x09]"
    and ?rw = "if bit error_code 1 then ''Write Cause Fault, '' @ [CHR 0x09] else ''Read Cause Fault, '' @ [CHR 0x09]"
    and ?us = "if bit error_code 2 then ''Fault in user(3)'' @ [CHR 0x09] else ''Fault in supervisor(0, 1, 2)'' @ [CHR 0x09]"
    and ?rb = "if bit error_code 3 then '', Reserved Bit Cause Fault'' @ [CHR 0x09] else []"
    and ?if = "if bit error_code 4 then '', Instruction fetch Cause Fault'' else []"
    and ?cr2 = "''CR2: 0x'' @ hex_text 16 cr2 @ [CHR 0x0A]"
  have first: "exc_report ''do_page_fault(14)'' m rsp error_code u = prints ?first u" for u
    by (rule exc_report_prints) (simp_all add: NUL_def)
  have np: "(if error_code AND 0x01 = 0 then report m (''Page Not-Present, '' @ [CHR 0x09]) [] u else Inr u) = prints (?np) u" for u
    unfolding mask_bits by (simp add: report_plain NUL_def prints_nil)
  have rw: "(if error_code AND 0x02 \<noteq> 0 then report m (''Write Cause Fault, '' @ [CHR 0x09]) [] u
      else report m (''Read Cause Fault, '' @ [CHR 0x09]) [] u) = prints (?rw) u" for u
    unfolding mask_bits by (simp add: report_plain NUL_def)
  have us: "(if error_code AND 0x04 \<noteq> 0 then report m (''Fault in user(3)'' @ [CHR 0x09]) [] u
      else report m (''Fault in supervisor(0, 1, 2)'' @ [CHR 0x09]) [] u) = prints (?us) u" for u
    unfolding mask_bits by (simp add: report_plain NUL_def)
  have rb: "(if error_code AND 0x08 \<noteq> 0 then report m ('', Reserved Bit Cause Fault'' @ [CHR 0x09]) [] u else Inr u) = prints (?rb) u" for u
    unfolding mask_bits by (simp add: report_plain NUL_def prints_nil)
  have ifc: "(if error_code AND 0x10 \<noteq> 0 then report m '', Instruction fetch Cause Fault'' [] u else Inr u) = prints (?if) u" for u
    unfolding mask_bits by (simp add: report_plain NUL_def prints_nil)
  have nl: "report m [CHR 0x0A] [] u = prints [CHR 0x0A] u" for u
    by (simp add: report_plain NUL_def)
  have cr2: "bindR (report m (''CR2: %#018lx'' @ [CHR 0x0A]) [cr2] u) hang = bindR (prints ?cr2 u) hang" for u
    by (simp only: report_cr2)
  have "do_page_fault cr2 m rsp error_code s =
      bindR (prints (?first @ ?np @ ?rw @ ?us @ ?rb @ ?if @ [CHR 0x0A] @ ?cr2) s) hang"
    unfolding do_page_fault_def
    by (intro prints_then first np rw us rb ifc nl cr2)
  also have "?first @ ?np @ ?rw @ ?us @ ?rb @ ?if @ [CHR 0x0A] @ ?cr2 = ?first @ page_fault_text error_code cr2"
    by (simp add: page_fault_text_def del: hex_text.simps)
  finally show ?thesis .
qed

section \<open>All handlers\<close>

text \<open>
  The handlers by vector, with the error code pushed by the processor or not, and the text each is
  meant to print from the error code, the address of the frame and the address interrupted.
\<close>

type_synonym handler = "mem8 \<Rightarrow> uint64 \<Rightarrow> uint64 \<Rightarrow> console \<Rightarrow> fault + console ending"

definition exception_table :: "uint64 \<Rightarrow> (nat \<times> bool \<times> handler \<times> (uint64 \<Rightarrow> uint64 \<Rightarrow> uint64 \<Rightarrow> string)) list" where
  "exception_table cr2 =
     [(0, False, do_divide_error, exception_text ''do_divide_error(0)''),
      (1, False, do_debug, exception_text ''do_debug(1)''),
      (2, False, do_nmi, exception_text ''do_nmi(2)''),
      (3, False, do_int3, exception_text ''do_int3(3)''),
      (4, False, do_overflow, exception_text ''do_overflow(4)''),
      (5, False, do_bounds, exception_text ''do_bounds(5)''),
      (6, False, do_undefined_opcode, exception_text ''do_undefined_opcode(6)''),
      (7, False, do_dev_not_available, exception_text ''do_dev_not_available(7)''),
      (8, True, do_double_fault, exception_text ''do_double_fault(8)''),
      (9, False, do_coprocessor_segment_overrun, exception_text ''do_coprocessor_segment_overrun(9)''),
      (10, True, do_invalid_TSS, \<lambda>e r i. exception_text ''do_invalid_TSS(10)'' e r i @ selector_text e),
      (11, True, do_segment_not_present, \<lambda>e r i. exception_text ''do_segment_not_present(11)'' e r i @ selector_text e),
      (12, True, do_stack_segment_fault, \<lambda>e r i. exception_text ''do_stack_segment_fault(12)'' e r i @ selector_text e),
      (13, True, do_general_protection, \<lambda>e r i. exception_text ''do_general_protection(13)'' e r i @ selector_text e),
      (14, True, do_page_fault cr2, \<lambda>e r i. exception_text ''do_page_fault(14)'' e r i @ page_fault_text e cr2),
      (16, False, do_x87_FPU_error, exception_text ''do_x87_FPU_error(16)''),
      (17, True, do_alignment_check, exception_text ''do_alignment_check(17)''),
      (18, False, do_machine_check, exception_text ''do_machine_check(18)''),
      (19, False, do_SIMD_exception, exception_text ''do_SIMD_exception(19)''),
      (20, False, do_virtualization_exception, exception_text ''do_virtualization_exception(20)'')]"

lemma selector_then:
  "bindR (prints a s) (\<lambda>s1. bindR (selector_report m e s1) hang) = bindR (prints (a @ selector_text e) s) hang"
  by (rule prints_then) (simp_all add: selector_report_prints)

lemmas handler_defs = do_divide_error_def do_debug_def do_nmi_def do_int3_def do_overflow_def do_bounds_def
  do_undefined_opcode_def do_dev_not_available_def do_double_fault_def do_coprocessor_segment_overrun_def
  do_invalid_TSS_def do_segment_not_present_def do_stack_segment_fault_def do_general_protection_def
  do_x87_FPU_error_def do_alignment_check_def do_machine_check_def do_SIMD_exception_def
  do_virtualization_exception_def

lemma handler_prints:
  assumes "(n, code, h, text) \<in> set (exception_table cr2)"
  shows "h m rsp e s = bindR (prints (text e rsp (read64 m (rsp + 0x98))) s) hang"
  using assms unfolding exception_table_def
  by (auto simp: handler_defs page_fault_report_prints selector_then exc_report_prints NUL_def
      simp del: hex_text.simps)


text \<open>
  The stub of a vector: \<^verbatim>\<open>nmi\<close> has its own, without \<^verbatim>\<open>error_code\<close>. Vectors 0 and 1 have none, see
  below.
\<close>

definition nmi_entry :: "instr list" where
  "nmi_entry = [Push Rax, Cld, Push Rax, Push Rax, FromEs Rax, Push Rax, FromDs Rax, Push Rax, Xor Rax Rax,
     Push Rbp, Push Rdi, Push Rsi, Push Rdx, Push Rcx, Push Rbx, Push Gr8, Push Gr9, Push Gr10,
     Push Gr11, Push Gr12, Push Gr13, Push Gr14, Push Gr15, MovI 0x10 Rdx, ToDs Rdx, ToEs Rdx,
     MovI 0 Rsi, Mov Rsp Rdi]"

definition stub_of :: "nat \<Rightarrow> bool \<Rightarrow> uintptr \<Rightarrow> instr list" where
  "stub_of n code handler = (if n = 2 then nmi_entry else exception_stub code handler)"

lemma nmi_entry_parts:
  "nmi_entry = [Push Rax, Cld, Push Rax, Push Rax, FromEs Rax, Push Rax, FromDs Rax, Push Rax, Xor Rax Rax] @
     map Push saved_regs @ [MovI 0x10 Rdx, ToDs Rdx, ToEs Rdx, MovI 0 Rsi, Mov Rsp Rdi]"
  by (simp add: nmi_entry_def saved_regs_def)

lemma nmi_state:
  assumes "s1 = run nmi_entry s"
  shows "gpr s1 Rdi = gpr s Rsp - 0x98" and "gpr s1 Rsi = 0"
    and "read64 (m_mem s1) (gpr s Rsp) = read64 (m_mem s) (gpr s Rsp)"
proof -
  define s0 where "s0 = run [Push Rax, Cld, Push Rax, Push Rax, FromEs Rax, Push Rax, FromDs Rax, Push Rax, Xor Rax Rax] s"
  have g0: "gpr s0 = (gpr s)(Rax := 0, Rsp := gpr s Rsp - 40)"
    unfolding s0_def by (rule ext) (simp add: push64_def)
  have m0: "m_mem s0 = pushes write64 (gpr s Rsp) [gpr s Rax, gpr s Rax, gpr s Rax, ucast (m_es s), ucast (m_ds s)] (m_mem s)"
    unfolding s0_def by (simp add: push64_def)
  have out: "Rsp \<notin> set saved_regs" "length saved_regs = 14" by (simp_all add: saved_regs_def)
  note r = assms [unfolded nmi_entry_parts, unfolded run_append, folded s0_def, unfolded run_pushes [OF out(1)] out(2)]
  show "gpr s1 Rdi = gpr s Rsp - 0x98" "gpr s1 Rsi = 0" unfolding r by (simp_all add: g0)
  have mem: "m_mem s1 = pushes write64 (gpr s Rsp) ([gpr s Rax, gpr s Rax, gpr s Rax, ucast (m_es s), ucast (m_ds s)] @
      map (gpr s0) saved_regs) (m_mem s)"
    unfolding r by (simp add: g0 m0 pushes_append)
  show "read64 (m_mem s1) (gpr s Rsp) = read64 (m_mem s) (gpr s Rsp)"
    unfolding mem by (rule q8.rd_above) (simp add: out)
qed

section \<open>Properties\<close>

text \<open>
  An exception is reported as it happened. From vector 2 on, when the stub has run on
  what the processor pushed, the handler prints, without a fault, the text of its vector for the
  error code (0 where the processor pushes none), the address of the saved registers and the
  interrupted instruction, with the bits of the error code decoded for the segment exceptions and
  the page fault; it then loops, with the cursor still on a cell.
\<close>

theorem exception_reported:
  assumes "(n, code, h, text) \<in> set (exception_table cr2)" and "2 \<le> n" and "cursor_ok c"
    and "s1 = run (stub_of n code addr) s"
  shows "\<exists>t. h (m_mem s1) (gpr s1 Rdi) (gpr s1 Rsi) c = Inr (Loops t) \<and> cursor_ok t \<and>
    prints (text (code_of code s) (frame_top code s - 0x98) (read64 (m_mem s) (frame_top code s))) c = Inr t"
proof -
  have args: "gpr s1 Rdi = frame_top code s - 0x98 \<and> gpr s1 Rsi = code_of code s \<and>
      read64 (m_mem s1) (frame_top code s) = read64 (m_mem s) (frame_top code s)"
  proof (cases "n = 2")
    case True
    then have "\<not> code" using assms(1) by (auto simp: exception_table_def)
    with True show ?thesis
      using nmi_state [of s1 s] assms(4) by (simp add: stub_of_def frame_top_def code_of_def)
  next
    case False
    then show ?thesis
      using exception_state [of s1 code addr s] exception_state(5) [of s1 code addr s 0] assms(4)
      by (simp add: stub_of_def)
  qed
  obtain t where t: "prints (text (code_of code s) (frame_top code s - 0x98) (read64 (m_mem s) (frame_top code s))) c = Inr t"
    and "cursor_ok t"
    using tty.put_text [OF assms(3), of RED BLACK] unfolding prints_def by blast
  with handler_prints [OF assms(1), of "m_mem s1" "gpr s1 Rdi" "gpr s1 Rsi" c] args show ?thesis
    by (simp add: hang_def)
qed

theorem exception_reported_witness:
  "\<exists>t. do_page_fault 0x1000 (m_mem (run (stub_of 14 True 0xffff800000104600) interrupted))
      (gpr (run (stub_of 14 True 0xffff800000104600) interrupted) Rdi)
      (gpr (run (stub_of 14 True 0xffff800000104600) interrupted) Rsi) wide_screen = Inr (Loops t) \<and> cursor_ok t"
proof -
  have "(14, True, do_page_fault 0x1000, \<lambda>e r i. exception_text ''do_page_fault(14)'' e r i @ page_fault_text e 0x1000)
      \<in> set (exception_table 0x1000)"
    by (simp add: exception_table_def)
  from exception_reported [OF this _ cursor_ok_wide_screen(1) refl, of "0xffff800000104600" interrupted]
  show ?thesis by auto
qed

text \<open>The vectors \<^verbatim>\<open>init_sys_vector\<close> sets, with the attribute of the gate and the symbol of the code.\<close>

definition sys_vectors :: "(nat \<times> uint64 \<times> string) list" where
  "sys_vectors = [(0, 0x8F, ''do_divide_error''), (1, 0x8F, ''do_debug''), (2, 0x8E, ''nmi''), (3, 0xEF, ''int3''),
     (4, 0xEF, ''overflow''), (5, 0xEF, ''bounds''), (6, 0x8F, ''undefined_opcode''),
     (7, 0x8F, ''dev_not_available''), (8, 0x8F, ''double_fault''), (9, 0x8F, ''coprocessor_segment_overrun''),
     (10, 0x8F, ''invalid_TSS''), (11, 0x8F, ''segment_not_present''), (12, 0x8F, ''stack_segment_fault''),
     (13, 0x8F, ''general_protection''), (14, 0x8F, ''page_fault''), (16, 0x8F, ''x87_FPU_error''),
     (17, 0x8F, ''alignment_check''), (18, 0x8F, ''machine_check''), (19, 0x8F, ''SIMD_exception''),
     (20, 0x8F, ''virtualization_exception'')]"

lemma init_sys_vector_writes:
  "init_sys_vector link t =
     fold (\<lambda>(n, d) t. t(n := d)) (map (\<lambda>(n, attr, entry). (n, set_gate attr 1 (link entry))) sys_vectors) t"
  by (simp add: init_sys_vector_def sys_vectors_def set_trap_gate_def set_intr_gate_def set_system_gate_def Let_def)

lemma init_sys_vector_at:
  "init_sys_vector link t n = (case map_of sys_vectors n of
     Some (attr, entry) \<Rightarrow> set_gate attr 1 (link entry) | None \<Rightarrow> t n)"
proof -
  let ?ws = "map (\<lambda>(n, attr, entry). (n, set_gate attr 1 (link entry))) sys_vectors"
  have "distinct (map fst ?ws)" by (simp add: sys_vectors_def)
  from idt.read_writes [OF this, of t n]
  have "init_sys_vector link t n = (case map_of ?ws n of Some d \<Rightarrow> d | None \<Rightarrow> t n)"
    by (simp add: init_sys_vector_writes)
  also have "map_of ?ws n = map_option (\<lambda>(attr, entry). set_gate attr 1 (link entry)) (map_of sys_vectors n)"
    using map_of_map [of "\<lambda>(attr, entry). set_gate attr 1 (link entry)" sys_vectors]
    by (simp add: split_def)
  finally show ?thesis by (simp split: option.splits prod.splits)
qed

text \<open>
  Property C30: \<^verbatim>\<open>init_sys_vector\<close> installs exactly the gates of the 20 exceptions: each vector of the
  table has a gate of its attribute (an interrupt gate for the non-maskable interrupt, gates user
  code may call for breakpoint, overflow and bounds, trap gates for the others) on the first
  interrupt stack, to its symbol; vector 15 and those above 20 keep theirs. The symbols of vectors 0
  and 1 are the C functions, not their stubs, so they run without a saved frame.
\<close>

theorem init_sys_vector_gates:
  assumes "t' = init_sys_vector link t"
  shows "(\<forall>(n, attr, entry) \<in> set sys_vectors. gate_offset (t' n) = link entry \<and> gate_selector (t' n) = 8 \<and>
      gate_ist (t' n) = 1 \<and> gate_attr (t' n) = attr) \<and>
    (\<forall>n. n \<notin> fst ` set sys_vectors \<longrightarrow> t' n = t n)"
proof (intro conjI ballI allI impI)
  fix x
  assume "x \<in> set sys_vectors"
  moreover obtain n attr entry where x: "x = (n, attr, entry)" by (cases x) auto
  moreover have "distinct (map fst sys_vectors)" by (simp add: sys_vectors_def)
  ultimately have "t' n = set_gate attr 1 (link entry)"
    using assms by (simp add: init_sys_vector_at map_of_is_SomeI)
  moreover have "attr < 256" using \<open>x \<in> set sys_vectors\<close> x by (auto simp: sys_vectors_def)
  ultimately show "case x of (n, attr, entry) \<Rightarrow> gate_offset (t' n) = link entry \<and> gate_selector (t' n) = 8 \<and>
      gate_ist (t' n) = 1 \<and> gate_attr (t' n) = attr"
    by (simp add: x gate_fields)
next
  fix n
  assume "n \<notin> fst ` set sys_vectors"
  then have "map_of sys_vectors n = None" by (simp add: map_of_eq_None_iff)
  then show "t' n = t n" using assms by (simp add: init_sys_vector_at)
qed

theorem init_sys_vector_gates_witness:
  "gate_offset (init_sys_vector (\<lambda>entry. 0x1000 + of_nat (length entry)) (\<lambda>_. (0, 0)) 3) = 0x1004 \<and>
   gate_attr (init_sys_vector (\<lambda>entry. 0x1000 + of_nat (length entry)) (\<lambda>_. (0, 0)) 3) = 0xEF \<and>
   init_sys_vector (\<lambda>entry. 0x1000 + of_nat (length entry)) (\<lambda>_. (0, 0)) 15 = (0, 0)"
  using init_sys_vector_gates [OF refl, of "\<lambda>entry. 0x1000 + of_nat (length entry)" "\<lambda>_. (0, 0)"]
  by (simp add: sys_vectors_def)

end
