(* ===== verification/Interrupt.thy ===== *)
theory Interrupt
  imports Gate Entry Lib_Port
begin

text \<open>
  \<^verbatim>\<open>src/interrupt.c\<close>: the gates of the 24 interrupt vectors, the programming of the two 8259A
  controllers, and \<^verbatim>\<open>do_IRQ\<close>. The state is the descriptor table with that of the port instructions.
  \<^verbatim>\<open>INTERRUPT_DEBUG\<close> is 0, so there is no output.
\<close>

section \<open>The operations\<close>

record cpu = port_state +
  IDT_Table :: idt_table

text \<open>The loop over the vectors; \<open>interrupt\<close> is the table of the stubs' addresses. \<open>i\<close> is a
  \<^verbatim>\<open>uint8\<close>, and the bound is below 256.\<close>

function set_irq_gates :: "(nat \<Rightarrow> uintptr) \<Rightarrow> uint8 \<Rightarrow> idt_table \<Rightarrow> idt_table" where
  "set_irq_gates interrupt i idt =
     (if i < 0x38 then set_irq_gates interrupt (i + 1)
        (set_intr_gate (ucast i) 2 (interrupt (unat (i - 0x20))) idt)
      else idt)"
  by pat_completeness auto
termination
proof (relation "measure (\<lambda>(interrupt, i, idt). 256 - unat i)")
  fix interrupt :: "nat \<Rightarrow> uintptr" and i :: uint8 and idt :: idt_table
  assume "i < 0x38"
  then have "unat (i + 1) = unat i + 1" "unat i < 56"
    using unat_word_ariths(1) [of i 1] by (auto simp: word_less_nat_alt)
  then show "((interrupt, i + 1, set_intr_gate (ucast i) 2 (interrupt (unat (i - 0x20))) idt), interrupt, i, idt)
      \<in> measure (\<lambda>(interrupt, i, idt). 256 - unat i)"
    by simp
qed simp

declare set_irq_gates.simps [simp del]

definition init_8259A :: "cpu \<Rightarrow> cpu" where
  "init_8259A s =
     (let s1 = io_out8 0x20 0x11 s; s2 = io_out8 0x21 0x20 s1; s3 = io_out8 0x21 0x04 s2; s4 = io_out8 0x21 0x01 s3;
          s5 = io_out8 0xa0 0x11 s4; s6 = io_out8 0xa1 0x28 s5; s7 = io_out8 0xa1 0x02 s6; s8 = io_out8 0xa1 0x01 s7;
          s9 = io_out8 0x21 0xfd s8
      in io_out8 0xa1 0xff s9)"

definition init_interrupt :: "(nat \<Rightarrow> uintptr) \<Rightarrow> cpu \<Rightarrow> cpu" where
  "init_interrupt interrupt s =
     sti (init_8259A (s\<lparr>IDT_Table := set_irq_gates interrupt 0x20 (IDT_Table s)\<rparr>))"

definition do_IRQ :: "(uint16 \<Rightarrow> uint8) \<Rightarrow> uint64 \<Rightarrow> uint64 \<Rightarrow> cpu \<Rightarrow> cpu" where
  "do_IRQ device regs nr s =
     (let s1 = (if 0x21 = nr then snd (io_in8 device 0x60 s) else s)
      in io_out8 0x20 0x20 s1)"

section \<open>The gates\<close>

lemma set_irq_gates_at:
  "0x20 \<le> unat i \<Longrightarrow> unat i \<le> 0x38 \<Longrightarrow>
   set_irq_gates interrupt i idt n =
     (if unat i \<le> n \<and> n < 0x38 then set_gate 0x8E 2 (interrupt (n - 0x20)) else idt n)"
proof (induction interrupt i idt rule: set_irq_gates.induct)
  case (1 interrupt i idt)
  show ?case
  proof (cases "i < 0x38")
    case True
    then have i: "unat i < 56" by (simp add: word_less_nat_alt)
    then have "unat (i + 1) = Suc (unat i)" using unat_word_ariths(1) [of i 1] by simp
    moreover have "unat (i - 0x20) = unat i - 0x20"
      using unat_sub [of "0x20" i] "1.prems"(1) by (simp add: word_le_nat_alt)
    moreover have "unat (ucast i :: uint32) = unat i"
      using i by (simp add: unsigned_ucast_eq take_bit_nat_eq_self)
    moreover define T where "T = set_intr_gate (ucast i) 2 (interrupt (unat (i - 0x20))) idt"
    ultimately have T: "T n = (if n = unat i then set_gate 0x8E 2 (interrupt (unat i - 0x20)) else idt n)"
      by (simp add: set_intr_gate_def)
    have "set_irq_gates interrupt (i + 1) T n =
        (if Suc (unat i) \<le> n \<and> n < 0x38 then set_gate 0x8E 2 (interrupt (n - 0x20)) else T n)"
      using "1.IH" [OF True, folded T_def] "1.prems" i \<open>unat (i + 1) = Suc (unat i)\<close> by simp
    moreover have "set_irq_gates interrupt i idt = set_irq_gates interrupt (i + 1) T"
      using True set_irq_gates.simps [of interrupt i idt] by (simp add: T_def)
    ultimately show ?thesis using i T by (cases n "unat i" rule: linorder_cases) auto
  next
    case False
    then have "\<not> unat i < 56" by (simp add: word_less_nat_alt)
    with "1.prems" False show ?thesis by (subst set_irq_gates.simps) auto
  qed
qed

lemma ports_keep_IDT [simp]:
  "IDT_Table (access a s) = IDT_Table s" "IDT_Table (sti s) = IDT_Table s" "ports (sti s) = ports s" "if_flag (sti s)"
  by (simp_all add: access_def sti_def)

lemma init_8259A_state:
  "IDT_Table (init_8259A s) = IDT_Table s"
  "ports (init_8259A s) = [Out 0xa1 0xff, Out 0x21 0xfd, Out 0xa1 0x01, Out 0xa1 0x02, Out 0xa1 0x28, Out 0xa0 0x11,
     Out 0x21 0x01, Out 0x21 0x04, Out 0x21 0x20, Out 0x20 0x11] @ ports s"
  by (simp_all add: init_8259A_def io_out8_def Let_def)

lemma init_interrupt_table:
  "IDT_Table (init_interrupt interrupt s) n =
     (if 0x20 \<le> n \<and> n < 0x38 then set_gate 0x8E 2 (interrupt (n - 0x20)) else IDT_Table s n)"
  "if_flag (init_interrupt interrupt s)"
  using set_irq_gates_at [of "0x20" interrupt "IDT_Table s" n]
  by (simp_all add: init_interrupt_def sti_def init_8259A_state)

section \<open>Properties\<close>



text \<open>
  \<^verbatim>\<open>do_IRQ\<close> acknowledges only the master controller. For every interrupt the only
  write is the end-of-interrupt word to port 0x20, after the key code is read for vector 0x21; for
  the lines of the slave, vectors 0x28 to 0x2f, nothing is written to port 0xa0, so the slave keeps
  the line in service.
\<close>

theorem do_IRQ_acknowledges_master_only:
  "ports (do_IRQ device regs nr s) = Out 0x20 0x20 # (if nr = 0x21 then [In 0x60] else []) @ ports s \<and>
    writes 0xa0 (ports (do_IRQ device regs nr s)) = writes 0xa0 (ports s)"
  by (simp add: do_IRQ_def io_out8_def io_in8_def)

end
