(* ===== verification/Interrupt_Path.thy ===== *)
theory Interrupt_Path
  imports Interrupt
begin

text \<open>
  An interrupt from the line of the controller to the interrupted instruction and back: the gate that
  \<^verbatim>\<open>init_interrupt\<close> set (\<^verbatim>\<open>src/interrupt.c\<close>) and the stack that \<^verbatim>\<open>set_tss64\<close> stored
  (\<^verbatim>\<open>include/gate.h\<close>), as the processor uses them, the stub, \<^verbatim>\<open>do_IRQ\<close> and the exit code. What the
  processor does when it delivers an interrupt is documented behaviour and has no source here.
\<close>

section \<open>The stubs\<close>

text \<open>The 24 instances of \<^verbatim>\<open>Build_IRQ\<close>, in the order of the table \<^verbatim>\<open>interrupt\<close>.\<close>

definition interrupt_stubs :: "uintptr \<Rightarrow> instr list list" where
  "interrupt_stubs ret_from_intr = map (Build_IRQ ret_from_intr)
     [0x20, 0x21, 0x22, 0x23, 0x24, 0x25, 0x26, 0x27, 0x28, 0x29, 0x2a, 0x2b,
      0x2c, 0x2d, 0x2e, 0x2f, 0x30, 0x31, 0x32, 0x33, 0x34, 0x35, 0x36, 0x37]"

lemma interrupt_stubs_nth:
  "line < 24 \<Longrightarrow> interrupt_stubs ret ! line = Build_IRQ ret (0x20 + of_nat line)"
proof -
  have "[0x20, 0x21, 0x22, 0x23, 0x24, 0x25, 0x26, 0x27, 0x28, 0x29, 0x2a, 0x2b, 0x2c, 0x2d, 0x2e, 0x2f,
      0x30, 0x31, 0x32, 0x33, 0x34, 0x35, 0x36, 0x37] = map (\<lambda>k. 0x20 + of_nat k :: uint64) [0 ..< 24]"
    by (simp add: upt_rec)
  then show "line < 24 \<Longrightarrow> ?thesis" by (simp add: interrupt_stubs_def del: upt_rec_numeral)
qed

section \<open>Delivery\<close>

text \<open>
  The processor goes through a gate that names an interrupt stack: it aligns that stack to 16, pushes
  \<^verbatim>\<open>ss\<close>, \<^verbatim>\<open>rsp\<close>, \<^verbatim>\<open>rflags\<close>, \<^verbatim>\<open>cs\<close> and \<^verbatim>\<open>rip\<close>, clears the flags TF, NT, RF and VM and, through an
  interrupt gate, IF, and continues at the gate's offset. The kernel is the only privilege level.
\<close>

definition deliver :: "gate_struct \<Rightarrow> tss_table \<Rightarrow> machine \<Rightarrow> machine" where
  "deliver g tss s =
     (let s1 = set_reg Rsp (get64 tss (7 + 2 * unat (gate_ist g)) AND NOT 0xf) s;
          s2 = push64 (m_rip s) (push64 (m_cs s) (push64 (m_rflags s) (push64 (gpr s Rsp) (push64 (m_ss s) s1))));
          off = (if gate_attr g AND 0xf = 0xe then 0x34300 else 0x34100)
      in s2\<lparr>m_rip := gate_offset g, m_cs := gate_selector g, m_rflags := m_rflags s AND NOT off\<rparr>)"

lemma push64_regs [simp]:
  "m_ds (push64 v s) = m_ds s" "m_es (push64 v s) = m_es s" "gpr (push64 v s) = (gpr s)(Rsp := gpr s Rsp - 8)"
  "m_mem (push64 v s) = write64 (gpr s Rsp - 8) v (m_mem s)" "m_rflags (push64 v s) = m_rflags s"
  "m_ss (push64 v s) = m_ss s" "m_cs (push64 v s) = m_cs s"
  by (simp_all add: push64_def)

lemma deliver_state:
  assumes "d = deliver g tss s" and "stk = get64 tss (7 + 2 * unat (gate_ist g)) AND NOT 0xf"
  shows "m_rip d = gate_offset g" and "m_cs d = gate_selector g" and "gpr d = (gpr s)(Rsp := stk - 40)"
    and "m_ds d = m_ds s" and "m_es d = m_es s"
    and "m_mem d = pushes write64 stk [m_ss s, gpr s Rsp, m_rflags s, m_cs s, m_rip s] (m_mem s)"
    and "gate_attr g = 0x8E \<Longrightarrow> \<not> bit (m_rflags d) 9"
  by (simp_all add: assms deliver_def Let_def fun_upd_def bit_and_iff bit_not_iff cong: if_cong)

lemma deliver_frame:
  assumes "d = deliver g tss s" and "j < 5"
  shows "read64 (m_mem d) (gpr d Rsp + 8 * of_nat j) = [m_rip s, m_cs s, m_rflags s, gpr s Rsp, m_ss s] ! j"
proof -
  note d = deliver_state [OF assms(1) refl]
  from assms(2) have "j = 0 \<or> j = 1 \<or> j = 2 \<or> j = 3 \<or> j = 4" by linarith
  then show ?thesis
    using q8.rd_slot [of j "[m_ss s, gpr s Rsp, m_rflags s, m_cs s, m_rip s]"
        "get64 tss (7 + 2 * unat (gate_ist g)) AND NOT 0xf" "m_mem s"]
    by (auto simp: d(3,6))
qed

lemma read_frame:
  "read_pt_regs m a = \<lparr>pt_r15 = read64 m a, pt_r14 = read64 m (a + 8 * of_nat 1), pt_r13 = read64 m (a + 8 * of_nat 2),
     pt_r12 = read64 m (a + 8 * of_nat 3), pt_r11 = read64 m (a + 8 * of_nat 4), pt_r10 = read64 m (a + 8 * of_nat 5),
     pt_r9 = read64 m (a + 8 * of_nat 6), pt_r8 = read64 m (a + 8 * of_nat 7), pt_rbx = read64 m (a + 8 * of_nat 8),
     pt_rcx = read64 m (a + 8 * of_nat 9), pt_rdx = read64 m (a + 8 * of_nat 10), pt_rsi = read64 m (a + 8 * of_nat 11),
     pt_rdi = read64 m (a + 8 * of_nat 12), pt_rbp = read64 m (a + 8 * of_nat 13), pt_ds = read64 m (a + 8 * of_nat 14),
     pt_es = read64 m (a + 8 * of_nat 15), pt_rax = read64 m (a + 8 * of_nat 16), pt_func = read64 m (a + 8 * of_nat 17),
     pt_errcode = read64 m (a + 8 * of_nat 18), pt_rip = read64 m (a + 8 * of_nat 19), pt_cs = read64 m (a + 8 * of_nat 20),
     pt_rflags = read64 m (a + 8 * of_nat 21), pt_rsp = read64 m (a + 8 * of_nat 22), pt_ss = read64 m (a + 8 * of_nat 23)\<rparr>"
  by (simp add: read_pt_regs_def offset_defs)

section \<open>The way back\<close>

text \<open>
  What the C function \<^verbatim>\<open>do_IRQ\<close> keeps by the calling convention: the frame above its return address,
  which it pops.
\<close>

definition keeps_frame :: "machine \<Rightarrow> machine \<Rightarrow> bool" where
  "keeps_frame s1 s2 \<longleftrightarrow> gpr s2 Rsp = gpr s1 Rsp + 8 \<and>
     (\<forall>j < 24. read64 (m_mem s2) (gpr s2 Rsp + 8 * of_nat j) = read64 (m_mem s1) (gpr s2 Rsp + 8 * of_nat j))"

lemma delivered_restored:
  assumes "d = deliver g tss s" and "s1 = run (Build_IRQ ret nr) d" and "keeps_frame s1 s2" and "t = run RSETORE_ALL s2"
  shows "gpr t = gpr s" and "m_ds t = m_ds s" and "m_es t = m_es s" and "m_rip t = m_rip s" and "m_cs t = m_cs s"
    and "m_rflags t = m_rflags s" and "m_ss t = m_ss s" and "m_mem t = m_mem s2"
proof -
  note kept = assms(3) [unfolded keeps_frame_def]
  have r: "(\<forall>r. gpr t r = (if r = Rsp then read64 (m_mem d) (gpr d Rsp + 24) else gpr d r)) \<and>
    m_ds t = m_ds d \<and> m_es t = m_es d \<and> m_rip t = read64 (m_mem d) (gpr d Rsp) \<and>
    m_cs t = read64 (m_mem d) (gpr d Rsp + 8) \<and> m_rflags t = read64 (m_mem d) (gpr d Rsp + 16) \<and>
    m_ss t = read64 (m_mem d) (gpr d Rsp + 32)"
    by (rule interrupt_returns [OF assms(2) conjunct1 [OF kept] conjunct2 [OF kept] assms(4)])
  note f = deliver_frame [OF assms(1), of 0] deliver_frame [OF assms(1), of 1] deliver_frame [OF assms(1), of 2]
    deliver_frame [OF assms(1), of 3] deliver_frame [OF assms(1), of 4]
  note d = deliver_state(3-5) [OF assms(1) refl]
  have "gpr t r = gpr s r" for r
    using r f(4) by (cases "r = Rsp") (simp_all add: d)
  then show "gpr t = gpr s" by (rule ext)
  show "m_ds t = m_ds s" "m_es t = m_es s" "m_rip t = m_rip s" "m_cs t = m_cs s" "m_rflags t = m_rflags s" "m_ss t = m_ss s"
    using r f by (simp_all add: d)
  show "m_mem t = m_mem s2" using restore_state(10) [OF assms(4) refl refl] .
qed

lemma irq_gate:
  "line < 24 \<Longrightarrow> IDT_Table (init_interrupt interrupt c) (0x20 + line) = set_gate 0x8E 2 (interrupt line)"
  by (simp add: init_interrupt_table)

lemma irq_gate_fields:
  "gate_offset (set_gate 0x8E 2 a) = a" "gate_selector (set_gate 0x8E 2 a) = 8"
  "gate_ist (set_gate 0x8E 2 a) = 2" "gate_attr (set_gate 0x8E 2 a) = 0x8E"
  by (simp_all add: gate_fields)

lemma interrupt_stack: "get64 (set_tss64 r0 r1 r2 i1 i2 i3 i4 i5 i6 i7 t) 11 = i2"
  by (simp add: set_tss64_def Let_def get64_put64)

text \<open>The stub writes the 200 bytes below the top of the interrupt stack.\<close>

lemma delivered_memory:
  assumes "d = deliver g tss s" and "s1 = run (Build_IRQ ret nr) d"
    and "stk = get64 tss (7 + 2 * unat (gate_ist g)) AND NOT 0xf"
  shows "m_mem s1 = pushes write64 stk ([m_ss s, gpr s Rsp, m_rflags s, m_cs s, m_rip s] @ saved d @ [ret]) (m_mem s)"
    and "x \<notin> block (stk - 200) 200 \<Longrightarrow> m_mem s1 x = m_mem s x"
proof -
  note d = deliver_state [OF assms(1,3)]
  have len: "length ([m_ss s, gpr s Rsp, m_rflags s, m_cs s, m_rip s] @ saved d @ [ret]) = 25"
    by (simp add: saved_def saved_regs_def)
  show m: "m_mem s1 = pushes write64 stk ([m_ss s, gpr s Rsp, m_rflags s, m_cs s, m_rip s] @ saved d @ [ret]) (m_mem s)"
    unfolding stub_state(4) [OF assms(2)] d(6) pushes_append by (simp add: d(3))
  assume "x \<notin> block (stk - 200) 200"
  then show "m_mem s1 x = m_mem s x"
    unfolding m by (intro pushes_other) (simp_all only: len, simp_all)
qed

section \<open>Properties\<close>

text \<open>
  Property C16: an interrupt is transparent to what it interrupts. After \<^verbatim>\<open>init_interrupt\<close> and
  \<^verbatim>\<open>set_tss64\<close>, an interrupt on any of the 24 vectors enters the stub of its own table entry in the
  kernel's code segment with interrupts off, on the second interrupt stack, and writes only the 200 bytes
  below its top. \<^verbatim>\<open>do_IRQ\<close> gets the address of the frame and the vector; it reads the key of vector 0x21
  and no other, and acknowledges. If it keeps the frame, the exit code continues what was interrupted
  with every general register, segment and flag, the stack pointer and the instruction pointer as they were.
\<close>

theorem interrupt_transparent:
  assumes "c = init_interrupt interrupt c0" and "tss = set_tss64 r0 r1 r2 i1 i2 i3 i4 i5 i6 i7 tss0" and "line < 24"
    and "d = deliver (IDT_Table c (0x20 + line)) tss s"
    and "s1 = run (interrupt_stubs ret_from_intr ! line) d" and "keeps_frame s1 s2" and "t = run RSETORE_ALL s2"
  shows "m_rip d = interrupt line \<and> m_cs d = 8 \<and> \<not> bit (m_rflags s1) 9 \<and>
    gpr s1 Rdi = (i2 AND NOT 0xf) - 192 \<and> gpr s1 Rsi = 0x20 + of_nat line \<and>
    (\<forall>x. x \<notin> block ((i2 AND NOT 0xf) - 200) 200 \<longrightarrow> m_mem s1 x = m_mem s x) \<and>
    ports (do_IRQ device (gpr s1 Rdi) (gpr s1 Rsi) c) = Out 0x20 0x20 # (if line = 1 then [In 0x60] else []) @ ports c \<and>
    gpr t = gpr s \<and> m_ds t = m_ds s \<and> m_es t = m_es s \<and> m_rip t = m_rip s \<and> m_cs t = m_cs s \<and>
    m_rflags t = m_rflags s \<and> m_ss t = m_ss s"
proof -
  have gate: "IDT_Table c (0x20 + line) = set_gate 0x8E 2 (interrupt line)"
    unfolding assms(1) by (rule irq_gate [OF assms(3)])
  have stub: "s1 = run (Build_IRQ ret_from_intr (0x20 + of_nat line)) d"
    using assms(5) by (simp add: interrupt_stubs_nth [OF assms(3)])
  have stk: "i2 AND NOT 0xf = get64 tss (7 + 2 * unat (gate_ist (IDT_Table c (0x20 + line)))) AND NOT 0xf"
    by (simp add: gate irq_gate_fields assms(2) interrupt_stack)
  note d = deliver_state [OF assms(4) stk, unfolded gate irq_gate_fields]
  note s1 = stub_state [OF stub]
  have "unat (of_nat line :: uint64) = line" using assms(3) by (intro unat_of_nat_small) simp
  then have "of_nat line = (1 :: uint64) \<longleftrightarrow> line = 1" by (simp add: word_unat_eq_iff)
  moreover have "0x20 + x = 0x21 \<longleftrightarrow> x = 1" for x :: uint64
    using add_left_cancel [of "0x20" x 1] by simp
  ultimately have "(0x20 + of_nat line :: uint64) = 0x21 \<longleftrightarrow> line = 1" by simp
  then have "ports (do_IRQ device (gpr s1 Rdi) (gpr s1 Rsi) c) = Out 0x20 0x20 # (if line = 1 then [In 0x60] else []) @ ports c"
    by (simp add: do_IRQ_def io_out8_def io_in8_def s1(2))
  moreover have "\<not> bit (m_rflags s1) 9" using d(7) by (simp add: s1(7) bit_and_iff)
  moreover have "gpr s1 Rdi = (i2 AND NOT 0xf) - 192" by (simp add: s1(1) d(3))
  ultimately show ?thesis
    using d(1,2) s1(2) delivered_memory(2) [OF assms(4) stub stk] delivered_restored [OF assms(4) stub assms(6,7)]
    by blast
qed

lemma handled_keeps: "keeps_frame s (handled s)"
  by (simp add: keeps_frame_def handled_def)

theorem interrupt_transparent_witness:
  "let c = init_interrupt (\<lambda>k. 0xffff800000106000 + 16 * of_nat k) \<lparr>ports = [], if_flag = False, IDT_Table = (\<lambda>_. (0, 0))\<rparr>;
       d = deliver (IDT_Table c 0x21) (set_tss64 1 2 3 4 0xffff800000007c00 6 7 8 9 10 (\<lambda>_. 0)) interrupted;
       s1 = run (interrupt_stubs 0xffff800000104200 ! 1) d;
       t = run RSETORE_ALL (handled s1)
   in m_rip d = 0xffff800000106010 \<and> gpr s1 Rdi = 0xffff800000007b40 \<and> gpr t Rsp = 0x7000 \<and> gpr t Rbx = 5 \<and>
     ports (do_IRQ (\<lambda>_. 0) (gpr s1 Rdi) (gpr s1 Rsi) c) = Out 0x20 0x20 # In 0x60 # ports c"
proof -
  define c where "c = init_interrupt (\<lambda>k. 0xffff800000106000 + 16 * of_nat k) \<lparr>ports = [], if_flag = False, IDT_Table = (\<lambda>_. (0, 0))\<rparr>"
  define d where "d = deliver (IDT_Table c (0x20 + 1)) (set_tss64 1 2 3 4 0xffff800000007c00 6 7 8 9 10 (\<lambda>_. 0)) interrupted"
  define s1 where "s1 = run (interrupt_stubs 0xffff800000104200 ! 1) d"
  have "gpr interrupted Rsp = 0x7000" "gpr interrupted Rbx = 5" by (simp_all add: interrupted_def)
  then show ?thesis
    using interrupt_transparent [OF c_def refl _ d_def s1_def handled_keeps refl, of "\<lambda>_. 0"]
    by (auto simp: Let_def c_def [symmetric] d_def [symmetric, simplified] s1_def [symmetric, unfolded One_nat_def])
qed

end
