(* ===== verification/Trap_Path.thy ===== *)
theory Trap_Path
  imports Trap Interrupt_Path
begin

text \<open>
  An exception from the processor to the report on the screen: the gates of \<^verbatim>\<open>init_sys_vector\<close>
  (\<^verbatim>\<open>src/trap.c\<close>), the first interrupt stack of \<^verbatim>\<open>set_tss64\<close>, the stubs of \<^verbatim>\<open>src/entry.sx\<close> and the
  handlers. For the exceptions that have one the processor pushes an error code below its frame.
\<close>

section \<open>Delivery with an error code\<close>

definition deliver_exception :: "uint64 option \<Rightarrow> gate_struct \<Rightarrow> tss_table \<Rightarrow> machine \<Rightarrow> machine" where
  "deliver_exception code g tss s =
     (let d = deliver g tss s in case code of None \<Rightarrow> d | Some e \<Rightarrow> push64 e d)"

lemma deliver_exception_state:
  assumes "d = deliver_exception code g tss s" and "top_frame = (get64 tss (7 + 2 * unat (gate_ist g)) AND NOT 0xf) - 40"
    and "wc = (code \<noteq> None)"
  shows "m_rip d = gate_offset g" and "frame_top wc d = top_frame"
    and "code_of wc d = (case code of None \<Rightarrow> 0 | Some e \<Rightarrow> e)" and "read64 (m_mem d) top_frame = m_rip s"
proof -
  note a = deliver_state [OF refl refl, of g tss s] deliver_frame [OF refl, of 0 g tss s, simplified]
  show "m_rip d = gate_offset g" "frame_top wc d = top_frame" "code_of wc d = (case code of None \<Rightarrow> 0 | Some e \<Rightarrow> e)"
    using a(1,3) assms(2,3)
    by (auto simp: assms(1) deliver_exception_def Let_def frame_top_def code_of_def q8.rd_same push64_def split: option.splits)
  show "read64 (m_mem d) top_frame = m_rip s"
  proof (cases code)
    case None
    then show ?thesis using a(3,8) by (simp add: assms(1,2) deliver_exception_def)
  next
    case (Some e)
    have "read64 (write64 (top_frame - 8) e m) top_frame = read64 m top_frame" for m
      using q8.rd_beyond [of "[e]" 0 top_frame m] by simp
    with Some show ?thesis using a(3,8) by (simp add: assms(1,2) deliver_exception_def)
  qed
qed

lemma exception_stack: "get64 (set_tss64 r0 r1 r2 i1 i2 i3 i4 i5 i6 i7 t) 9 = i1"
  by (simp add: set_tss64_def Let_def get64_put64)

lemma sys_gate:
  assumes "(n, attr, entry) \<in> set sys_vectors"
  shows "init_sys_vector link t n = set_gate attr 1 (link entry)" and "attr < 256"
proof -
  have "distinct (map fst sys_vectors)" by (simp add: sys_vectors_def)
  with assms have "map_of sys_vectors n = Some (attr, entry)" by (simp add: map_of_is_SomeI)
  then show "init_sys_vector link t n = set_gate attr 1 (link entry)" by (simp add: init_sys_vector_at)
  show "attr < 256" using assms by (auto simp: sys_vectors_def)
qed

lemma delivered_exception:
  assumes "(n, attr, entry) \<in> set sys_vectors"
    and "d = deliver_exception code (init_sys_vector link t0 n) (set_tss64 r0 r1 r2 i1 i2 i3 i4 i5 i6 i7 tss0) s"
    and "wc = (code \<noteq> None)"
  shows "m_rip d = link entry" and "frame_top wc d = (i1 AND NOT 0xf) - 40"
    and "code_of wc d = (case code of None \<Rightarrow> 0 | Some e \<Rightarrow> e)"
    and "read64 (m_mem d) (frame_top wc d) = m_rip s"
proof -
  note g = sys_gate(1) [OF assms(1), of link t0] sys_gate(2) [OF assms(1)]
  have ist: "gate_ist (init_sys_vector link t0 n) = 1" "gate_offset (init_sys_vector link t0 n) = link entry"
    by (simp_all add: g gate_fields)
  have stk: "(i1 AND NOT 0xf) - 40 =
      (get64 (set_tss64 r0 r1 r2 i1 i2 i3 i4 i5 i6 i7 tss0) (7 + 2 * unat (gate_ist (init_sys_vector link t0 n))) AND NOT 0xf) - 40"
    by (simp add: ist exception_stack)
  note d = deliver_exception_state [OF assms(2) stk assms(3)]
  show "m_rip d = link entry" "frame_top wc d = (i1 AND NOT 0xf) - 40"
    "code_of wc d = (case code of None \<Rightarrow> 0 | Some e \<Rightarrow> e)" "read64 (m_mem d) (frame_top wc d) = m_rip s"
    using d by (simp_all add: ist)
qed

section \<open>Properties\<close>

text \<open>
  Property C13: what the screen says of an exception is what happened. After \<^verbatim>\<open>init_sys_vector\<close> and
  \<^verbatim>\<open>set_tss64\<close>, an exception of any vector from 2 on enters the stub of its own table entry on the first
  interrupt stack; the handler then prints, without a fault, the text of the vector with the processor's
  error code (0 where there is none), the address of the saved registers on that stack and the address
  of the interrupted instruction, decodes the bits of the error code for the segment exceptions and the
  page fault, and loops with the cursor on a cell.
\<close>

theorem exception_path:
  assumes "(n, wc, h, text) \<in> set (exception_table cr2)" and "2 \<le> n" and "(n, attr, entry) \<in> set sys_vectors"
    and "wc = (code \<noteq> None)" and "cursor_ok c"
    and "d = deliver_exception code (init_sys_vector link t0 n) (set_tss64 r0 r1 r2 i1 i2 i3 i4 i5 i6 i7 tss0) s"
    and "s1 = run (stub_of n wc addr) d"
  shows "m_rip d = link entry \<and> (\<exists>t. h (m_mem s1) (gpr s1 Rdi) (gpr s1 Rsi) c = Inr (Loops t) \<and> cursor_ok t \<and>
    prints (text (case code of None \<Rightarrow> 0 | Some e \<Rightarrow> e) ((i1 AND NOT 0xf) - 192) (m_rip s)) c = Inr t)"
proof -
  note d = delivered_exception [OF assms(3,6,4)]
  have "(i1 AND NOT 0xf) - 40 - 0x98 = (i1 AND NOT 0xf) - 192" by simp
  then show ?thesis
    using exception_reported [OF assms(1,2,5,7)] d by simp
qed

theorem exception_path_witness:
  "\<exists>d t. m_rip d = 0x100a \<and>
     do_page_fault 0x1000 (m_mem (run (stub_of 14 True 0x5000) d)) (gpr (run (stub_of 14 True 0x5000) d) Rdi)
       (gpr (run (stub_of 14 True 0x5000) d) Rsi) wide_screen = Inr (Loops t) \<and>
     prints (exception_text ''do_page_fault(14)'' 6 0xffff800000007b40 (m_rip interrupted) @ page_fault_text 6 0x1000) wide_screen = Inr t"
proof -
  define d where "d = deliver_exception (Some 6) (init_sys_vector (\<lambda>f. 0x1000 + of_nat (length f)) (\<lambda>_. (0, 0)) 14)
    (set_tss64 0 0 0 0xffff800000007c00 0 0 0 0 0 0 (\<lambda>_. 0)) interrupted"
  have t: "(14, True, do_page_fault 0x1000, \<lambda>e r i. exception_text ''do_page_fault(14)'' e r i @ page_fault_text e 0x1000)
      \<in> set (exception_table 0x1000)"
    by (simp add: exception_table_def)
  have v: "(14, 0x8F, ''page_fault'') \<in> set sys_vectors" by (simp add: sys_vectors_def)
  have "m_rip d = 0x100a" "(0xffff800000007c00 AND NOT 0xf) - 192 = (0xffff800000007b40 :: uint64)"
    using exception_path [OF t _ v _ cursor_ok_wide_screen(1) d_def refl] by simp_all
  then show ?thesis
    using exception_path [OF t _ v _ cursor_ok_wide_screen(1) d_def refl, of "0x5000"] by auto
qed

text \<open>
  A division error is not reported as it happened. The gates of vectors 0 and 1 lead to the C
  functions themselves, so their arguments are whatever \<^verbatim>\<open>rdi\<close> and \<^verbatim>\<open>rsi\<close> held: the line printed as error
  code, stack and instruction is \<^verbatim>\<open>rsi\<close>, \<^verbatim>\<open>rdi\<close> and the quadword at \<^verbatim>\<open>rdi + 0x98\<close> of the interrupted
  code, the same for every instruction that faults.
\<close>

theorem divide_error_reports_registers:
  assumes "(n, wc, h, text) \<in> set (exception_table cr2)" and "n < 2" and "(n, attr, entry) \<in> set sys_vectors" and "cursor_ok c"
    and "d = deliver_exception None (init_sys_vector link t0 n) (set_tss64 r0 r1 r2 i1 i2 i3 i4 i5 i6 i7 tss0) s"
  shows "m_rip d = link (if n = 0 then ''do_divide_error'' else ''do_debug'') \<and>
    (\<exists>t. h (m_mem d) (gpr d Rdi) (gpr d Rsi) c = Inr (Loops t) \<and>
      prints (text (gpr s Rsi) (gpr s Rdi) (read64 (m_mem d) (gpr s Rdi + 0x98))) c = Inr t)"
proof -
  have entry: "entry = (if n = 0 then ''do_divide_error'' else ''do_debug'')"
    using assms(2,3) by (auto simp: sys_vectors_def)
  have regs: "gpr d Rdi = gpr s Rdi" "gpr d Rsi = gpr s Rsi"
    using deliver_state(3) [OF refl refl, of "init_sys_vector link t0 n" _ s]
    by (simp_all add: assms(5) deliver_exception_def Let_def)
  obtain t where "prints (text (gpr s Rsi) (gpr s Rdi) (read64 (m_mem d) (gpr s Rdi + 0x98))) c = Inr t"
    using tty.put_text [OF assms(4), of RED BLACK] unfolding prints_def by blast
  then show ?thesis
    using delivered_exception(1) [OF assms(3,5) refl] handler_prints [OF assms(1), of "m_mem d" "gpr d Rdi" "gpr d Rsi" c]
    by (simp add: entry regs hang_def)
qed

theorem divide_error_reports_registers_witness:
  "\<exists>(d :: machine) t. m_rip d = 0x100f \<and> do_divide_error (m_mem d) (gpr d Rdi) (gpr d Rsi) wide_screen = Inr (Loops t) \<and>
     prints (exception_text ''do_divide_error(0)'' 5 5 (read64 (m_mem d) 0x9d)) wide_screen = Inr t"
proof -
  define d where "d = deliver_exception None (init_sys_vector (\<lambda>f. 0x1000 + of_nat (length f)) (\<lambda>_. (0, 0)) 0)
    (set_tss64 0 0 0 0xffff800000007c00 0 0 0 0 0 0 (\<lambda>_. 0)) interrupted"
  have t: "(0, False, do_divide_error, exception_text ''do_divide_error(0)'') \<in> set (exception_table 0)"
    by (simp add: exception_table_def)
  have v: "(0, 0x8F, ''do_divide_error'') \<in> set sys_vectors" by (simp add: sys_vectors_def)
  have "gpr interrupted Rdi = 5" "gpr interrupted Rsi = 5" by (simp_all add: interrupted_def)
  then show ?thesis
    using divide_error_reports_registers [OF t _ v cursor_ok_wide_screen(1) d_def] by (auto intro!: exI [of _ d])
qed

end
