(* ===== verification/Head.thy ===== *)
theory Head
  imports Trap_Path
begin

text \<open>
  \<^verbatim>\<open>src/head.sx\<close>, the assembly between the loader and \<^verbatim>\<open>kernel_start\<close>: the first page tables, the segment
  descriptors, the interrupt descriptor table filled with gates to \<^verbatim>\<open>ignore_int\<close>, the descriptor of the task
  state segment, and \<^verbatim>\<open>ignore_int\<close> itself. Blocks of instructions are traces on the registers they use, as
  for \<^verbatim>\<open>_set_gate\<close>.
\<close>

section \<open>Tables\<close>

definition PML4E :: "uint64 list" where
  "PML4E = [0x102007] @ replicate 255 0 @ [0x102007] @ replicate 255 0"

definition PDPTE :: "uint64 list" where
  "PDPTE = [0x103003] @ replicate 511 0"

definition PDE :: "uint64 list" where
  "PDE = [0x000083, 0x200083, 0x400083, 0x600083, 0x800083,
     0xe0000083, 0xe0200083, 0xe0400083, 0xe0600083, 0xe0800083, 0xe0a00083, 0xe0c00083, 0xe0e00083] @ replicate 499 0"

definition GDT_Table :: "uint64 list" where
  "GDT_Table = [0x0000000000000000, 0x0020980000000000, 0x0000920000000000, 0x0020f80000000000, 0x0000f20000000000,
     0x00cf9a000000ffff, 0x00cf92000000ffff] @ replicate 10 0"

section \<open>The descriptor table\<close>

text \<open>\<^verbatim>\<open>setup_IDT\<close> up to the loop: the two quadwords of the gate to \<^verbatim>\<open>ignore_int\<close>.\<close>

definition ignore_gate :: "uintptr \<Rightarrow> gate_struct" where
  "ignore_gate ignore_int =
     (let r0 = \<lparr>g_rax = shl64 0x08 16, g_rcx = 0, g_rdx = ignore_int\<rparr>;
          r1 = movw_dx_ax r0;
          r2 = r1\<lparr>g_rcx := shl64 0x8e00 32\<rparr>;
          r3 = r2\<lparr>g_rax := g_rax r2 + g_rcx r2\<rparr>;
          r4 = movl_edx_ecx r3;
          r5 = r4\<lparr>g_rcx := shr64 (g_rcx r4) 16\<rparr>;
          r6 = r5\<lparr>g_rcx := shl64 (g_rcx r5) 48\<rparr>;
          r7 = r6\<lparr>g_rax := g_rax r6 + g_rcx r6\<rparr>;
          r8 = r7\<lparr>g_rdx := shr64 (g_rdx r7) 32\<rparr>
      in (g_rax r8, g_rdx r8))"

text \<open>The loop \<^verbatim>\<open>rp_sidt\<close>: the test is behind the body, on the counter after it is decremented.\<close>

function rp_sidt :: "uint64 \<Rightarrow> uint64 \<Rightarrow> uintptr \<Rightarrow> uint64 \<Rightarrow> mem8 \<Rightarrow> mem8" where
  "rp_sidt rax rdx rdi rcx m =
     (let m1 = write64 rdi rax m; m2 = write64 (rdi + 8) rdx m1; rdi = rdi + 0x10; rcx = rcx - 1
      in if rcx \<noteq> 0 then rp_sidt rax rdx rdi rcx m2 else m2)"
  by pat_completeness auto
termination
proof (relation "measure (\<lambda>(rax, rdx, rdi, rcx, m). unat (rcx - 1))")
  fix rcx :: uint64 and rax rdx rdi m m1 m2 rdi' rcx'
  assume "rcx' = rcx - 1" "rcx' \<noteq> 0"
  moreover from this have "unat (rcx - 1) \<noteq> 0" by (metis unat_eq_zero)
  ultimately show "((rax, rdx, rdi', rcx', m2), rax, rdx, rdi, rcx, m)
      \<in> measure (\<lambda>(rax, rdx, rdi, rcx, m). unat (rcx - 1))"
    using unat_minus_one [of "rcx - 1"] by simp
qed simp

declare rp_sidt.simps [simp del]

definition setup_IDT :: "uintptr \<Rightarrow> uintptr \<Rightarrow> mem8 \<Rightarrow> mem8" where
  "setup_IDT ignore_int IDT_addr m =
     (let (rax, rdx) = ignore_gate ignore_int in rp_sidt rax rdx IDT_addr 256 m)"

text \<open>The table in memory as the C code sees it, an array of \<^verbatim>\<open>gate_struct\<close>.\<close>

definition idt_at :: "mem8 \<Rightarrow> uintptr \<Rightarrow> idt_table" where
  "idt_at m a n = (read64 m (a + 16 * of_nat n), read64 m (a + 16 * of_nat n + 8))"

section \<open>The descriptor of the task state segment\<close>

text \<open>\<^verbatim>\<open>setup_TSS64\<close>: quadwords 8 and 9 of the table; \<^verbatim>\<open>shrl\<close> and \<^verbatim>\<open>andl\<close> work on the low half.\<close>

definition tss_descriptor :: "uintptr \<Rightarrow> uint64 \<times> uint64" where
  "tss_descriptor TSS_addr =
     (let r0 = \<lparr>g_rax = 0x89, g_rcx = 0, g_rdx = TSS_addr\<rparr>;
          r1 = r0\<lparr>g_rax := shl64 (g_rax r0) 40\<rparr>;
          r2 = movl_edx_ecx r1;
          r3 = r2\<lparr>g_rcx := shr64 (g_rcx r2) 24\<rparr>;
          r4 = r3\<lparr>g_rcx := shl64 (g_rcx r3) 56\<rparr>;
          r5 = r4\<lparr>g_rax := g_rax r4 + g_rcx r4\<rparr>;
          r6 = r5\<lparr>g_rcx := g_rcx r5 XOR g_rcx r5\<rparr>;
          r7 = movl_edx_ecx r6;
          r8 = r7\<lparr>g_rcx := g_rcx r7 AND 0xffffff\<rparr>;
          r9 = r8\<lparr>g_rcx := shl64 (g_rcx r8) 16\<rparr>;
          r10 = r9\<lparr>g_rax := g_rax r9 + g_rcx r9\<rparr>;
          r11 = r10\<lparr>g_rax := g_rax r10 + 103\<rparr>
      in (g_rax r11, shr64 (g_rdx r11) 32))"

definition setup_TSS64 :: "uintptr \<Rightarrow> uint64 list \<Rightarrow> uint64 list" where
  "setup_TSS64 TSS_addr gdt = gdt[64 div 8 := fst (tss_descriptor TSS_addr), 72 div 8 := snd (tss_descriptor TSS_addr)]"

section \<open>The common handler\<close>

definition int_msg :: string where
  "int_msg = ''Unknown interrupt or fault at RIP'' @ [CHR 0x0A]"

text \<open>\<^verbatim>\<open>ignore_int\<close> up to the call; its argument is the address of \<^verbatim>\<open>int_msg\<close>.\<close>

definition ignore_int :: "uintptr \<Rightarrow> instr list" where
  "ignore_int msg = [Cld, Push Rax, Push Rbx, Push Rcx, Push Rdx, Push Rbp, Push Rdi, Push Rsi,
     Push Gr8, Push Gr9, Push Gr10, Push Gr11, Push Gr12, Push Gr13, Push Gr14, Push Gr15,
     FromEs Rax, Push Rax, FromDs Rax, Push Rax, MovI 0x10 Rax, ToDs Rax, ToEs Rax,
     MovI msg Rax, Push Rax, Mov Rax Rdx, MovI 0x00000000 Rsi, MovI 0x00ff0000 Rdi, MovI 0 Rax]"

text \<open>
  The whole handler: the call of \<^verbatim>\<open>color_printk\<close> with its first three arguments from the registers, where
  \<open>text_at\<close> is the text at an address, and the loop behind it.
\<close>

definition run_ignore_int :: "(uintptr \<Rightarrow> string) \<Rightarrow> uintptr \<Rightarrow> machine \<Rightarrow> console \<Rightarrow> fault + console ending" where
  "run_ignore_int text_at msg s c =
     (let s1 = run (ignore_int msg) s
      in bindR (color_printk (ucast (gpr s1 Rdi)) (ucast (gpr s1 Rsi)) (m_mem s1) (text_at (gpr s1 Rdx)) [] c)
           (\<lambda>(n, c1). Inr (Loops c1)))"

section \<open>The loop\<close>

lemma ignore_gate_eq: "ignore_gate a = set_gate 0x8E 0 a"
  by (simp add: ignore_gate_def set_gate_def movw_dx_ax_def movl_edx_ecx_def Let_def)

lemma rp_sidt_last: "rp_sidt rax rdx rdi 1 m = write64 (rdi + 8) rdx (write64 rdi rax m)"
  by (subst rp_sidt.simps) (simp add: Let_def)

lemma rp_sidt_step:
  assumes "1 \<le> k" and "k < 2 ^ 60"
  shows "rp_sidt rax rdx rdi (of_nat (Suc k)) m =
    rp_sidt rax rdx (rdi + 16) (of_nat k) (write64 (rdi + 8) rdx (write64 rdi rax m))"
proof -
  have "(of_nat k :: uint64) \<noteq> 0" using assms by (simp add: word_unat_eq_iff unat_of_nat_small)
  then show ?thesis by (subst rp_sidt.simps) (simp add: Let_def)
qed

text \<open>What lies outside the entries written reads as before, and every entry reads as the gate.\<close>

lemma apart_up:
  fixes a b c :: uint64
  assumes "unat c + 8 \<le> unat (b - a)" and "8 \<le> unat c"
  shows "unat (b - (a + c)) = unat (b - a) - unat c" and "8 \<le> unat (a + c - b)"
proof -
  show eq: "unat (b - (a + c)) = unat (b - a) - unat c"
    using assms unat_sub [of c "b - a"] by (simp add: word_le_nat_alt diff_diff_eq)
  have "unat (a + c - b) = 18446744073709551616 - unat (b - (a + c))"
    using unat_other_way [of b "a + c"] eq assms by simp
  then show "8 \<le> unat (a + c - b)"
    using eq assms unat64_less [of "b - a"] by linarith
qed

lemma two_quads:
  assumes "16 \<le> unat (b - rdi)" and "8 \<le> unat (rdi - b)"
  shows "read64 (write64 (rdi + 8) rdx (write64 rdi rax m)) b = read64 m b"
  using assms apart_up [of 8 b rdi] q8.rd_other [of b "rdi + 8"] q8.rd_other [of b rdi] by simp

lemma rp_sidt_outside:
  assumes "1 \<le> k" and "k < 2 ^ 58" and "16 * k \<le> unat (b - rdi)" and "8 \<le> unat (rdi - b)"
  shows "read64 (rp_sidt rax rdx rdi (of_nat k) m) b = read64 m b"
  using assms
proof (induction k arbitrary: rdi m rule: nat_induct_at_least)
  case base
  then show ?case using two_quads [of b rdi rdx rax m] by (simp add: rp_sidt_last)
next
  case (Suc k)
  have up: "unat (b - (rdi + 16)) = unat (b - rdi) - 16" "8 \<le> unat (rdi + 16 - b)"
    using apart_up [of 16 b rdi] Suc.prems(2) Suc.hyps by simp_all
  then have "read64 (rp_sidt rax rdx (rdi + 16) (of_nat k) (write64 (rdi + 8) rdx (write64 rdi rax m))) b =
      read64 (write64 (rdi + 8) rdx (write64 rdi rax m)) b"
    using Suc.IH [of "rdi + 16"] Suc.prems by simp
  then show ?case
    using two_quads [of b rdi rdx rax m] rp_sidt_step [OF Suc.hyps(1), of rax rdx rdi m] Suc.prems by simp
qed

lemma rp_sidt_inside:
  assumes "1 \<le> k" and "k < 2 ^ 58" and "n < k"
  shows "idt_at (rp_sidt rax rdx rdi (of_nat k) m) rdi n = (rax, rdx)"
  using assms
proof (induction k arbitrary: rdi m n rule: nat_induct_at_least)
  case base
  then show ?case by (simp add: rp_sidt_last idt_at_def q8.rd_same q8.rd_other)
next
  case (Suc k)
  let ?m = "write64 (rdi + 8) rdx (write64 rdi rax m)"
  have step: "rp_sidt rax rdx rdi (of_nat (Suc k)) m = rp_sidt rax rdx (rdi + 16) (of_nat k) ?m"
    using rp_sidt_step [OF Suc.hyps(1)] Suc.prems by simp
  show ?case
  proof (cases n)
    case 0
    have "read64 (rp_sidt rax rdx (rdi + 16) (of_nat k) ?m) b = read64 ?m b" if "b \<in> {rdi, rdi + 8}" for b
      by (rule rp_sidt_outside [OF Suc.hyps]) (use that Suc.prems in auto)
    then show ?thesis unfolding step 0 idt_at_def by (simp add: q8.rd_same q8.rd_other)
  next
    case (Suc j)
    have "idt_at (rp_sidt rax rdx (rdi + 16) (of_nat k) ?m) (rdi + 16) j = (rax, rdx)"
      using Suc.IH [of j "rdi + 16" ?m] Suc.prems Suc by simp
    then show ?thesis unfolding step Suc by (simp add: idt_at_def algebra_simps)
  qed
qed

lemma setup_IDT_at:
  assumes "n < 256"
  shows "idt_at (setup_IDT a base m) base n = set_gate 0x8E 0 a"
  using rp_sidt_inside [of 256 n "fst (ignore_gate a)" "snd (ignore_gate a)" base m] assms
  by (simp add: setup_IDT_def case_prod_unfold ignore_gate_eq Let_def)

section \<open>The descriptor read back\<close>

definition sys_base :: "uint64 \<times> uint64 \<Rightarrow> uintptr" where
  "sys_base d = take_bit 24 (drop_bit 16 (fst d)) OR push_bit 24 (drop_bit 56 (fst d)) OR push_bit 32 (take_bit 32 (snd d))"

definition sys_limit :: "uint64 \<times> uint64 \<Rightarrow> uint64" where
  "sys_limit d = take_bit 16 (fst d) OR push_bit 16 (take_bit 4 (drop_bit 48 (fst d)))"

definition sys_attr :: "uint64 \<times> uint64 \<Rightarrow> uint64" where
  "sys_attr d = take_bit 8 (drop_bit 40 (fst d))"

lemma tss_constants:
  "bit (103 :: uint64) n \<longleftrightarrow> n \<in> {0, 1, 2, 5, 6}" "bit (0x89 :: uint64) n \<longleftrightarrow> n \<in> {0, 3, 7}"
proof -
  have "(103 :: uint64) = push_bit 0 1 OR push_bit 1 1 OR push_bit 2 1 OR push_bit 5 1 OR push_bit 6 1"
    and "(0x89 :: uint64) = push_bit 0 1 OR push_bit 3 1 OR push_bit 7 1" by simp_all
  then show "bit (103 :: uint64) n \<longleftrightarrow> n \<in> {0, 1, 2, 5, 6}" "bit (0x89 :: uint64) n \<longleftrightarrow> n \<in> {0, 3, 7}"
    by (simp_all only: bit_or_iff bit_push_one) auto
qed

lemma tss_descriptor_bit:
  "bit (fst (tss_descriptor a)) n \<longleftrightarrow> n \<in> {0, 1, 2, 5, 6} \<or> (16 \<le> n \<and> n < 40 \<and> bit a (n - 16)) \<or>
     n \<in> {40, 43, 47} \<or> (56 \<le> n \<and> n < 64 \<and> bit a (n - 32))"
proof -
  define T H L where "T = push_bit 40 (0x89 :: uint64)" and "H = push_bit 56 (drop_bit 24 (a AND 0xffffffff))"
    and "L = push_bit 16 ((a AND 0xffffffff) AND 0xffffff)"
  have mask: "(0xffffff :: uint64) = mask 24" by (simp add: mask_eq_exp_minus_1)
  have t: "bit T k \<longleftrightarrow> k \<in> {40, 43, 47}" for k
    by (simp only: T_def bit_push_bit_iff tss_constants) auto
  have h: "bit H k \<longleftrightarrow> 56 \<le> k \<and> k < 64 \<and> bit a (k - 32)" for k
    by (auto simp: H_def bit_push_bit_iff bit_drop_bit_eq bit_and_iff low_masks bit_mask_iff)
  have l: "bit L k \<longleftrightarrow> 16 \<le> k \<and> k < 40 \<and> bit a (k - 16)" for k
    by (auto simp: L_def bit_push_bit_iff bit_and_iff low_masks mask bit_mask_iff)
  have "fst (tss_descriptor a) = T + H + L + 103"
    by (simp add: tss_descriptor_def movl_edx_ecx_def Let_def T_def H_def L_def)
  also have "T + H = T OR H" by (rule add_or) (auto simp: t h)
  also have "(T OR H) + L = T OR H OR L" by (subst add_or) (auto simp: t h l bit_or_iff or.assoc)
  also have "(T OR H OR L) + 103 = T OR H OR L OR 103"
    by (subst add_or) (auto simp: t h l bit_or_iff tss_constants or.assoc simp del: bit_numeral_word_iff)
  finally show ?thesis by (auto simp: t h l bit_or_iff tss_constants simp del: bit_numeral_word_iff)
qed

lemma tss_descriptor_fields:
  "sys_base (tss_descriptor a) = a" "sys_limit (tss_descriptor a) = 103" "sys_attr (tss_descriptor a) = 0x89"
proof -
  note bits = bit_take_bit_iff bit_push_bit_iff bit_drop_bit_eq bit_or_iff tss_descriptor_bit
  have high: "snd (tss_descriptor a) = drop_bit 32 a"
    by (simp add: tss_descriptor_def movl_edx_ecx_def Let_def)
  show "sys_base (tss_descriptor a) = a"
  proof (rule word64_eqI)
    fix i :: nat
    assume "i < 64"
    then show "bit (sys_base (tss_descriptor a)) i = bit a i"
      by (cases "i < 24"; cases "i < 32") (auto simp: sys_base_def high bits)
  qed
  show "sys_limit (tss_descriptor a) = 103"
    by (rule word64_eqI) (auto simp: sys_limit_def bits tss_constants simp del: bit_numeral_word_iff)
  show "sys_attr (tss_descriptor a) = 0x89"
    by (rule word64_eqI) (auto simp: sys_attr_def bits tss_constants simp del: bit_numeral_word_iff)
qed
section \<open>Properties\<close>

text \<open>
  Property C28: the assembly and the C macro make the same table. The loop of \<^verbatim>\<open>setup_IDT\<close> writes 256
  entries, each what \<^verbatim>\<open>set_intr_gate\<close> would set for that vector with stack index 0 and the address of
  \<^verbatim>\<open>ignore_int\<close>, and no quadword outside the 4096 bytes of the table changes.
\<close>

theorem setup_IDT_is_set_intr_gate:
  assumes "m' = setup_IDT ignore_addr base m"
  shows "(\<forall>n < 256. idt_at m' base n = fold (\<lambda>k. set_intr_gate (of_nat k) 0 ignore_addr) [0 ..< 256] t n) \<and>
    (\<forall>b. 4096 \<le> unat (b - base) \<longrightarrow> 8 \<le> unat (base - b) \<longrightarrow> read64 m' b = read64 m b)"
proof (intro conjI allI impI)
  have gates: "fold (\<lambda>k. set_intr_gate (of_nat k) 0 ignore_addr) [0 ..< k] t n =
      (if n < k then set_gate 0x8E 0 ignore_addr else t n)" if "k \<le> 256" for k n
    using that
  proof (induction k)
    case (Suc k)
    then have "unat (of_nat k :: uint32) = k" by (simp add: unat_of_nat take_bit_nat_eq_self)
    with Suc show ?case by (simp add: set_intr_gate_def less_Suc_eq)
  qed simp
  fix n :: nat
  assume "n < 256"
  then show "idt_at m' base n = fold (\<lambda>k. set_intr_gate (of_nat k) 0 ignore_addr) [0 ..< 256] t n"
    using gates [of 256 n] by (simp add: assms setup_IDT_at)
next
  fix b
  assume "4096 \<le> unat (b - base)" "8 \<le> unat (base - b)"
  then show "read64 m' b = read64 m b"
    using rp_sidt_outside [of 256 b base _ _ m] by (simp add: assms setup_IDT_def case_prod_unfold Let_def)
qed

theorem setup_IDT_is_set_intr_gate_witness:
  "idt_at (setup_IDT 0xffff8000001000f0 0xffff800000105000 (\<lambda>_. 0)) 0xffff800000105000 255 = set_gate 0x8E 0 0xffff8000001000f0 \<and>
   read64 (setup_IDT 0xffff8000001000f0 0xffff800000105000 (\<lambda>_. 0)) 0xffff800000106000 = read64 (\<lambda>_. 0) 0xffff800000106000"
proof -
  note w = setup_IDT_is_set_intr_gate [OF refl, of "0xffff8000001000f0" "0xffff800000105000" "\<lambda>_. 0" "\<lambda>_. (0, 0)"]
  have "fold (\<lambda>k. set_intr_gate (of_nat k) 0 a) (xs @ [255]) t 255 = set_gate 0x8E 0 a" for a xs t
    by (simp add: set_intr_gate_def)
  moreover have "[0 ..< 256] = [0 ..< 255] @ [255]"
    using upt_Suc_append [of 0 255] by simp
  ultimately show ?thesis using w by simp
qed

text \<open>
  Property C20: every vector of the processor is answered. Once \<^verbatim>\<open>init_sys_vector\<close> and \<^verbatim>\<open>init_interrupt\<close>
  have run on the table that \<^verbatim>\<open>head.sx\<close> made, each of the 256 gates is present and selects the kernel's code:
  the twenty exceptions lead to their entry on the first interrupt stack, the 24 vectors of the
  controllers to their stub on the second, and all others to \<^verbatim>\<open>ignore_int\<close> on the current stack.
\<close>

theorem every_vector_answered:
  assumes "IDT_Table s = idt_at (setup_IDT ignore_addr base m) base"
    and "s' = init_interrupt interrupt (s\<lparr>IDT_Table := init_sys_vector link (IDT_Table s)\<rparr>)" and "n < 256"
  shows "gate_selector (IDT_Table s' n) = 8 \<and> bit (gate_attr (IDT_Table s' n)) 7 \<and>
    (gate_offset (IDT_Table s' n), gate_ist (IDT_Table s' n)) =
      (if 0x20 \<le> n \<and> n < 0x38 then (interrupt (n - 0x20), 2)
       else case map_of sys_vectors n of Some (attr, entry) \<Rightarrow> (link entry, 1) | None \<Rightarrow> (ignore_addr, 0))"
proof -
  have irq: "IDT_Table s' n = (if 0x20 \<le> n \<and> n < 0x38 then set_gate 0x8E 2 (interrupt (n - 0x20))
      else init_sys_vector link (IDT_Table s) n)"
    by (simp add: assms(2) init_interrupt_table)
  have head: "IDT_Table s n = set_gate 0x8E 0 ignore_addr"
    using assms(1,3) by (simp add: setup_IDT_at)
  have present: "bit (0x8E :: uint64) 7" "bit (0x8F :: uint64) 7" "bit (0xEF :: uint64) 7" by simp_all
  show ?thesis
  proof (cases "0x20 \<le> n \<and> n < 0x38")
    case True
    then show ?thesis using present by (simp add: irq gate_fields)
  next
    case no_irq: False
    show ?thesis
    proof (cases "map_of sys_vectors n")
      case None
      then have "IDT_Table s' n = set_gate 0x8E 0 ignore_addr"
        using no_irq by (simp only: irq init_sys_vector_at head) simp
      then show ?thesis using no_irq None present by (simp add: gate_fields)
    next
      case (Some p)
      obtain attr entry where p: "p = (attr, entry)" by fastforce
      then have v: "(n, attr, entry) \<in> set sys_vectors" using Some by (simp add: map_of_SomeD)
      have "attr = 0x8E \<or> attr = 0x8F \<or> attr = 0xEF" using v by (auto simp: sys_vectors_def)
      moreover have "IDT_Table s' n = set_gate attr 1 (link entry)"
        using no_irq sys_gate(1) [OF v] by (auto simp: irq)
      ultimately show ?thesis
        using no_irq Some p present sys_gate(2) [OF v] by (auto simp: gate_fields)
    qed
  qed
qed

theorem every_vector_answered_witness:
  "\<exists>s. gate_offset (IDT_Table (init_interrupt (\<lambda>_. 0x9000) s) 0x80) = 0x100f0 \<and>
    gate_offset (IDT_Table (init_interrupt (\<lambda>_. 0x9000) s) 14) = 0x100a \<and>
    gate_offset (IDT_Table (init_interrupt (\<lambda>_. 0x9000) s) 0x21) = 0x9000"
proof -
  define s :: cpu where "s = \<lparr>ports = [], if_flag = False, IDT_Table = idt_at (setup_IDT 0x100f0 0x5000 (\<lambda>_. 0)) 0x5000\<rparr>"
  have s: "IDT_Table s = idt_at (setup_IDT 0x100f0 0x5000 (\<lambda>_. 0)) 0x5000" by (simp add: s_def)
  note e = every_vector_answered [OF s refl, of _ "\<lambda>_. 0x9000" "\<lambda>f. 0x1000 + of_nat (length f)"]
  show ?thesis
    using e [of "0x80"] e [of 14] e [of "0x21"]
    by (intro exI [of _ "s\<lparr>IDT_Table := init_sys_vector (\<lambda>f. 0x1000 + of_nat (length f)) (IDT_Table s)\<rparr>"])
      (simp add: sys_vectors_def)
qed
text \<open>
  Property C29: the task register finds the task state segment. In the segment table that \<^verbatim>\<open>setup_TSS64\<close>
  leaves, the selector that \<^verbatim>\<open>load_TR(8)\<close> loads picks the descriptor made for \<^verbatim>\<open>TSS64_Table\<close>: its base is
  the address of the table, its limit 103, its type an available 64-bit segment that is present; every
  word \<^verbatim>\<open>set_tss64\<close> writes lies within the limit, and the first eight segments are as they were.
\<close>

theorem load_TR_finds_TSS64:
  assumes "gdt = setup_TSS64 TSS_addr GDT_Table" and "n = unat (drop_bit 3 (load_TR 8))"
  shows "sys_base (gdt ! n, gdt ! (n + 1)) = TSS_addr \<and> sys_limit (gdt ! n, gdt ! (n + 1)) = 103 \<and>
    sys_attr (gdt ! n, gdt ! (n + 1)) = 0x89 \<and> (\<forall>i < 8. gdt ! i = GDT_Table ! i) \<and>
    (\<forall>w. set_tss64 r0 r1 r2 i1 i2 i3 i4 i5 i6 i7 t w \<noteq> t w \<longrightarrow>
      4 * w + 3 \<le> unat (sys_limit (gdt ! n, gdt ! (n + 1))))"
proof -
  have n: "n = 8" by (simp add: assms(2) load_TR_def)
  have len: "length GDT_Table = 17" by (simp add: GDT_Table_def)
  have d: "(gdt ! n, gdt ! (n + 1)) = tss_descriptor TSS_addr"
    by (simp add: n assms(1) setup_TSS64_def len)
  have "w < 23" if "set_tss64 r0 r1 r2 i1 i2 i3 i4 i5 i6 i7 t w \<noteq> t w" for w
    using that set_tss64_unchanged [of w r0 r1 r2 i1 i2 i3 i4 i5 i6 i7 t] by fastforce
  then show ?thesis
    unfolding d tss_descriptor_fields by (force simp: assms(1) setup_TSS64_def)
qed

theorem load_TR_finds_TSS64_witness:
  "sys_base (setup_TSS64 0xffff800000107000 GDT_Table ! 8, setup_TSS64 0xffff800000107000 GDT_Table ! 9) = 0xffff800000107000"
  using load_TR_finds_TSS64 [OF refl refl, of "0xffff800000107000"] by (simp add: load_TR_def)

lemma ignore_int_arguments:
  "gpr (run (ignore_int msg) s) Rdi = 0x00ff0000" "gpr (run (ignore_int msg) s) Rsi = 0" "gpr (run (ignore_int msg) s) Rdx = msg"
  by (simp_all add: ignore_int_def run_def set_reg_def push64_def)

text \<open>
  Property C36: an unexpected interrupt stops the kernel and does not say what it was. Whatever the machine
  state at the entry of \<^verbatim>\<open>ignore_int\<close>, it prints the same line in red on black, without the address that
  line announces and without the vector, and loops: no register is restored and nothing is acknowledged.
\<close>

theorem unexpected_interrupt_hangs:
  assumes "text_at msg = int_msg" and "cursor_ok c"
  shows "\<exists>t. prints (''Unknown interrupt or fault at RIP'' @ [CHR 0x0A]) c = Inr t \<and> cursor_ok t \<and>
    (\<forall>s. run_ignore_int text_at msg s c = Inr (Loops t))"
proof -
  obtain t where t: "prints int_msg c = Inr t" "cursor_ok t"
    using tty.put_text [OF assms(2), of RED BLACK int_msg] unfolding prints_def by blast
  have "plain int_msg" "length int_msg < 4096" by (simp_all add: int_msg_def NUL_def)
  then have "color_printk RED BLACK m int_msg [] c = Inr (int (length int_msg), t)" for m
    using t(1) by (simp add: color_printk_def vsprintf_plain prints_def)
  moreover have "(ucast (0x00ff0000 :: uint64) :: uint32) = RED" "(ucast (0 :: uint64) :: uint32) = BLACK"
    by (simp_all add: RED_def BLACK_def)
  ultimately show ?thesis
    unfolding int_msg_def [symmetric] using t
    by (intro exI [of _ t]) (simp add: run_ignore_int_def ignore_int_arguments assms(1) Let_def)
qed

theorem unexpected_interrupt_hangs_witness:
  "\<exists>t. run_ignore_int (\<lambda>_. int_msg) 0x100200 interrupted wide_screen = Inr (Loops t) \<and> cursor_ok t"
  using unexpected_interrupt_hangs [of "\<lambda>_. int_msg" "0x100200", OF refl cursor_ok_wide_screen(1)] by blast

end
