(* ===== verification/Mem_Map.thy ===== *)
theory Mem_Map
  imports Head Mem_Boot Mem_Entry
begin

text \<open>
  The page map in use: the tables of \<^verbatim>\<open>src/head.sx\<close>, and the end of \<^verbatim>\<open>init_memory\<close> (\<^verbatim>\<open>src/memory.c\<close>), which
  reads \<^verbatim>\<open>CR3\<close> (\<^verbatim>\<open>get_gdt\<close>), clears the first ten entries of the top table through its kernel address and
  flushes the translation cache (\<^verbatim>\<open>flush_tlb\<close>). How the processor walks the tables and caches what it
  finds is documented behaviour; only translation is modelled, not protection, which no table of the
  kernel uses.
\<close>

section \<open>The walk\<close>

text \<open>A cached translation: the page number, the size as a shift, the frame and the global bit.\<close>

record tlb_entry =
  te_page :: uint64
  te_shift :: nat
  te_frame :: uintptr
  te_global :: bool

text \<open>Addresses whose upper 17 bits differ are not canonical and never translated.\<close>

definition canonical :: "uintptr \<Rightarrow> bool" where
  "canonical va \<longleftrightarrow> drop_bit 47 va = 0 \<or> drop_bit 47 va = 0x1ffff"

definition table_index :: "nat \<Rightarrow> uintptr \<Rightarrow> nat" where
  "table_index sh va = unat (take_bit 9 (drop_bit sh va))"

definition entry_frame :: "uint64 \<Rightarrow> uintptr" where
  "entry_frame e = e AND 0x000ffffffffff000"

definition table_entry :: "mem8 \<Rightarrow> uintptr \<Rightarrow> nat \<Rightarrow> uint64" where
  "table_entry m tbl i = read64 m (tbl + 8 * of_nat i)"

definition leaf :: "nat \<Rightarrow> uintptr \<Rightarrow> uint64 \<Rightarrow> tlb_entry" where
  "leaf sh va e = \<lparr>te_page = drop_bit sh va, te_shift = sh,
     te_frame = push_bit sh (drop_bit sh (entry_frame e)), te_global = (e AND PAGE_Global \<noteq> 0)\<rparr>"

text \<open>The levels that remain are those of the list; the last one, and one with \<^verbatim>\<open>PAGE_PS\<close> set below the
  first, maps a page.\<close>

fun walk_from :: "mem8 \<Rightarrow> nat list \<Rightarrow> uintptr \<Rightarrow> uintptr \<Rightarrow> tlb_entry option" where
  "walk_from m [] tbl va = None"
| "walk_from m (sh # shs) tbl va =
     (let e = table_entry m tbl (table_index sh va) in
      if e AND PAGE_Present = 0 then None
      else if shs = [] \<or> sh \<noteq> PAGE_GDT_SHIFT \<and> e AND PAGE_PS \<noteq> 0 then Some (leaf sh va e)
      else walk_from m shs (entry_frame e) va)"

definition walk :: "mem8 \<Rightarrow> uintptr \<Rightarrow> uintptr \<Rightarrow> tlb_entry option" where
  "walk m cr3 va =
     (if canonical va
      then walk_from m [PAGE_GDT_SHIFT, PAGE_1G_SHIFT, PAGE_2M_SHIFT, PAGE_4K_SHIFT] (entry_frame cr3) va
      else None)"

section \<open>Translation\<close>

record mmu =
  cr3 :: uintptr
  tlb :: "tlb_entry list"
  phys :: mem8

definition hits :: "tlb_entry \<Rightarrow> uintptr \<Rightarrow> bool" where
  "hits e va \<longleftrightarrow> drop_bit (te_shift e) va = te_page e"

definition target :: "uintptr \<Rightarrow> tlb_entry \<Rightarrow> uintptr" where
  "target va e = te_frame e + take_bit (te_shift e) va"

text \<open>A cached entry is used without a look at the tables.\<close>

definition translate :: "mmu \<Rightarrow> uintptr \<Rightarrow> uintptr option" where
  "translate s va = map_option (target va)
     (case find (\<lambda>e. hits e va) (tlb s) of Some e \<Rightarrow> Some e | None \<Rightarrow> walk (phys s) (cr3 s) va)"

text \<open>The processor may cache what it walks at any time.\<close>

definition cache :: "uintptr \<Rightarrow> mmu \<Rightarrow> mmu" where
  "cache va s = (case walk (phys s) (cr3 s) va of None \<Rightarrow> s | Some e \<Rightarrow> s\<lparr>tlb := e # tlb s\<rparr>)"

text \<open>A store of an aligned quadword through the map.\<close>

definition store_quad :: "uintptr \<Rightarrow> uint64 \<Rightarrow> mmu \<Rightarrow> fault + mmu" where
  "store_quad va v s =
     (case translate s va of None \<Rightarrow> Inl PageFault | Some pa \<Rightarrow> Inr (s\<lparr>phys := write64 pa v (phys s)\<rparr>))"

section \<open>The operations of the code\<close>

definition get_gdt :: "mmu \<Rightarrow> uintptr" where
  "get_gdt s = cr3 s"

text \<open>Writing \<^verbatim>\<open>CR3\<close> drops every cached translation that is not global; \<^verbatim>\<open>invlpg\<close> those of one page.\<close>

definition set_cr3 :: "uintptr \<Rightarrow> mmu \<Rightarrow> mmu" where
  "set_cr3 v s = s\<lparr>cr3 := v, tlb := filter te_global (tlb s)\<rparr>"

definition flush_tlb :: "mmu \<Rightarrow> mmu" where
  "flush_tlb s = (let tmpreg = cr3 s in set_cr3 tmpreg s)"

definition flush_tlb_one :: "uintptr \<Rightarrow> mmu \<Rightarrow> mmu" where
  "flush_tlb_one addr s = s\<lparr>tlb := filter (\<lambda>e. \<not> hits e addr) (tlb s)\<rparr>"

text \<open>The end of \<^verbatim>\<open>init_memory\<close>, on the tables in memory; \<open>clear_pml4\<close> is the same on the record of
  the memory manager.\<close>

definition clear_entries :: "uintptr \<Rightarrow> nat \<Rightarrow> mmu \<Rightarrow> fault + mmu" where
  "clear_entries gdt n = foldR (\<lambda>i. store_quad (Phy_To_Virt gdt + 8 * of_nat i) 0) [0 ..< n]"

definition drop_low_map :: "mmu \<Rightarrow> fault + mmu" where
  "drop_low_map s = (let gdt = get_gdt s in bindR (clear_entries gdt 10 s) (\<lambda>s. Inr (flush_tlb s)))"

section \<open>The tables of the kernel\<close>

definition table_at :: "mem8 \<Rightarrow> uintptr \<Rightarrow> uint64 list \<Rightarrow> bool" where
  "table_at m a t \<longleftrightarrow> (\<forall>i < length t. table_entry m a i = t ! i)"

text \<open>\<^verbatim>\<open>head.sx\<close> is linked at 1 MB and loaded there, so that its tables are where \<^verbatim>\<open>CR3\<close> and the entries
  say. \<open>P\<close> is the top table, which \<^verbatim>\<open>init_memory\<close> changes.\<close>

definition kernel_tables :: "uint64 list \<Rightarrow> mem8 \<Rightarrow> bool" where
  "kernel_tables P m \<longleftrightarrow> table_at m 0x101000 P \<and> table_at m 0x102000 PDPTE \<and> table_at m 0x103000 PDE"

definition PML4E_kernel :: "uint64 list" where
  "PML4E_kernel = replicate 10 0 @ drop 10 PML4E"

text \<open>The frame behind the entry for the \<open>k\<close>-th 2 MB: memory for five, then the frame buffer for eight.\<close>

definition head_frame :: "nat \<Rightarrow> uintptr" where
  "head_frame k = (if k < 5 then of_nat k * 0x200000 else 0xe0000000 + of_nat (k - 5) * 0x200000)"

lemma table_index_num: "table_index sh va = unat va div 2 ^ sh mod 512"
  by (simp add: table_index_def unsigned_take_bit_eq take_bit_eq_mod word_simps unat_mod)

lemma table_index_less: "table_index sh va < 512"
  by (simp add: table_index_num)

section \<open>Walks of the kernel's tables\<close>

lemma less_13: "i < 13 \<Longrightarrow> i \<in> {0, 1, 2, 3, 4, 5, 6, 7, 8, 9, 10, 11, 12 :: nat}"
  unfolding insert_iff empty_iff by presburger

lemma PDE_mapped:
  assumes "i < 13"
  shows "PDE ! i AND PAGE_Present \<noteq> 0" and "PDE ! i AND PAGE_PS \<noteq> 0" and "PDE ! i AND PAGE_Global = 0"
    and "push_bit 21 (drop_bit 21 (entry_frame (PDE ! i))) = head_frame i"
  using less_13 [OF assms]
  by (auto simp: PDE_def page_attr_defs entry_frame_def head_frame_def)

lemma PDE_rest: "13 \<le> i \<Longrightarrow> i < 512 \<Longrightarrow> PDE ! i = 0"
  by (simp add: PDE_def nth_append nth_Cons' )

lemma PDPTE_nth: "i < 512 \<Longrightarrow> PDPTE ! i = (if i = 0 then 0x103003 else 0)"
  by (auto simp: PDPTE_def nth_Cons')

lemma PML4E_nth: "i < 512 \<Longrightarrow> PML4E ! i = (if i = 0 \<or> i = 256 then 0x102007 else 0)"
  by (auto simp: PML4E_def nth_Cons' nth_append)

lemma PML4E_kernel_nth: "i < 512 \<Longrightarrow> PML4E_kernel ! i = (if i = 256 then 0x102007 else 0)"
  using PML4E_nth [of i] by (auto simp: PML4E_kernel_def nth_append PML4E_def)

lemma table_lengths: "length PML4E = 512" "length PML4E_kernel = 512" "length PDPTE = 512" "length PDE = 512"
  by (simp_all add: PML4E_def PML4E_kernel_def PDPTE_def PDE_def)

lemma walk_kernel_tables:
  assumes tables: "kernel_tables P m" and len: "length P = 512" and top: "\<And>i. i < 512 \<Longrightarrow> P ! i = 0 \<or> P ! i = 0x102007"
  shows "walk m 0x101000 va =
    (if canonical va \<and> P ! table_index 39 va \<noteq> 0 \<and> table_index 30 va = 0 \<and> table_index 21 va < 13
     then Some \<lparr>te_page = drop_bit 21 va, te_shift = 21, te_frame = head_frame (table_index 21 va), te_global = False\<rparr>
     else None)"
proof -
  note i = table_index_less [of _ va]
  have e: "table_entry m 0x101000 (table_index 39 va) = P ! table_index 39 va"
    "table_entry m 0x102000 (table_index 30 va) = (if table_index 30 va = 0 then 0x103003 else 0)"
    "table_entry m 0x103000 (table_index 21 va) = PDE ! table_index 21 va"
    using tables i by (simp_all add: kernel_tables_def table_at_def len table_lengths flip: PDPTE_nth)
  have f: "entry_frame 0x101000 = 0x101000" "entry_frame 0x102007 = 0x102000" "entry_frame 0x103003 = 0x103000"
    by (simp_all add: entry_frame_def)
  have P: "(0x102007 :: uint64) AND PAGE_Present \<noteq> 0" "(0x103003 :: uint64) AND PAGE_Present \<noteq> 0"
    "(0x103003 :: uint64) AND PAGE_PS = 0"
    by (simp_all add: page_attr_defs)
  note shifts = PAGE_GDT_SHIFT_def PAGE_1G_SHIFT_def PAGE_2M_SHIFT_def PAGE_4K_SHIFT_def
  show ?thesis
  proof (cases "canonical va \<and> P ! table_index 39 va \<noteq> 0 \<and> table_index 30 va = 0")
    case True
    then have top: "P ! table_index 39 va = 0x102007" using top i by blast
    have "table_entry m 0x102000 0 = 0x103003" using e(2) True by simp
    then show ?thesis
      using True PDE_mapped [of "table_index 21 va"] PDE_rest [of "table_index 21 va"] i [of 21] P
      by (cases "table_index 21 va < 13") (simp_all add: walk_def f e top shifts leaf_def)
  next
    case False
    then show ?thesis
      using top [OF i [of 39]] P
      by (cases "P ! table_index 39 va = 0") (auto simp: walk_def f e shifts Let_def)
  qed
qed

section \<open>Kernel addresses\<close>

text \<open>What the tables make of the kernel address \<^verbatim>\<open>Phy_To_Virt(a)\<close>.\<close>

definition direct :: "uintptr \<Rightarrow> uintptr option" where
  "direct a = (if a < 0xa00000 then Some a else if a < 0x1a00000 then Some (a - 0xa00000 + 0xe0000000) else None)"

definition valid_top :: "uint64 list \<Rightarrow> bool" where
  "valid_top P \<longleftrightarrow> length P = 512 \<and> (\<forall>i < 512. P ! i = 0 \<or> P ! i = 0x102007 \<and> (i = 0 \<or> i = 256))"

lemma valid_topD: "valid_top P \<Longrightarrow> i < 512 \<Longrightarrow> P ! i \<noteq> 0 \<Longrightarrow> P ! i = 0x102007 \<and> (i = 0 \<or> i = 256)"
  by (auto simp: valid_top_def)

lemma unat_high:
  assumes "unat a < 2 ^ 47"
  shows "unat (Phy_To_Virt a) = unat a + 0xffff800000000000"
  using assms unat_add_small [of a PAGE_OFFSET] by (simp add: Phy_To_Virt_def unat_PAGE_OFFSET)

lemma index_below: "0 < d \<Longrightarrow> (x + (k * 512) * d) div d mod 512 = x div d mod (512 :: nat)"
  by (simp only: div_mult_self1 mod_mult_self3)

lemma high_half_index:
  assumes "x < 2 ^ 47"
  shows "(x + 0xffff800000000000) div 2 ^ 39 mod 512 = 256 + x div (2 ^ 39 :: nat)"
proof -
  have "(x + 0xffff800000000000) div 2 ^ 39 = (x + 33554176 * 2 ^ 39) div 2 ^ 39" by simp
  also have "\<dots> = (256 + x div 2 ^ 39) + 65535 * 512" using div_mult_self1 [of "2 ^ 39" x 33554176] by simp
  finally have "(x + 0xffff800000000000) div 2 ^ 39 mod 512 = (256 + x div 2 ^ 39) mod 512"
    by (simp only: mod_mult_self1)
  moreover have "x div 2 ^ 39 < 256" using assms by (simp add: less_mult_imp_div_less)
  ultimately show ?thesis by simp
qed

lemma high_indices:
  assumes "unat a < 2 ^ 47"
  shows "canonical (Phy_To_Virt a)" and "table_index 39 (Phy_To_Virt a) = 256 + unat a div 2 ^ 39"
    and "table_index 30 (Phy_To_Virt a) = unat a div 2 ^ 30 mod 512" and "table_index 21 (Phy_To_Virt a) = unat a div 2 ^ 21 mod 512"
    and "unat (take_bit 21 (Phy_To_Virt a)) = unat a mod 2 ^ 21"
proof -
  note u = unat_high [OF assms]
  have "unat (drop_bit 47 (Phy_To_Virt a)) = 0x1ffff" using assms by (simp add: word_simps u div_add1_eq)
  then show "canonical (Phy_To_Virt a)" by (simp add: canonical_def word_unat_eq_iff)
  show "table_index 39 (Phy_To_Virt a) = 256 + unat a div 2 ^ 39"
    unfolding table_index_num u by (rule high_half_index [OF assms])
  show "table_index 30 (Phy_To_Virt a) = unat a div 2 ^ 30 mod 512"
    using index_below [of "2 ^ 30" "unat a" 33554176] by (simp add: table_index_num u)
  show "table_index 21 (Phy_To_Virt a) = unat a div 2 ^ 21 mod 512"
    using index_below [of "2 ^ 21" "unat a" 17179738112] by (simp add: table_index_num u)
  show "unat (take_bit 21 (Phy_To_Virt a)) = unat a mod 2 ^ 21"
    using mod_mult_self1 [of "unat a" 8796025913344 "2 ^ 21"] by (simp add: unsigned_take_bit_eq take_bit_eq_mod unat_mod u)
qed

lemma valid_tops: "valid_top PML4E" "valid_top PML4E_kernel"
  by (simp_all add: valid_top_def table_lengths PML4E_nth PML4E_kernel_nth)

lemma walk_valid:
  assumes "kernel_tables P m" and "valid_top P"
  shows "walk m 0x101000 va =
    (if canonical va \<and> P ! table_index 39 va \<noteq> 0 \<and> table_index 30 va = 0 \<and> table_index 21 va < 13
     then Some \<lparr>te_page = drop_bit 21 va, te_shift = 21, te_frame = head_frame (table_index 21 va), te_global = False\<rparr>
     else None)"
  by (rule walk_kernel_tables [OF assms(1)]) (use assms(2) in \<open>auto simp: valid_top_def\<close>)

lemma direct_frame:
  assumes "unat a < 0x1a00000"
  shows "direct a = Some (head_frame (unat a div 2097152) + of_nat (unat a mod 2097152))"
proof -
  let ?k = "unat a div 2097152" and ?r = "unat a mod 2097152"
  have split: "unat a = ?k * 2097152 + ?r" by simp
  have r: "?r < 2097152" by simp
  show ?thesis
  proof (cases "?k < 5")
    case True
    then have "unat a < 0xa00000" using split r by linarith
    moreover have "a = of_nat (?k * 2097152 + ?r)" by (simp only: div_mult_mod_eq) simp
    then have "a = of_nat ?k * 0x200000 + of_nat ?r" by (simp only: of_nat_add of_nat_mult) simp
    ultimately show ?thesis using True by (simp add: direct_def head_frame_def word_less_nat_alt)
  next
    case False
    then have ge: "0xa00000 \<le> unat a" using split by linarith
    have "?k * 2097152 + ?r - 0xa00000 = (?k - 5) * 2097152 + ?r" using False by (simp add: diff_mult_distrib)
    then have "unat a - 0xa00000 = (?k - 5) * 2097152 + ?r" using split by simp
    moreover have "a - 0xa00000 = of_nat (unat a - 0xa00000)"
      using ge unat_sub [of "0xa00000" a] by (simp add: word_le_nat_alt word_unat_eq_iff unat_of_nat_small)
    ultimately have "a - 0xa00000 = of_nat (?k - 5) * 0x200000 + of_nat ?r" by simp
    then show ?thesis using False ge assms by (simp add: direct_def head_frame_def word_less_nat_alt)
  qed
qed

lemma small_indices:
  assumes "x div 2 ^ 39 = 0" and "x div 2 ^ 30 mod 512 = 0" and "x div 2 ^ 21 mod 512 < 13"
  shows "x < (27262976 :: nat)"
proof -
  define q where "q = x div 2097152"
  have q: "x div 2 ^ 30 = q div 512" "x div 2 ^ 39 = q div 512 div 512" "x div 2 ^ 21 = q"
    by (simp_all add: q_def div_mult2_eq [symmetric])
  have "q div 512 = 0"
    using assms(1,2) mod_less [of "q div 512" 512] unfolding q by (simp add: div_eq_0_iff)
  then have "q < 13" using assms(3) unfolding q by (simp add: div_eq_0_iff)
  then show ?thesis unfolding q_def by (simp add: div_less_iff_less_mult)
qed

lemma walk_direct:
  assumes tables: "kernel_tables P m" "valid_top P" and va: "canonical va" "P ! table_index 39 va \<noteq> 0 \<longleftrightarrow> x div 2 ^ 39 = 0"
    "table_index 30 va = x div 2 ^ 30 mod 512" "table_index 21 va = x div 2 ^ 21 mod 512" "unat (take_bit 21 va) = x mod 2 ^ 21"
    and x: "x = unat a"
  shows "map_option (target va) (walk m 0x101000 va) = direct a"
proof (cases "x < 0x1a00000")
  case True
  then have "x div 2 ^ 39 = 0" "x div 2 ^ 30 = 0" "x div 2097152 < 13"
    by (simp_all add: less_mult_imp_div_less)
  moreover have "take_bit 21 va = of_nat (x mod 2 ^ 21)"
    using va(5) by (simp add: word_unat_eq_iff unat_of_nat_small)
  ultimately show ?thesis
    using va x True by (simp add: walk_valid [OF tables] direct_frame target_def)
next
  case False
  have "\<not> (P ! table_index 39 va \<noteq> 0 \<and> table_index 30 va = 0 \<and> table_index 21 va < 13)"
  proof
    assume "P ! table_index 39 va \<noteq> 0 \<and> table_index 30 va = 0 \<and> table_index 21 va < 13"
    then have "x < 27262976" using va by (intro small_indices) simp_all
    with False show False by simp
  qed
  moreover have "direct a = None" using False x by (simp add: direct_def word_less_nat_alt)
  ultimately show ?thesis by (auto simp: walk_valid [OF tables])
qed

lemma walk_high:
  assumes "kernel_tables P m" and "valid_top P" and "P ! 256 \<noteq> 0" and "unat a < 2 ^ 47"
  shows "map_option (target (Phy_To_Virt a)) (walk m 0x101000 (Phy_To_Virt a)) = direct a"
proof -
  note i = high_indices [OF assms(4)]
  have "P ! table_index 39 (Phy_To_Virt a) \<noteq> 0 \<longleftrightarrow> unat a div 2 ^ 39 = 0"
    using valid_topD [OF assms(2) table_index_less [of 39 "Phy_To_Virt a"]] assms(3) i(2) by auto
  from walk_direct [OF assms(1,2) i(1) this i(3,4,5) refl] show ?thesis .
qed

lemma walk_low:
  assumes "kernel_tables P m" and "valid_top P" and "unat a < 2 ^ 47"
  shows "map_option (target a) (walk m 0x101000 a) = (if P ! 0 = 0 then None else direct a)"
proof -
  have a: "canonical a" using assms(3) by (simp add: canonical_def word_unat_eq_iff word_simps)
  have less: "unat a div 2 ^ 39 < 256" using assms(3) by (simp add: less_mult_imp_div_less)
  then have top: "table_index 39 a = unat a div 2 ^ 39" by (simp add: table_index_num)
  have zero: "P ! table_index 39 a \<noteq> 0 \<longleftrightarrow> unat a div 2 ^ 39 = 0 \<and> P ! 0 \<noteq> 0"
    using valid_topD [OF assms(2) table_index_less [of 39 a]] less unfolding top by auto
  show ?thesis
  proof (cases "P ! 0 = 0")
    case True
    then show ?thesis using zero by (simp add: walk_valid [OF assms(1,2)])
  next
    case False
    then have "P ! table_index 39 a \<noteq> 0 \<longleftrightarrow> unat a div 2 ^ 39 = 0" using zero by simp
    from walk_direct [OF assms(1,2) a this _ _ _ refl] False show ?thesis
      by (simp add: table_index_num unsigned_take_bit_eq take_bit_eq_mod unat_mod)
  qed
qed

section \<open>Cached translations\<close>

text \<open>The cache holds what walks of the tables in \<open>m\<close> have found.\<close>

definition cached_from :: "mem8 \<Rightarrow> mmu \<Rightarrow> bool" where
  "cached_from m s \<longleftrightarrow> (\<forall>e \<in> set (tlb s). \<exists>va. walk m (cr3 s) va = Some e)"

lemma cached_from_cache: "cached_from (phys s) s \<Longrightarrow> cached_from (phys s) (cache va s)"
  by (auto simp: cached_from_def cache_def split: option.splits)

lemma table_index_cong:
  assumes "drop_bit 21 va = drop_bit 21 (vb :: uintptr)" and "21 \<le> sh"
  shows "drop_bit sh va = drop_bit sh vb"
proof -
  have "drop_bit sh w = drop_bit (sh - 21) (drop_bit 21 (w :: uintptr))" for w
    using assms(2) by simp
  then show ?thesis using assms(1) by metis
qed

lemma walk_same_page:
  assumes "kernel_tables P m" and "valid_top P" and "drop_bit 21 va = drop_bit 21 (vb :: uintptr)"
  shows "walk m 0x101000 va = walk m 0x101000 vb"
  using table_index_cong [OF assms(3), of 39] table_index_cong [OF assms(3), of 30] table_index_cong [OF assms(3), of 47]
    assms(3) by (simp add: walk_valid [OF assms(1,2)] table_index_def canonical_def)

lemma translate_cached:
  assumes old: "kernel_tables P m" "valid_top P" and new: "kernel_tables Q (phys s)" "valid_top Q"
    and s: "cr3 s = 0x101000" "cached_from m s" and same: "P ! table_index 39 va = Q ! table_index 39 va"
  shows "translate s va = map_option (target va) (walk m 0x101000 va)"
proof (cases "find (\<lambda>e. hits e va) (tlb s)")
  case None
  then show ?thesis
    using same by (simp add: translate_def s(1) walk_valid [OF old] walk_valid [OF new])
next
  case (Some e)
  then have "e \<in> set (tlb s)" "hits e va" by (auto simp: find_Some_iff)
  then obtain vb where vb: "walk m 0x101000 vb = Some e" using s by (auto simp: cached_from_def)
  then have "te_shift e = 21" "te_page e = drop_bit 21 vb"
    by (auto simp: walk_valid [OF old] split: if_splits)
  then have "walk m 0x101000 va = Some e"
    using walk_same_page [OF old, of va vb] \<open>hits e va\<close> vb by (simp add: hits_def)
  then show ?thesis by (simp add: translate_def Some)
qed

section \<open>Clearing the first entries\<close>

lemma unat_quad: "n < 2 ^ 60 \<Longrightarrow> unat (8 * of_nat n :: uint64) = 8 * n"
  using unat_of_nat_small [of "8 * n"] by simp

lemma quads_apart:
  assumes "u < 2 ^ 60" and "v < 2 ^ 60" and "u \<noteq> v"
  shows "read64 (write64 (8 * of_nat u) x m) (8 * of_nat v) = read64 m (8 * of_nat v)"
proof -
  have up: "8 \<le> unat (8 * of_nat w - 8 * of_nat u :: uint64) \<and> 8 \<le> unat (8 * of_nat u - 8 * of_nat w :: uint64)"
    if "u < w" "w < 2 ^ 60" for u w :: nat
  proof -
    have "8 * of_nat w - 8 * of_nat u = (8 * of_nat (w - u) :: uint64)" using that by (simp add: of_nat_diff algebra_simps)
    then have d: "unat (8 * of_nat w - 8 * of_nat u :: uint64) = 8 * (w - u)" using that unat_quad [of "w - u"] by simp
    moreover from this have "unat (8 * of_nat u - 8 * of_nat w :: uint64) = 18446744073709551616 - 8 * (w - u)"
      using unat_other_way [of "8 * of_nat w" "8 * of_nat u"] that by simp
    ultimately show ?thesis using that by auto
  qed
  then show ?thesis using assms by (cases u v rule: linorder_cases) (auto intro!: q8.rd_other)
qed

lemma table_quad: "table_entry m (8 * of_nat b) i = read64 m (8 * of_nat (b + i))"
  by (simp add: table_entry_def algebra_simps)

lemma kernel_tables_update:
  assumes "kernel_tables P m" and "length P = 512" and "k < 512"
  shows "kernel_tables (P[k := v]) (write64 (0x101000 + 8 * of_nat k) v m)"
proof -
  have bases: "(0x101000 :: uint64) = 8 * of_nat 0x20200" "(0x102000 :: uint64) = 8 * of_nat 0x20400"
    "(0x103000 :: uint64) = 8 * of_nat 0x20600" by simp_all
  define w where "w = write64 (0x101000 + 8 * of_nat k) v m"
  have "w = write64 (8 * of_nat (0x20200 + k)) v m" by (simp add: w_def)
  then have "read64 w (8 * of_nat (b + i)) = (if b + i = 0x20200 + k then v else read64 m (8 * of_nat (b + i)))"
    if "b \<le> 0x20600" "i < 512" for b i
    using that assms(3) quads_apart [of "0x20200 + k" "b + i" v m] by (auto simp: q8.rd_same simp del: of_nat_add)
  then have "kernel_tables (P[k := v]) w"
    using assms unfolding kernel_tables_def table_at_def bases table_quad
    by (simp add: table_lengths nth_list_update del: of_nat_numeral of_nat_add)
  then show ?thesis by (simp add: w_def)
qed

text \<open>The top table when \<open>k\<close> entries are cleared.\<close>

fun cleared :: "nat \<Rightarrow> uint64 list" where
  "cleared 0 = PML4E"
| "cleared (Suc k) = (cleared k)[k := 0]"

lemma cleared_nth: "length (cleared k) = 512" "k \<le> 512 \<Longrightarrow> i < 512 \<Longrightarrow> cleared k ! i = (if i < k then 0 else PML4E ! i)"
proof -
  show len: "length (cleared k) = 512" for k by (induction k) (simp_all add: table_lengths)
  show "k \<le> 512 \<Longrightarrow> i < 512 \<Longrightarrow> cleared k ! i = (if i < k then 0 else PML4E ! i)"
    by (induction k) (auto simp: nth_list_update len less_Suc_eq)
qed

lemma valid_top_cleared: "k \<le> 512 \<Longrightarrow> valid_top (cleared k)"
  by (simp add: valid_top_def cleared_nth PML4E_nth)

lemma cleared_10: "cleared 10 = PML4E_kernel"
  by (rule nth_equalityI) (simp_all add: cleared_nth table_lengths PML4E_nth PML4E_kernel_nth)

lemma clear_entries_run:
  assumes "kernel_tables PML4E (phys s)" and "cr3 s = 0x101000" and "cached_from (phys s) s" and "k \<le> 10"
  shows "\<exists>m. clear_entries 0x101000 k s = Inr (s\<lparr>phys := m\<rparr>) \<and> kernel_tables (cleared k) m \<and>
    (\<forall>x. x \<notin> block 0x101000 80 \<longrightarrow> m x = phys s x)"
  using assms(4)
proof (induction k)
  case 0
  show ?case using assms(1) by (intro exI [of _ "phys s"]) (simp add: clear_entries_def)
next
  case (Suc k)
  then obtain m where m: "clear_entries 0x101000 k s = Inr (s\<lparr>phys := m\<rparr>)" "kernel_tables (cleared k) m"
    "\<forall>x. x \<notin> block 0x101000 80 \<longrightarrow> m x = phys s x" by auto
  let ?a = "0x101000 + 8 * of_nat k :: uint64"
  have a: "unat ?a = 0x101000 + 8 * k"
    using Suc.prems unat_add_nat [of "0x101000" "8 * k"] by simp
  then have a47: "unat ?a < 2 ^ 47" using Suc.prems by simp
  have va: "Phy_To_Virt 0x101000 + 8 * of_nat k = Phy_To_Virt ?a" by (simp add: Phy_To_Virt_def)
  have i: "table_index 39 (Phy_To_Virt ?a) = 256" using high_indices(2) [OF a47] a Suc.prems by simp
  have "translate (s\<lparr>phys := m\<rparr>) (Phy_To_Virt ?a) = map_option (target (Phy_To_Virt ?a)) (walk (phys s) 0x101000 (Phy_To_Virt ?a))"
    by (rule translate_cached [OF assms(1) valid_tops(1) _ valid_top_cleared [of k]])
      (use m assms(2,3) Suc.prems i in \<open>simp_all add: cached_from_def cleared_nth PML4E_nth\<close>)
  also have "\<dots> = direct ?a"
    by (rule walk_high [OF assms(1) valid_tops(1) _ a47]) (simp add: PML4E_nth)
  also have "\<dots> = Some ?a" using a Suc.prems by (simp add: direct_def word_less_nat_alt)
  finally have "store_quad (Phy_To_Virt 0x101000 + 8 * of_nat k) 0 (s\<lparr>phys := m\<rparr>) = Inr (s\<lparr>phys := write64 ?a 0 m\<rparr>)"
    unfolding va by (simp add: store_quad_def)
  moreover have "kernel_tables (cleared (Suc k)) (write64 ?a 0 m)"
    using kernel_tables_update [OF m(2) cleared_nth(1), of k 0] Suc.prems by simp
  moreover have "write64 ?a 0 m x = m x" if "x \<notin> block 0x101000 80" for x
    using that block_inner [of "8 * of_nat k" 8 80 "0x101000"] unat_quad [of k] Suc.prems
    by (intro write64_outside) auto
  ultimately show ?case
    using m by (auto simp: clear_entries_def foldR_append)
qed
lemma clear_entries_cleared:
  assumes "kernel_tables PML4E (phys s)" and "cr3 s = 0x101000" and "cached_from (phys s) s"
  shows "\<exists>m. clear_entries (get_gdt s) 10 s = Inr (s\<lparr>phys := m\<rparr>) \<and> kernel_tables PML4E_kernel m \<and>
    drop_low_map s = Inr (s\<lparr>tlb := [], phys := m\<rparr>) \<and> (\<forall>x. x \<notin> block 0x101000 80 \<longrightarrow> m x = phys s x)"
proof -
  obtain m where m: "clear_entries 0x101000 10 s = Inr (s\<lparr>phys := m\<rparr>)" "kernel_tables PML4E_kernel m"
    "\<forall>x. x \<notin> block 0x101000 80 \<longrightarrow> m x = phys s x"
    using clear_entries_run [OF assms, of 10] unfolding cleared_10 by auto
  have "\<not> te_global e" if "e \<in> set (tlb s)" for e
    using assms(2,3) that by (auto simp: cached_from_def walk_valid [OF assms(1) valid_tops(1)] split: if_splits)
  then have "filter te_global (tlb s) = []" by (simp add: filter_empty_conv)
  then have "drop_low_map s = Inr (s\<lparr>tlb := [], phys := m\<rparr>)"
    using m(1) assms(2) by (simp add: drop_low_map_def get_gdt_def flush_tlb_def set_cr3_def Let_def)
  with m assms(2) show ?thesis by (auto simp: get_gdt_def)
qed

lemma translate_tables:
  assumes "kernel_tables P (phys s)" and "valid_top P" and "P ! 256 \<noteq> 0" and "cr3 s = 0x101000" and "cached_from (phys s) s"
    and "unat a < 2 ^ 47"
  shows "translate s a = (if P ! 0 = 0 then None else direct a)" and "translate s (Phy_To_Virt a) = direct a"
  using translate_cached [OF assms(1,2,1,2,4,5) refl] walk_low [OF assms(1,2,6)] walk_high [OF assms(1-3,6)] by simp_all

section \<open>Properties\<close>

text \<open>
  Property C7: \<^verbatim>\<open>init_memory\<close> takes the low half of the address space away and nothing else. With the tables
  of \<^verbatim>\<open>head.sx\<close> and a cache that holds only what walks of them found, the ten stores at its end meet no
  page fault. Before them the low address \<open>a\<close> and the kernel address of \<open>a\<close> both lead to \<open>direct a\<close>: to \<open>a\<close>
  itself in the first 10 MB, to the frame buffer in the 16 MB behind them, nowhere above. After the
  stores but before the flush, every low address that was cached still leads there; after the flush
  no low address leads anywhere, while every kernel address leads where it did.
\<close>

theorem low_map_dropped:
  assumes "kernel_tables PML4E (phys s)" and "cr3 s = 0x101000" and "cached_from (phys s) s"
  shows "\<exists>u. clear_entries (get_gdt s) 10 s = Inr u \<and> drop_low_map s = Inr (flush_tlb u) \<and>
    (\<forall>a. unat a < 2 ^ 47 \<longrightarrow> translate s a = direct a \<and> translate s (Phy_To_Virt a) = direct a \<and>
       ((\<exists>e \<in> set (tlb s). hits e a) \<longrightarrow> translate u a = direct a) \<and>
       translate (flush_tlb u) a = None \<and> translate (flush_tlb u) (Phy_To_Virt a) = direct a)"
proof -
  obtain m where m: "clear_entries (get_gdt s) 10 s = Inr (s\<lparr>phys := m\<rparr>)" "kernel_tables PML4E_kernel m"
    "drop_low_map s = Inr (s\<lparr>tlb := [], phys := m\<rparr>)"
    using clear_entries_cleared [OF assms] by blast
  have flush: "flush_tlb (s\<lparr>phys := m\<rparr>) = s\<lparr>tlb := [], phys := m\<rparr>"
    using m(1,3) by (simp add: drop_low_map_def)
  show ?thesis
  proof (intro exI [of _ "s\<lparr>phys := m\<rparr>"] conjI allI impI)
    fix a :: uintptr
    assume a: "unat a < 2 ^ 47"
    show before: "translate s a = direct a" and "translate s (Phy_To_Virt a) = direct a"
      using translate_tables [OF assms(1) valid_tops(1) _ assms(2,3) a] by (simp_all add: PML4E_nth)
    show "translate (flush_tlb (s\<lparr>phys := m\<rparr>)) a = None" and "translate (flush_tlb (s\<lparr>phys := m\<rparr>)) (Phy_To_Virt a) = direct a"
      unfolding flush using translate_tables [OF _ valid_tops(2) _ _ _ a, of "s\<lparr>tlb := [], phys := m\<rparr>"] m(2) assms(2)
      by (simp_all add: PML4E_kernel_nth cached_from_def)
    assume "\<exists>e \<in> set (tlb s). hits e a"
    then have "find (\<lambda>e. hits e a) (tlb s) \<noteq> None" by (auto simp: find_None_iff)
    with before show "translate (s\<lparr>phys := m\<rparr>) a = direct a" by (auto simp: translate_def)
  qed (use m flush in simp_all)
qed

text \<open>Memory that holds nothing but the tables, read as bytes.\<close>

definition head_quad :: "nat \<Rightarrow> uint64" where
  "head_quad n = (if n < 0x20200 then 0 else if n < 0x20400 then PML4E ! (n - 0x20200)
     else if n < 0x20600 then PDPTE ! (n - 0x20400) else if n < 0x20800 then PDE ! (n - 0x20600) else 0)"

definition head_image :: mem8 where
  "head_image a = ucast (drop_bit (8 * (unat a mod 8)) (head_quad (unat a div 8)))"

lemma read_head_image:
  assumes "n < 2 ^ 60"
  shows "read64 head_image (8 * of_nat n) = head_quad n"
proof -
  have "head_image (8 * of_nat n + of_nat i) = ucast (drop_bit (8 * i) (head_quad n))" if "i < 8" for i
    using assms that unat_add_nat [of "8 * of_nat n" i] unat_quad [of n]
    by (simp add: head_image_def)
  then have "load head_image (8 * of_nat n) 8 = bytes_of (head_quad n)"
    by (simp add: load_def bytes_of_def)
  then show ?thesis by (simp add: read64_def word_of_bytes_of)
qed

lemma head_image_tables: "kernel_tables PML4E head_image"
proof -
  have bases: "(0x101000 :: uint64) = 8 * of_nat 0x20200" "(0x102000 :: uint64) = 8 * of_nat 0x20400"
    "(0x103000 :: uint64) = 8 * of_nat 0x20600" by simp_all
  show ?thesis
    unfolding kernel_tables_def table_at_def bases table_quad
    by (simp add: table_lengths read_head_image head_quad_def del: of_nat_numeral of_nat_add)
qed

definition booted_mmu :: mmu where
  "booted_mmu = cache 0x7e00 \<lparr>cr3 = 0x101000, tlb = [], phys = head_image\<rparr>"

lemma booted_mmu_state: "phys booted_mmu = head_image" "cr3 booted_mmu = 0x101000" "cached_from (phys booted_mmu) booted_mmu"
proof -
  show p: "phys booted_mmu = head_image" and "cr3 booted_mmu = 0x101000"
    by (simp_all add: booted_mmu_def cache_def split: option.split)
  show "cached_from (phys booted_mmu) booted_mmu"
    using cached_from_cache [of "\<lparr>cr3 = 0x101000, tlb = [], phys = head_image\<rparr>" "0x7e00"]
    unfolding p by (simp add: booted_mmu_def cached_from_def)
qed

theorem low_map_dropped_witness:
  "\<exists>u. drop_low_map booted_mmu = Inr (flush_tlb u) \<and> translate booted_mmu 0x7e00 = Some 0x7e00 \<and>
    translate (flush_tlb u) 0x7e00 = None \<and> translate (flush_tlb u) 0xffff800000007e00 = Some 0x7e00 \<and>
    translate (flush_tlb u) 0xffff800000a00000 = Some 0xe0000000 \<and> translate (flush_tlb u) 0xffff800002000000 = None"
proof -
  obtain u where "drop_low_map booted_mmu = Inr (flush_tlb u)" and u: "\<And>a. unat a < 2 ^ 47 \<Longrightarrow> translate booted_mmu a = direct a \<and>
      translate (flush_tlb u) a = None \<and> translate (flush_tlb u) (Phy_To_Virt a) = direct a"
    using low_map_dropped [of booted_mmu] booted_mmu_state head_image_tables by auto
  then show ?thesis
    using u [of "0x7e00"] u [of "0xa00000"] u [of "0x2000000"]
    by (auto simp: direct_def Phy_To_Virt_def PAGE_OFFSET_def)
qed

text \<open>
  Property C15: the tables in memory end as the model of the memory manager says. Where the 512 entries of
  the table \<^verbatim>\<open>CR3\<close> points to are those \<open>pml4\<close> records, and \<open>init_memory\<close> is given the value of \<^verbatim>\<open>get_gdt\<close>, the
  stores and the flush run without a page fault and leave in memory the entries \<open>pml4\<close> records after
  \<open>init_memory\<close>, at the address \<open>g_cr3\<close> records, and not another byte changed.
\<close>

theorem drop_low_map_refines_init_memory:
  assumes "kernel_tables PML4E (phys s)" and "cr3 s = 0x101000" and "cached_from (phys s) s"
    and "fresh k" and "good_table tbl" and "kernel_fits tbl k"
    and "\<forall>i < 512. table_entry (phys s) (cr3 s) i = pml4 k i"
  shows "\<exists>t k'. drop_low_map s = Inr t \<and> init_memory tbl (get_gdt s) k = Inr k' \<and> g_cr3 k' = cr3 t \<and>
    (\<forall>i < 512. table_entry (phys t) (cr3 t) i = pml4 k' i) \<and> (\<forall>x. x \<notin> block (cr3 s) 80 \<longrightarrow> phys t x = phys s x)"
proof -
  obtain m where m: "kernel_tables PML4E_kernel m" "drop_low_map s = Inr (s\<lparr>tlb := [], phys := m\<rparr>)"
    "\<forall>x. x \<notin> block 0x101000 80 \<longrightarrow> m x = phys s x"
    using clear_entries_cleared [OF assms(1-3)] by blast
  obtain k1 where k1: "init_memory tbl (get_gdt s) k = Inr (clear_pml4 (get_gdt s) k1)"
    "only_accounts (prepare_memory tbl k) k1"
    using init_memory_state [OF assms(4-6)] by blast
  have "pml4 k1 = pml4 k"
    using only_accounts_layout [OF k1(2)] prepared_kept(7) [OF assms(4,5)] by (simp add: same_layout_def)
  moreover have "PML4E ! i = pml4 k i" if "i < 512" for i
    using assms(1,2,7) that by (simp add: kernel_tables_def table_at_def table_lengths)
  moreover have "table_entry m 0x101000 i = PML4E_kernel ! i" if "i < 512" for i
    using m(1) that by (simp add: kernel_tables_def table_at_def table_lengths)
  ultimately have "table_entry m 0x101000 i = pml4 (clear_pml4 (get_gdt s) k1) i" if "i < 512" for i
    using that PML4E_nth [of i] PML4E_kernel_nth [of i] by (auto simp: clear_pml4_def)
  then show ?thesis
    using m(2,3) k1(1) assms(2)
    by (intro exI [of _ "s\<lparr>tlb := [], phys := m\<rparr>"] exI [of _ "clear_pml4 (get_gdt s) k1"])
      (simp add: clear_pml4_def get_gdt_def)
qed

theorem drop_low_map_refines_init_memory_witness:
  "\<exists>t k'. drop_low_map booted_mmu = Inr t \<and> init_memory two_gigabytes 0x101000 (booted\<lparr>pml4 := (\<lambda>i. PML4E ! i)\<rparr>) = Inr k' \<and>
    table_entry (phys t) 0x101000 256 = pml4 k' 256 \<and> g_cr3 k' = 0x101000"
proof -
  let ?k = "booted\<lparr>pml4 := (\<lambda>i. PML4E ! i)\<rparr>"
  have fresh: "fresh ?k" using fresh_booted by (simp add: fresh_def)
  then have fits: "kernel_fits two_gigabytes ?k"
    using boots_with_two_gigabytes(2) [of ?k 0] by (simp add: boots_with_def booted_def memory_management_struct_def)
  have tables: "kernel_tables PML4E (phys booted_mmu)" using head_image_tables by (simp add: booted_mmu_state)
  then have same: "\<forall>i < 512. table_entry (phys booted_mmu) (cr3 booted_mmu) i = pml4 ?k i"
    by (simp add: kernel_tables_def table_at_def table_lengths booted_mmu_state(2))
  obtain t k' where t: "drop_low_map booted_mmu = Inr t" "init_memory two_gigabytes (get_gdt booted_mmu) ?k = Inr k'"
    "g_cr3 k' = cr3 t" "\<forall>i < 512. table_entry (phys t) (cr3 t) i = pml4 k' i"
    using drop_low_map_refines_init_memory [OF tables booted_mmu_state(2,3) fresh good_two_gigabytes fits same] by blast
  moreover from t(1) have "cr3 t = 0x101000"
    using clear_entries_cleared [OF tables booted_mmu_state(2,3)] by (auto simp: booted_mmu_state(2))
  ultimately show ?thesis
    by (intro exI [of _ t] exI [of _ k']) (simp add: get_gdt_def booted_mmu_state(2))
qed

end
