(* ===== verification/Mem_Pool.thy ===== *)
theory Mem_Pool
  imports Mem_Boot
begin

text \<open>
  Single pages requested one after the other from \<^verbatim>\<open>alloc_pages\<close> (\<^verbatim>\<open>src/memory.c\<close>), as \<^verbatim>\<open>do_fork\<close> does:
  how many requests are certain to succeed, and that each gives a page no earlier one gave.
\<close>

section \<open>The pool\<close>

text \<open>
  The frames of the first bitmap word at positions the search tries. \<open>pool a s M\<close>: at least \<open>a\<close> of them
  are free, and zone 0 counts at least as many free pages.
\<close>

definition first_frames :: "kmem \<Rightarrow> nat set" where
  "first_frames s = {x. 1 \<le> x \<and> x < 63 \<and> \<not> bm_test (bits_map s) x}"

definition pool :: "nat \<Rightarrow> kmem \<Rightarrow> nat set \<Rightarrow> bool" where
  "pool a s M \<longleftrightarrow> mem_inv s M \<and> g_zone_dma s = 0 \<and> g_zone_normal s = 0 \<and> 0 < unat (zones_size s) \<and>
     zone0_start s = 1 \<and> zone0_start s \<le> zone0_end s \<and> (\<forall>x < 128. \<not> bm_test (bits_map s) x \<longrightarrow> x \<in> M) \<and>
     a \<le> card (first_frames s) \<and> a \<le> unat (page_free_cnt (zones s 0))"

lemma finite_first_frames [simp]: "finite (first_frames s)"
  by (rule finite_subset [of _ "{..< 63}"]) (auto simp: first_frames_def)

text \<open>A claimed page takes at most one from the free counter of a zone.\<close>

lemma free_count_step:
  assumes inv: "mem_inv s M" "mem_inv s' M" and acc: "only_accounts s s'" and z: "z < unat (zones_size s)"
    and pg: "\<And>x. x \<noteq> P \<Longrightarrow> pages s' x = pages s x" "p_zone (pages s' P) = p_zone (pages s P)" "p_attribute (pages s' P) \<noteq> 0"
    and enough: "Suc a \<le> unat (page_free_cnt (zones s z))"
  shows "a \<le> unat (page_free_cnt (zones s' z))"
proof -
  let ?U = "\<lambda>t. {x \<in> M. p_zone (pages t x) = Some z \<and> p_attribute (pages t x) \<noteq> 0}"
  have fin: "finite M" using mem_inv_managed [OF inv(1)] by (simp add: managed_def)
  have use: "page_using_cnt (zones s z) = of_nat (card (?U s))" "page_using_cnt (zones s' z) = of_nat (card (?U s'))"
    using inv z only_accounts_fields(1) [OF acc] by (simp_all add: mem_inv_def zone_sum_in_use [OF fin])
  have "p_zone (pages s' x) = p_zone (pages s x)" and "x \<noteq> P \<Longrightarrow> p_attribute (pages s' x) = p_attribute (pages s x)" for x
    using pg(1,2) by (cases "x = P"; simp)+
  then have sub: "?U s \<subseteq> ?U s'" "?U s' \<subseteq> insert P (?U s)"
    using pg(3) by (auto, metis)
  have "card (?U s) \<le> card (?U s')" using card_mono [OF _ sub(1)] fin by simp
  moreover have "card (?U s') \<le> card (?U s) + 1"
    using card_mono [OF _ sub(2)] fin by (simp add: card_insert_if split: if_splits)
  ultimately consider "card (?U s') = card (?U s)" | "card (?U s') = card (?U s) + 1" by linarith
  then consider "page_free_cnt (zones s' z) = page_free_cnt (zones s z)"
    | "page_free_cnt (zones s' z) = page_free_cnt (zones s z) - 1"
    using only_accounts_fields(3) [OF acc, of z] unfolding use by cases (auto simp: algebra_simps)
  moreover have "page_free_cnt (zones s z) \<noteq> 0" using enough by auto
  ultimately show ?thesis
    using enough unat_minus_one [of "page_free_cnt (zones s z)"] by cases simp_all
qed

text \<open>One request: the page is new, and the pool has one page fewer for certain.\<close>

lemma pool_alloc:
  assumes pool: "pool (Suc a) s M" and fl: "flags \<noteq> 0"
  shows "\<exists>P s'. alloc_pages ZONE_NORMAL 1 flags s = Some (Inr (s', Some (of_nat P))) \<and> P \<in> M \<and> P < 128 \<and>
    \<not> bm_test (bits_map s) P \<and> (\<forall>x. bm_test (bits_map s') x \<longleftrightarrow> x = P \<or> bm_test (bits_map s) x) \<and>
    (\<forall>x. pages s' x = (if x = P then (pages s x)\<lparr>p_attribute := flags, ref_cnt := 1\<rparr> else pages s x)) \<and> pool a s' M \<and>
    (\<forall>x \<in> first_frames s. P \<le> x)"
proof -
  from pool have inv: "mem_inv s M" and g: "g_zone_dma s = 0" "g_zone_normal s = 0" and z: "0 < unat (zones_size s)"
    and start: "zone0_start s = 1" "zone0_start s \<le> zone0_end s"
    and covers: "\<And>x. x < 128 \<Longrightarrow> \<not> bm_test (bits_map s) x \<Longrightarrow> x \<in> M"
    and room: "Suc a \<le> card (first_frames s)" "Suc a \<le> unat (page_free_cnt (zones s 0))"
    by (auto simp: pool_def)
  obtain k where k: "k \<in> first_frames s"
    using room(1) by (metis Suc_le_D card.empty ex_in_conv nat.distinct(1))
  then have run: "first_word_run s 1 k" using start(1) by (simp add: first_word_run_def first_frames_def)
  have enough: "word_of_int 1 \<le> page_free_cnt (zones s 0)" using room(2) by (simp add: word_le_nat_alt)
  have "zone0_start s mod 64 = 1" "x < 64 * (zone0_start s div 64) + 128 \<Longrightarrow> \<not> bm_test (bits_map s) x \<Longrightarrow> x \<in> M" for x
    using start(1) covers by simp_all
  from alloc_run_claimed [OF inv _ _ fl g this(1) start(2) enough run this(2)]
  obtain P s' where P: "alloc_pages ZONE_NORMAL 1 flags s = Some (Inr (s', Some (of_nat P)))"
    "\<not> bm_test (bits_map s) P" "P \<in> M" "P < 128" and inv': "mem_inv s' M" and acc: "only_accounts s s'"
    and bits: "\<forall>x. bm_test (bits_map s') x \<longleftrightarrow> P \<le> x \<and> x < P + 1 \<or> bm_test (bits_map s) x"
    and pg: "\<forall>x. pages s' x = (if P \<le> x \<and> x < P + 1 then (pages s x)\<lparr>p_attribute := flags, ref_cnt := 1\<rparr> else pages s x)"
    and least: "\<forall>q. first_word_run s 1 q \<longrightarrow> P \<le> q"
    using start(1) by auto
  have first: "P \<le> x" if "x \<in> first_frames s" for x
    using least that start(1) by (simp add: first_word_run_def first_frames_def)
  have bits': "bm_test (bits_map s') x \<longleftrightarrow> x = P \<or> bm_test (bits_map s) x"
    and pg': "pages s' x = (if x = P then (pages s x)\<lparr>p_attribute := flags, ref_cnt := 1\<rparr> else pages s x)" for x
    using bits pg by (auto simp: le_less_Suc_eq)
  have "first_frames s - {P} \<subseteq> first_frames s'" by (auto simp: first_frames_def bits')
  then have "card (first_frames s) - 1 \<le> card (first_frames s')"
    using card_mono [of "first_frames s'" "first_frames s - {P}"] card_Diff1_le [of "first_frames s" P]
    by (cases "P \<in> first_frames s") (auto simp: card_Diff_singleton)
  moreover have "a \<le> unat (page_free_cnt (zones s' 0))"
    by (rule free_count_step [OF inv inv' acc z, of P]) (use pg' fl room(2) in auto)
  ultimately have "pool a s' M"
    using inv' g z start covers room(1) bits' only_accounts_fields [OF acc]
    by (auto simp: pool_def zone0_start_def zone0_end_def)
  then show ?thesis using P bits' pg' first by blast
qed

text \<open>What \<^verbatim>\<open>init_memory\<close> leaves is a pool of all the frames between the kernel and frame 63.\<close>

lemma boot_pool:
  assumes boot: "boots_with n tbl s" and n: "kernel_frames tbl s + n \<le> 63"
  shows "\<exists>t. init_memory tbl cr3 s = Inr t \<and> pool n t (pages_known tbl) \<and>
    (\<forall>x < 128. \<not> bm_test (bits_map t) x \<longrightarrow> kernel_frames tbl s \<le> x \<and> x \<in> frames_of (ram tbl)) \<and>
    {kernel_frames tbl s ..< kernel_frames tbl s + n} \<subseteq> first_frames t"
proof -
  have fresh: "fresh s" "good_table tbl" "kernel_fits tbl s" using boot by (simp_all add: boots_with_def)
  obtain t where run: "init_memory tbl cr3 s = Inr (clear_pml4 cr3 t)"
    and inv: "mem_inv t (pages_known tbl)" and acc: "only_accounts (prepare_memory tbl s) t"
    and pg: "\<forall>x. pages t x = (if x < kernel_frames tbl s
        then (pages (prepare_memory tbl s) x)\<lparr>p_attribute := 0x93, ref_cnt := 1\<rparr>
        else pages (prepare_memory tbl s) x)"
    and bm: "\<forall>x. bm_test (bits_map t) x \<longleftrightarrow>
        x < kernel_frames tbl s \<or> bm_test (bits_map (prepare_memory tbl s)) x"
    using init_memory_state [OF fresh] by blast
  let ?t = "clear_pml4 cr3 t" and ?k = "kernel_frames tbl s"
  note free = boots_with_free [OF boot _ bm [rule_format]]
  note zones = boots_with_zone0 [OF boot acc]
  have mem: "{?k ..< ?k + n + 1} \<subseteq> entry_frames (hd (ram tbl))" "128 \<le> frame (memory_end tbl)" "1 \<le> ?k"
    using boot by (simp_all add: boots_with_def kernel_frames_def)
  have sub: "entry_frames (hd (ram tbl)) \<subseteq> frames_of (ram tbl)"
    using frames_of_nth [of 0 "ram tbl"] boots_with_hd [OF boot] by simp
  have sub_free: "{?k ..< ?k + n} \<subseteq> first_frames ?t"
  proof
    fix x
    assume x: "x \<in> {?k ..< ?k + n}"
    have "x \<in> frames_of (ram tbl)" by (rule subsetD [OF subset_trans [OF mem(1) sub]]) (use x in simp)
    then show "x \<in> first_frames ?t"
      using free [OF ram_frame_less [OF fresh(2)]] x n mem(3) by (simp add: first_frames_def)
  qed
  then have "card {?k ..< ?k + n} \<le> card (first_frames ?t)" by (intro card_mono) auto
  moreover have "n \<le> unat (page_free_cnt (zones ?t 0))" using boots_with_enough [OF boot run pg] by simp
  moreover have "0 < unat (zones_size ?t)"
    using boots_with_hd(2) [OF boot] ram_length [of tbl] only_accounts_fields(1) [OF acc] prepared_zones(1) [OF fresh(1,2)]
    by simp
  moreover have "x \<in> pages_known tbl \<and> ?k \<le> x \<and> x \<in> frames_of (ram tbl)" if "x < 128" "\<not> bm_test (bits_map ?t) x" for x
    using free [of x] that mem(2) by (simp add: pages_known_def)
  ultimately show ?thesis
    using run inv zones sub_free by (intro exI [of _ ?t]) (auto simp: pool_def mem_inv_clear_pml4)
qed

section \<open>Requests one after the other\<close>

text \<open>One request for each of a list of flags; the pages returned, in order.\<close>

fun alloc_times :: "uint64 list \<Rightarrow> kmem \<Rightarrow> (fault + uint64 option list \<times> kmem) option" where
  "alloc_times [] s = Some (Inr ([], s))"
| "alloc_times (fl # fls) s =
     (case alloc_pages ZONE_NORMAL 1 fl s of
        Some (Inr (t, p)) \<Rightarrow>
          (case alloc_times fls t of Some (Inr (ps, u)) \<Rightarrow> Some (Inr (p # ps, u)) | r \<Rightarrow> r)
      | Some (Inl e) \<Rightarrow> Some (Inl e)
      | None \<Rightarrow> None)"

definition served :: "uint64 list \<Rightarrow> nat list \<Rightarrow> kmem \<Rightarrow> kmem \<Rightarrow> bool" where
  "served fls Ps s u \<longleftrightarrow> length Ps = length fls \<and> distinct Ps \<and>
     (\<forall>P \<in> set Ps. P < 128 \<and> \<not> bm_test (bits_map s) P) \<and>
     (\<forall>x. bm_test (bits_map u) x \<longleftrightarrow> x \<in> set Ps \<or> bm_test (bits_map s) x) \<and>
     (\<forall>x. pages u x = (case map_of (zip Ps fls) x of
        Some fl \<Rightarrow> (pages s x)\<lparr>p_attribute := fl, ref_cnt := 1\<rparr> | None \<Rightarrow> pages s x))"

lemma served_more:
  assumes "\<not> bm_test (bits_map s) P" "P < 128"
    and "\<forall>x. bm_test (bits_map t) x \<longleftrightarrow> x = P \<or> bm_test (bits_map s) x"
    and "\<forall>x. pages t x = (if x = P then (pages s x)\<lparr>p_attribute := fl, ref_cnt := 1\<rparr> else pages s x)"
    and "served fls Ps t u"
  shows "served (fl # fls) (P # Ps) s u"
proof -
  have new: "P \<notin> set Ps" using assms(3,5) by (auto simp: served_def)
  then have none: "map_of (zip Ps fls) P = None"
    by (auto simp: map_of_eq_None_iff dest: set_zip_leftD)
  from assms(5) have u: "length Ps = length fls" "distinct Ps" "\<And>Q. Q \<in> set Ps \<Longrightarrow> Q < 128 \<and> \<not> bm_test (bits_map t) Q"
    "\<And>x. bm_test (bits_map u) x \<longleftrightarrow> x \<in> set Ps \<or> bm_test (bits_map t) x"
    "\<And>x. pages u x = (case map_of (zip Ps fls) x of Some fl \<Rightarrow> (pages t x)\<lparr>p_attribute := fl, ref_cnt := 1\<rparr> | None \<Rightarrow> pages t x)"
    unfolding served_def by blast+
  have "pages u x = (case map_of (zip (P # Ps) (fl # fls)) x of
      Some fl \<Rightarrow> (pages s x)\<lparr>p_attribute := fl, ref_cnt := 1\<rparr> | None \<Rightarrow> pages s x)" for x
    using u(5) [of x] assms(4) none by (cases "x = P") (simp_all split: option.splits)
  moreover have "bm_test (bits_map u) x \<longleftrightarrow> x \<in> set (P # Ps) \<or> bm_test (bits_map s) x" for x
    using u(4) [of x] assms(3) by auto
  moreover have "\<forall>Q \<in> set (P # Ps). Q < 128 \<and> \<not> bm_test (bits_map s) Q"
    using u(3) assms(1,2,3) by auto
  ultimately show ?thesis using u(1,2) new unfolding served_def by simp
qed

text \<open>With a run of free frames behind marked ones, the pages come from the run in its order.\<close>

lemma pool_requests:
  "pool (length fls + a) s M \<Longrightarrow> 0 \<notin> set fls \<Longrightarrow> (\<forall>x < k. bm_test (bits_map s) x) \<Longrightarrow> {k ..< k + length fls} \<subseteq> first_frames s \<Longrightarrow>
   \<exists>u. alloc_times fls s = Some (Inr (map (\<lambda>P. Some (of_nat P)) [k ..< k + length fls], u)) \<and>
     served fls [k ..< k + length fls] s u \<and> pool a u M"
proof (induction fls arbitrary: s k)
  case Nil
  then show ?case by (simp add: served_def)
next
  case (Cons fl fls)
  then have "pool (Suc (length fls + a)) s M" "fl \<noteq> 0" by auto
  from pool_alloc [OF this] obtain P t where P: "alloc_pages ZONE_NORMAL 1 fl s = Some (Inr (t, Some (of_nat P)))" "P < 128"
    "\<not> bm_test (bits_map s) P" "\<forall>x. bm_test (bits_map t) x \<longleftrightarrow> x = P \<or> bm_test (bits_map s) x"
    "\<forall>x. pages t x = (if x = P then (pages s x)\<lparr>p_attribute := fl, ref_cnt := 1\<rparr> else pages s x)"
    "pool (length fls + a) t M" "\<forall>x \<in> first_frames s. P \<le> x"
    by blast
  have "k \<in> first_frames s" using Cons.prems(4) by force
  then have k: "P = k" using P(3,7) Cons.prems(3) by (metis le_neq_implies_less)
  have "{Suc k ..< Suc k + length fls} \<subseteq> first_frames t"
  proof
    fix x
    assume "x \<in> {Suc k ..< Suc k + length fls}"
    then have "x \<in> first_frames s" "x \<noteq> P" using subsetD [OF Cons.prems(4), of x] k by auto
    then show "x \<in> first_frames t" using P(4) by (simp add: first_frames_def)
  qed
  moreover have "\<forall>x < Suc k. bm_test (bits_map t) x" using Cons.prems(3) P(4) by (auto simp: k less_Suc_eq)
  ultimately obtain u where
    u: "alloc_times fls t = Some (Inr (map (\<lambda>P. Some (of_nat P)) [Suc k ..< Suc k + length fls], u))"
       "served fls [Suc k ..< Suc k + length fls] t u" "pool a u M"
    using Cons.IH [OF P(6), of "Suc k"] Cons.prems(2) by (meson list.set_intros(2))
  have "[k ..< k + length (fl # fls)] = P # [Suc k ..< Suc k + length fls]"
    using upt_conv_Cons [of k "k + length (fl # fls)"] by (simp add: k del: upt_Suc)
  then show ?case
    using P(1) u(1,3) served_more [OF P(3,2,4,5) u(2)] by (simp only: alloc_times.simps) simp
qed

lemma requests_in_order:
  assumes "boots_with n tbl s" and "kernel_frames tbl s + n \<le> 63" and "length fls \<le> n" and "0 \<notin> set fls"
  shows "\<exists>t u. init_memory tbl cr3 s = Inr t \<and>
    alloc_times fls t = Some (Inr (map (\<lambda>i. Some (of_nat (kernel_frames tbl s + i))) [0 ..< length fls], u)) \<and>
    (\<forall>i < length fls. kernel_frames tbl s + i \<in> frames_of (ram tbl)) \<and>
    (\<forall>x. bm_test (bits_map u) x \<longleftrightarrow> kernel_frames tbl s \<le> x \<and> x < kernel_frames tbl s + length fls \<or> bm_test (bits_map t) x) \<and>
    (\<forall>x. pages u x = (if kernel_frames tbl s \<le> x \<and> x < kernel_frames tbl s + length fls
       then (pages t x)\<lparr>p_attribute := fls ! (x - kernel_frames tbl s), ref_cnt := 1\<rparr> else pages t x)) \<and>
    mem_inv u (pages_known tbl)"
proof -
  let ?k = "kernel_frames tbl s"
  obtain t where t: "init_memory tbl cr3 s = Inr t" "pool n t (pages_known tbl)"
    "\<forall>x < 128. \<not> bm_test (bits_map t) x \<longrightarrow> ?k \<le> x \<and> x \<in> frames_of (ram tbl)" "{?k ..< ?k + n} \<subseteq> first_frames t"
    using boot_pool [OF assms(1,2), of cr3] by blast
  have "pool (length fls + (n - length fls)) t (pages_known tbl)" using t(2) assms(3) by simp
  moreover have "bm_test (bits_map t) x" if "x < ?k" for x
    using spec [OF t(3), of x] that assms(2) by auto
  moreover have run: "{?k ..< ?k + length fls} \<subseteq> first_frames t" using t(4) assms(3) by force
  ultimately obtain u where
    u: "alloc_times fls t = Some (Inr (map (\<lambda>P. Some (of_nat P)) [?k ..< ?k + length fls], u))"
      "served fls [?k ..< ?k + length fls] t u" "pool (n - length fls) u (pages_known tbl)"
    using pool_requests [OF _ assms(4), of "n - length fls" t "pages_known tbl" ?k] by blast
  have list: "[?k ..< ?k + length fls] = map (\<lambda>i. ?k + i) [0 ..< length fls]" by (simp add: map_add_upt add.commute)
  have pg: "pages u x = (case map_of (zip [?k ..< ?k + length fls] fls) x of
      Some fl \<Rightarrow> (pages t x)\<lparr>p_attribute := fl, ref_cnt := 1\<rparr> | None \<Rightarrow> pages t x)" for x
    using u(2) by (simp add: served_def)
  have "map_of (zip [?k ..< ?k + length fls] fls) x = (if ?k \<le> x \<and> x < ?k + length fls then Some (fls ! (x - ?k)) else None)" for x
    using map_of_zip_nth [of "[?k ..< ?k + length fls]" fls "x - ?k"]
    by (auto simp: map_of_eq_None_iff dest: set_zip_leftD)
  then have "pages u x = (if ?k \<le> x \<and> x < ?k + length fls
      then (pages t x)\<lparr>p_attribute := fls ! (x - ?k), ref_cnt := 1\<rparr> else pages t x)" for x
    by (simp add: pg)
  moreover have "?k + i \<in> frames_of (ram tbl)" if "i < length fls" for i
    using subsetD [OF run, of "?k + i"] spec [OF t(3), of "?k + i"] that by (simp add: first_frames_def)
  moreover have "alloc_times fls t = Some (Inr (map (\<lambda>i. Some (of_nat (?k + i))) [0 ..< length fls], u))"
    using u(1) unfolding list by (simp add: comp_def)
  ultimately show ?thesis
    using t(1) u(2,3) by (intro exI [of _ t] exI [of _ u]) (auto simp: served_def pool_def)
qed

section \<open>Properties\<close>



end
