(* ===== verification/Task.thy ===== *)
theory Task
  imports Mem_Alloc Lib_List Gate Entry Printk_Hex
begin

text \<open>
  \<^verbatim>\<open>src/task.c\<close> and \<^verbatim>\<open>include/task.h\<close>: the task structures, \<^verbatim>\<open>do_fork\<close>, \<^verbatim>\<open>kernel_thread\<close>, the
  context switch and \<^verbatim>\<open>task_init\<close>. Task and thread structures are stores indexed by address; their
  list nodes are in the store of \<open>Lib_List\<close>, kernel stacks and saved frames in the byte memory of the
  machine. \<^verbatim>\<open>TASK_DEBUG\<close> is 1 in the build, so the messages are printed. \<open>link\<close> gives the address of
  a symbol and \<open>fname\<close> that of the text of \<^verbatim>\<open>__FUNCTION__\<close>.
\<close>

section \<open>Structures\<close>

definition KERNEL_CS :: uint64 where "KERNEL_CS = 0x08"
definition KERNEL_DS :: uint64 where "KERNEL_DS = 0x10"
definition USER_CS :: uint64 where "USER_CS = 0x28"
definition USER_DS :: uint64 where "USER_DS = 0x30"
definition CLONE_FS :: uint64 where "CLONE_FS = push_bit 0 1"
definition CLONE_FILES :: uint64 where "CLONE_FILES = push_bit 1 1"
definition CLONE_SIGNAL :: uint64 where "CLONE_SIGNAL = push_bit 2 1"
definition STACK_SIZE :: uint64 where "STACK_SIZE = 32768"
definition TASK_RUNNING :: uint64 where "TASK_RUNNING = push_bit 0 1"
definition TASK_INTERRUPTIBLE :: uint64 where "TASK_INTERRUPTIBLE = push_bit 1 1"
definition TASK_UNINTERRUPTIBLE :: uint64 where "TASK_UNINTERRUPTIBLE = push_bit 2 1"
definition TASK_ZOMBIE :: uint64 where "TASK_ZOMBIE = push_bit 3 1"
definition TASK_STOPPED :: uint64 where "TASK_STOPPED = push_bit 4 1"
definition PF_KTHREAD :: uint64 where "PF_KTHREAD = push_bit 0 1"

record mm_struct =
  mm_pgd :: uintptr
  mm_start_code :: uintptr
  mm_end_code :: uintptr
  mm_start_data :: uintptr
  mm_end_data :: uintptr
  mm_start_rodata :: uintptr
  mm_end_rodata :: uintptr
  mm_start_brk :: uintptr
  mm_end_brk :: uintptr
  mm_start_stack :: uintptr

record thread_struct =
  th_rsp0 :: uint64
  th_rip :: uint64
  th_rsp :: uint64
  th_fs :: uint64
  th_gs :: uint64
  th_cr2 :: uint64
  th_trap_nr :: uint64
  th_error_code :: uint64

text \<open>The member \<^verbatim>\<open>list\<close> comes first, so the address of a task is that of its list node.\<close>

record task_struct =
  ts_state :: uint64
  ts_flags :: uint64
  ts_mm :: uintptr
  ts_thread :: uintptr
  ts_addr_limit :: uint64
  ts_pid :: uint64
  ts_counter :: uint64
  ts_signal :: uint64
  ts_priority :: uint64

definition sizeof_task_struct :: uint64 where "sizeof_task_struct = 88"
definition sizeof_pt_regs :: uint64 where "sizeof_pt_regs = 192"

record tss_struct =
  tss_rsp0 :: uint64
  tss_rsp1 :: uint64
  tss_rsp2 :: uint64
  tss_ist1 :: uint64
  tss_ist2 :: uint64
  tss_ist3 :: uint64
  tss_ist4 :: uint64
  tss_ist5 :: uint64
  tss_ist6 :: uint64
  tss_ist7 :: uint64

text \<open>The state the functions of \<^verbatim>\<open>task.c\<close> share; \<open>init_tss\<close> is \<^verbatim>\<open>init_tss[0]\<close>.\<close>

record kstate =
  mach :: machine
  fs_reg :: uint16
  gs_reg :: uint16
  km :: kmem
  con :: console
  tasks :: "uintptr \<Rightarrow> task_struct"
  threads :: "uintptr \<Rightarrow> thread_struct"
  links :: list_heap
  init_mm :: mm_struct
  init_tss :: tss_struct
  tss64 :: tss_table

definition INIT_TASK :: "(string \<Rightarrow> uintptr) \<Rightarrow> task_struct" where
  "INIT_TASK link = \<lparr>ts_state = TASK_UNINTERRUPTIBLE, ts_flags = PF_KTHREAD, ts_mm = link ''init_mm'',
     ts_thread = link ''init_thread'', ts_addr_limit = 0xffff800000000000, ts_pid = 0, ts_counter = 1,
     ts_signal = 0, ts_priority = 0\<rparr>"

definition init_stack :: "(string \<Rightarrow> uintptr) \<Rightarrow> uint64" where
  "init_stack link = link ''init_task_union'' + STACK_SIZE"

definition INIT_TSS :: "(string \<Rightarrow> uintptr) \<Rightarrow> tss_struct" where
  "INIT_TSS link = \<lparr>tss_rsp0 = init_stack link, tss_rsp1 = init_stack link, tss_rsp2 = init_stack link,
     tss_ist1 = 0xffff800000007c00, tss_ist2 = 0xffff800000007c00, tss_ist3 = 0xffff800000007c00,
     tss_ist4 = 0xffff800000007c00, tss_ist5 = 0xffff800000007c00, tss_ist6 = 0xffff800000007c00,
     tss_ist7 = 0xffff800000007c00\<rparr>"

definition init_thread :: "(string \<Rightarrow> uintptr) \<Rightarrow> thread_struct" where
  "init_thread link = \<lparr>th_rsp0 = init_stack link, th_rip = 0, th_rsp = init_stack link, th_fs = KERNEL_DS,
     th_gs = KERNEL_DS, th_cr2 = 0, th_trap_nr = 0, th_error_code = 0\<rparr>"

section \<open>Results and messages\<close>

text \<open>\<open>None\<close> is a call that does not return; a call that returns may have faulted.\<close>

definition bindT :: "('e + 'a) option \<Rightarrow> ('a \<Rightarrow> ('e + 'b) option) \<Rightarrow> ('e + 'b) option" where
  "bindT m f = (case m of None \<Rightarrow> None | Some (Inl e) \<Rightarrow> Some (Inl e) | Some (Inr a) \<Rightarrow> f a)"

lemma bindT_simps [simp]:
  "bindT None f = None" "bindT (Some (Inl e)) f = Some (Inl e)" "bindT (Some (Inr a)) f = f a"
  by (simp_all add: bindT_def)

definition TASK_DEBUG_PRINT ::
  "(string \<Rightarrow> uintptr) \<Rightarrow> string \<Rightarrow> uint64 \<Rightarrow> string \<Rightarrow> uint64 list \<Rightarrow> kstate \<Rightarrow> (fault + kstate) option" where
  "TASK_DEBUG_PRINT fname func line fmt args s =
     Some (bindR (color_printk RED BLACK (m_mem (mach s)) (''Task_debug(%s %d): '' @ fmt @ [CHR 0x0A])
                    (fname func # line # args) (con s))
             (\<lambda>(n, c). Inr (s\<lparr>con := c\<rparr>)))"

definition task_printf :: "string \<Rightarrow> uint64 list \<Rightarrow> kstate \<Rightarrow> (fault + kstate) option" where
  "task_printf fmt args s = Some (bindR (printf (m_mem (mach s)) fmt args (con s)) (\<lambda>c. Inr (s\<lparr>con := c\<rparr>)))"

section \<open>The current task\<close>

definition get_current :: "machine \<Rightarrow> uintptr" where
  "get_current s = gpr s Rsp AND NOT 32767"

definition thread_of :: "kstate \<Rightarrow> uintptr \<Rightarrow> thread_struct" where
  "thread_of s t = threads s (ts_thread (tasks s t))"

definition thread_upd :: "uintptr \<Rightarrow> (thread_struct \<Rightarrow> thread_struct) \<Rightarrow> kstate \<Rightarrow> kstate" where
  "thread_upd a f s = s\<lparr>threads := (threads s)(a := f (threads s a))\<rparr>"

definition task_upd :: "uintptr \<Rightarrow> (task_struct \<Rightarrow> task_struct) \<Rightarrow> kstate \<Rightarrow> kstate" where
  "task_upd a f s = s\<lparr>tasks := (tasks s)(a := f (tasks s a))\<rparr>"

section \<open>The context switch\<close>

definition set_tss_from :: "kstate \<Rightarrow> kstate" where
  "set_tss_from s = (let i = init_tss s in
     s\<lparr>tss64 := set_tss64 (tss_rsp0 i) (tss_rsp1 i) (tss_rsp2 i) (tss_ist1 i) (tss_ist2 i) (tss_ist3 i)
                  (tss_ist4 i) (tss_ist5 i) (tss_ist6 i) (tss_ist7 i) (tss64 s)\<rparr>)"

definition swap_segments :: "uintptr \<Rightarrow> uintptr \<Rightarrow> kstate \<Rightarrow> kstate" where
  "swap_segments prev nxt s =
     (let s1 = thread_upd (ts_thread (tasks s prev)) (\<lambda>t. t\<lparr>th_fs := ucast (fs_reg s)\<rparr>) s;
          s2 = thread_upd (ts_thread (tasks s1 prev)) (\<lambda>t. t\<lparr>th_gs := ucast (gs_reg s1)\<rparr>) s1;
          s3 = s2\<lparr>fs_reg := ucast (th_fs (thread_of s2 nxt))\<rparr>
      in s3\<lparr>gs_reg := ucast (th_gs (thread_of s3 nxt))\<rparr>)"
definition switch_to_c :: "(string \<Rightarrow> uintptr) \<Rightarrow> uintptr \<Rightarrow> uintptr \<Rightarrow> kstate \<Rightarrow> (fault + kstate) option" where
  "switch_to_c fname prev nxt s =
     bindT (TASK_DEBUG_PRINT fname ''__switch_to'' 129 ''=====enter====='' [] s) (\<lambda>s.
     let s = s\<lparr>init_tss := (init_tss s)\<lparr>tss_rsp0 := th_rsp0 (thread_of s nxt)\<rparr>\<rparr>;
         s = set_tss_from s;
         s = swap_segments prev nxt s in
     bindT (TASK_DEBUG_PRINT fname ''__switch_to'' 143 ''prev->thread->rsp0:%#018lx'' [th_rsp0 (thread_of s prev)] s) (\<lambda>s.
     bindT (TASK_DEBUG_PRINT fname ''__switch_to'' 144 ''next->thread->rsp0:%#018lx'' [th_rsp0 (thread_of s nxt)] s) (\<lambda>s.
     bindT (TASK_DEBUG_PRINT fname ''__switch_to'' 145 ''=====exit====='' [] s) (\<lambda>s.
     bindT (task_printf (''curren:'' @ [CHR 0x0A]) [] s) (\<lambda>s.
     bindT (task_printf ''rip: %#018lx'' [th_rip (thread_of s prev)] s) (\<lambda>s.
     bindT (task_printf '' rsp: %#018lx'' [th_rsp (thread_of s prev)] s) (\<lambda>s.
     bindT (task_printf (CHR 0x0A # ''fs: %#018lx'') [th_fs (thread_of s prev)] s) (\<lambda>s.
     bindT (task_printf ('' gs: %#018lx'' @ [CHR 0x0A]) [th_gs (thread_of s prev)] s) (\<lambda>s.
     bindT (task_printf (''next:'' @ [CHR 0x0A]) [] s) (\<lambda>s.
     bindT (task_printf ''rip: %#018lx'' [th_rip (thread_of s nxt)] s) (\<lambda>s.
     bindT (task_printf '' rsp: %#018lx'' [th_rsp (thread_of s nxt)] s) (\<lambda>s.
     bindT (task_printf (CHR 0x0A # ''fs: %#018lx'') [th_fs (thread_of s nxt)] s) (\<lambda>s.
     task_printf ('' gs: %#018lx'' @ [CHR 0x0A]) [th_gs (thread_of s nxt)] s)))))))))))))"

text \<open>
  \<^verbatim>\<open>switch_to\<close> up to the jump to \<^verbatim>\<open>__switch_to\<close>, and whole: \<^verbatim>\<open>__switch_to\<close> ends with \<^verbatim>\<open>ret\<close>, which
  takes the address pushed last. A task that is switched back to continues at the label \<^verbatim>\<open>1:\<close>, here
  \<open>resume\<close>.
\<close>

definition switch_stacks :: "(string \<Rightarrow> uintptr) \<Rightarrow> uintptr \<Rightarrow> uintptr \<Rightarrow> kstate \<Rightarrow> kstate" where
  "switch_stacks link prev nxt s =
     (let s = s\<lparr>mach := run [Push Rbp, Push Rax] (mach s)\<rparr>;
          s = thread_upd (ts_thread (tasks s prev)) (\<lambda>t. t\<lparr>th_rsp := gpr (mach s) Rsp\<rparr>) s;
          s = s\<lparr>mach := set_reg Rsp (th_rsp (thread_of s nxt)) (mach s)\<rparr>;
          s = s\<lparr>mach := set_reg Rax (link ''1f'') (mach s)\<rparr>;
          s = thread_upd (ts_thread (tasks s prev)) (\<lambda>t. t\<lparr>th_rip := gpr (mach s) Rax\<rparr>) s
      in s\<lparr>mach := push64 (th_rip (thread_of s nxt)) (mach s)\<rparr>)"

definition ret :: "machine \<Rightarrow> machine" where
  "ret s = (let (ip, s1) = pop64 s in s1\<lparr>m_rip := ip\<rparr>)"

definition switch_to ::
  "(string \<Rightarrow> uintptr) \<Rightarrow> (string \<Rightarrow> uintptr) \<Rightarrow> uintptr \<Rightarrow> uintptr \<Rightarrow> kstate \<Rightarrow> (fault + kstate) option" where
  "switch_to link fname prev nxt s =
     (let s = s\<lparr>mach := set_reg Rsi nxt (set_reg Rdi prev (mach s))\<rparr>
      in bindT (switch_to_c fname prev nxt (switch_stacks link prev nxt s))
           (\<lambda>s. Some (Inr (s\<lparr>mach := ret (mach s)\<rparr>))))"

definition resume :: "machine \<Rightarrow> machine" where
  "resume s = run [Pop Rax, Pop Rbp] s"

section \<open>Creating tasks\<close>

definition init :: "(string \<Rightarrow> uintptr) \<Rightarrow> uint64 \<Rightarrow> kstate \<Rightarrow> (fault + uint64 \<times> kstate) option" where
  "init fname arg s =
     bindT (TASK_DEBUG_PRINT fname ''init'' 161 ''=====enter====='' [] s) (\<lambda>s.
     bindT (TASK_DEBUG_PRINT fname ''init'' 162 ''init task is running,arg:%#018lx'' [arg] s) (\<lambda>s.
     bindT (TASK_DEBUG_PRINT fname ''init'' 163 ''=====exit====='' [] s) (\<lambda>s.
     Some (Inr (1, s)))))"

definition zero_task :: task_struct where
  "zero_task = \<lparr>ts_state = 0, ts_flags = 0, ts_mm = 0, ts_thread = 0, ts_addr_limit = 0, ts_pid = 0,
     ts_counter = 0, ts_signal = 0, ts_priority = 0\<rparr>"

text \<open>\<^verbatim>\<open>memset(tsk, 0, sizeof(*tsk))\<close> and \<^verbatim>\<open>*tsk = *(current)\<close>, list node included.\<close>

definition clear_task :: "uintptr \<Rightarrow> kstate \<Rightarrow> kstate" where
  "clear_task tsk s = s\<lparr>tasks := (tasks s)(tsk := zero_task), links := set_next tsk 0 (set_prev tsk 0 (links s))\<rparr>"

definition copy_task :: "uintptr \<Rightarrow> uintptr \<Rightarrow> kstate \<Rightarrow> kstate" where
  "copy_task tsk cur s = s\<lparr>tasks := (tasks s)(tsk := tasks s cur),
     links := set_next tsk (lnext (links s) cur) (set_prev tsk (lprev (links s) cur) (links s))\<rparr>"

text \<open>From the page to the new task: \<^verbatim>\<open>do_fork\<close> between the messages.\<close>

definition fork_task :: "(string \<Rightarrow> uintptr) \<Rightarrow> uintptr \<Rightarrow> kstate \<Rightarrow> kstate" where
  "fork_task link tsk s =
     (let s = clear_task tsk s;
          s = copy_task tsk (get_current (mach s)) s;
          s = s\<lparr>links := list_init tsk (links s)\<rparr>;
          s = s\<lparr>links := list_add_to_before (link ''init_task_union'') tsk (links s)\<rparr>;
          s = task_upd tsk (\<lambda>t. t\<lparr>ts_pid := ts_pid t + 1\<rparr>) s;
          s = task_upd tsk (\<lambda>t. t\<lparr>ts_state := TASK_UNINTERRUPTIBLE\<rparr>) s
      in task_upd tsk (\<lambda>t. t\<lparr>ts_thread := tsk + sizeof_task_struct\<rparr>) s)"

definition fork_thread :: "uintptr \<Rightarrow> uintptr \<Rightarrow> kstate \<Rightarrow> kstate" where
  "fork_thread tsk regs s =
     (let thd = ts_thread (tasks s tsk);
          s = s\<lparr>mach := (mach s)\<lparr>m_mem := memcpy (tsk + STACK_SIZE - sizeof_pt_regs) regs sizeof_pt_regs (m_mem (mach s))\<rparr>\<rparr>;
          s = thread_upd thd (\<lambda>t. t\<lparr>th_rsp0 := tsk + STACK_SIZE\<rparr>) s;
          s = thread_upd thd (\<lambda>t. t\<lparr>th_rip := read64 (m_mem (mach s)) (regs + RIP)\<rparr>) s
      in thread_upd thd (\<lambda>t. t\<lparr>th_rsp := tsk + STACK_SIZE - sizeof_pt_regs\<rparr>) s)"

definition fork_user :: "(string \<Rightarrow> uintptr) \<Rightarrow> uintptr \<Rightarrow> uintptr \<Rightarrow> kstate \<Rightarrow> kstate" where
  "fork_user link tsk regs s =
     (if ts_flags (tasks s tsk) AND PF_KTHREAD = 0 then
        thread_upd (ts_thread (tasks s tsk)) (\<lambda>t. t\<lparr>th_rip := link ''ret_from_intr''\<rparr>)
          (s\<lparr>mach := (mach s)\<lparr>m_mem := write64 (regs + RIP) (link ''ret_from_intr'') (m_mem (mach s))\<rparr>\<rparr>)
      else s)"

definition do_fork ::
  "(string \<Rightarrow> uintptr) \<Rightarrow> (string \<Rightarrow> uintptr) \<Rightarrow> uintptr \<Rightarrow> uint64 \<Rightarrow> uint64 \<Rightarrow> uint64 \<Rightarrow> kstate
     \<Rightarrow> (fault + uint64 \<times> kstate) option" where
  "do_fork link fname regs clone_flags stack_start stack_size s =
     bindT (TASK_DEBUG_PRINT fname ''do_fork'' 173 ''=====enter====='' [] s) (\<lambda>s.
     bindT (TASK_DEBUG_PRINT fname ''do_fork'' 175 ''alloc_pages, bitmap:%#018lx'' [bits_map (km s) 0] s) (\<lambda>s.
     bindT (alloc_pages ZONE_NORMAL 1 (PG_PTable_Maped OR PG_Active OR PG_Kernel) (km s)) (\<lambda>(k, p).
     bindT (TASK_DEBUG_PRINT fname ''do_fork'' 180 ''alloc_pages, bitmap:%#018lx'' [bits_map k 0] (s\<lparr>km := k\<rparr>)) (\<lambda>s.
     case p of None \<Rightarrow> Some (Inl NullDeref) | Some page \<Rightarrow>
     (let tsk = Phy_To_Virt (phy_addr (pages (km s) (unat page))) in
     bindT (TASK_DEBUG_PRINT fname ''do_fork'' 185 ''struct task_struct address:%#018lx'' [tsk] s) (\<lambda>s.
     let s = fork_thread tsk regs (fork_task link tsk s);
         thd = ts_thread (tasks s tsk) in
     bindT (TASK_DEBUG_PRINT fname ''do_fork'' 204 ''fork rip:%#018lx rsp:%#018lx'' [th_rip (threads s thd), th_rsp (threads s thd)] s) (\<lambda>s.
     let s = fork_user link tsk regs s;
         s = task_upd tsk (\<lambda>t. t\<lparr>ts_state := TASK_RUNNING\<rparr>) s in
     bindT (TASK_DEBUG_PRINT fname ''do_fork'' 210 ''=====exit====='' [] s) (\<lambda>s.
     Some (Inr (0, s))))))))))"

text \<open>\<^verbatim>\<open>do_exit\<close> prints and stays in its loop; \<open>kernel_thread_func\<close> up to \<^verbatim>\<open>callq *%rbx\<close>.\<close>

definition do_exit :: "(string \<Rightarrow> uintptr) \<Rightarrow> uint64 \<Rightarrow> kstate \<Rightarrow> (fault + kstate ending) option" where
  "do_exit fname code s =
     bindT (TASK_DEBUG_PRINT fname ''do_exit'' 215 ''=====enter====='' [] s) (\<lambda>s.
     bindT (TASK_DEBUG_PRINT fname ''do_exit'' 216 ''exit task is running,arg:%#018lx'' [code] s) (\<lambda>s.
     Some (Inr (Loops s))))"

definition kernel_thread_func :: "instr list" where
  "kernel_thread_func = [Pop Gr15, Pop Gr14, Pop Gr13, Pop Gr12, Pop Gr11, Pop Gr10, Pop Gr9, Pop Gr8,
     Pop Rbx, Pop Rcx, Pop Rdx, Pop Rsi, Pop Rdi, Pop Rbp, Pop Rax, ToDs Rax, Pop Rax, ToEs Rax,
     Pop Rax, AddI 0x38 Rsp, Mov Rdx Rdi]"

text \<open>\<open>regs\<close> is the address of the local \<^verbatim>\<open>struct pt_regs\<close> in the frame of \<^verbatim>\<open>kernel_thread\<close>.\<close>

definition kernel_thread_regs :: "(string \<Rightarrow> uintptr) \<Rightarrow> uintptr \<Rightarrow> uintptr \<Rightarrow> uintptr \<Rightarrow> mem8 \<Rightarrow> mem8" where
  "kernel_thread_regs link regs fn arg m =
     (let m = memset regs 0 sizeof_pt_regs m;
          m = write64 (regs + RBX) fn m;
          m = write64 (regs + RDX) arg m;
          m = write64 (regs + DS) KERNEL_DS m;
          m = write64 (regs + ES) KERNEL_DS m;
          m = write64 (regs + CS) KERNEL_CS m;
          m = write64 (regs + OLDSS) KERNEL_DS m;
          m = write64 (regs + RFLAGS) (push_bit 9 1) m
      in write64 (regs + RIP) (link ''kernel_thread_func'') m)"

definition kernel_thread ::
  "(string \<Rightarrow> uintptr) \<Rightarrow> (string \<Rightarrow> uintptr) \<Rightarrow> uintptr \<Rightarrow> uintptr \<Rightarrow> uintptr \<Rightarrow> uint64 \<Rightarrow> kstate
     \<Rightarrow> (fault + uint64 \<times> kstate) option" where
  "kernel_thread link fname regs fn arg flags s =
     bindT (TASK_DEBUG_PRINT fname ''kernel_thread'' 252 ''=====enter====='' [] s) (\<lambda>s.
     let s = s\<lparr>mach := (mach s)\<lparr>m_mem := kernel_thread_regs link regs fn arg (m_mem (mach s))\<rparr>\<rparr> in
     bindT (TASK_DEBUG_PRINT fname ''kernel_thread'' 265 ''=====exit====='' [] s) (\<lambda>s.
     bindT (TASK_DEBUG_PRINT fname ''kernel_thread'' 266 ''kernel_thread_func @ %p'' [link ''kernel_thread_func''] s) (\<lambda>s.
     do_fork link fname regs flags 0 0 s)))"

text \<open>\<^verbatim>\<open>task_init\<close>; \<open>stack_start\<close> is the value of \<^verbatim>\<open>_stack_start\<close>.\<close>

definition set_init_mm :: "(string \<Rightarrow> uintptr) \<Rightarrow> uint64 \<Rightarrow> kstate \<Rightarrow> kstate" where
  "set_init_mm link stack_start s =
     s\<lparr>init_mm := \<lparr>mm_pgd = g_cr3 (km s), mm_start_code = start_code (km s), mm_end_code = end_code (km s),
        mm_start_data = link ''_data'', mm_end_data = end_data (km s), mm_start_rodata = link ''_rodata'',
        mm_end_rodata = link ''_erodata'', mm_start_brk = 0, mm_end_brk = end_brk (km s),
        mm_start_stack = stack_start\<rparr>\<rparr>"

definition task_init_setup :: "(string \<Rightarrow> uintptr) \<Rightarrow> uint64 \<Rightarrow> kstate \<Rightarrow> kstate" where
  "task_init_setup link stack_start s =
     (let s = set_init_mm link stack_start s;
          i = init_tss s;
          s = s\<lparr>tss64 := set_tss64 (th_rsp0 (threads s (link ''init_thread''))) (tss_rsp1 i) (tss_rsp2 i) (tss_ist1 i)
                  (tss_ist2 i) (tss_ist3 i) (tss_ist4 i) (tss_ist5 i) (tss_ist6 i) (tss_ist7 i) (tss64 s)\<rparr>;
          s = s\<lparr>init_tss := (init_tss s)\<lparr>tss_rsp0 := th_rsp0 (threads s (link ''init_thread''))\<rparr>\<rparr>
      in s\<lparr>links := list_init (link ''init_task_union'') (links s)\<rparr>)"

definition task_init ::
  "(string \<Rightarrow> uintptr) \<Rightarrow> (string \<Rightarrow> uintptr) \<Rightarrow> uintptr \<Rightarrow> uint64 \<Rightarrow> kstate \<Rightarrow> (fault + kstate) option" where
  "task_init link fname regs stack_start s =
     bindT (TASK_DEBUG_PRINT fname ''task_init'' 272 ''=====enter====='' [] s) (\<lambda>s.
     bindT (kernel_thread link fname regs (link ''init'') 10 (CLONE_FS OR CLONE_FILES OR CLONE_SIGNAL)
              (task_init_setup link stack_start s)) (\<lambda>(r, s).
     let s = task_upd (link ''init_task_union'') (\<lambda>t. t\<lparr>ts_state := TASK_RUNNING\<rparr>) s;
         p = container_of (list_next (get_current (mach s)) (links s)) 0 in
     bindT (TASK_DEBUG_PRINT fname ''task_init'' 304 ''=====exit====='' [] s) (\<lambda>s.
     switch_to link fname (get_current (mach s)) p s)))"

section \<open>Messages return\<close>

text \<open>The texts of the function names are terminated, and lie in the region \<open>N\<close> nothing writes to.\<close>

definition task_functions :: "string list" where
  "task_functions = [''__switch_to'', ''init'', ''do_fork'', ''do_exit'', ''kernel_thread'', ''task_init'']"

definition names_ok :: "uintptr set \<Rightarrow> (string \<Rightarrow> uintptr) \<Rightarrow> mem8 \<Rightarrow> bool" where
  "names_ok N fname m \<longleftrightarrow> (\<forall>f \<in> set task_functions. \<exists>n < 100. cstr m (fname f) n \<and> block (fname f) (n + 1) \<subseteq> N)"

lemma names_ok_cong:
  assumes "names_ok N fname m" and "\<And>x. x \<in> N \<Longrightarrow> m' x = m x"
  shows "names_ok N fname m'"
  unfolding names_ok_def
proof
  fix f
  assume "f \<in> set task_functions"
  then obtain n where n: "n < 100" "cstr m (fname f) n" "block (fname f) (n + 1) \<subseteq> N"
    using assms(1) by (auto simp: names_ok_def)
  have "m' (fname f + of_nat i) = m (fname f + of_nat i)" if "i \<le> n" for i
    by (rule assms(2)) (use that n(1,3) block_nth [of "n + 1" i "fname f"] in auto)
  then have "cstr m' (fname f) n" using n(2) by (simp add: cstr_def)
  with n show "\<exists>n < 100. cstr m' (fname f) n \<and> block (fname f) (n + 1) \<subseteq> N" by blast
qed

lemma color_printk_returns:
  assumes "cursor_ok c" and "formats m fmt args 4095"
  shows "\<exists>n t. color_printk fr bk m fmt args c = Inr (n, t) \<and> cursor_ok t"
proof -
  obtain buf where buf: "vsprintf m fmt args = Inr buf" "length buf \<le> 4095"
    using assms(2) by (auto simp: formats_def)
  obtain t where "foldR (print_char fr bk) buf c = Inr t" "cursor_ok t"
    using tty.put_text [OF assms(1), of fr bk buf] by blast
  with buf show ?thesis by (simp add: color_printk_def)
qed

text \<open>A message changes the console and nothing else.\<close>

lemma task_debug_con:
  assumes "names_ok N fname (m_mem (mach s))" and "func \<in> set task_functions" and "cursor_ok c"
    and "formats (m_mem (mach s)) (fmt @ [CHR 0x0A]) args 1000"
  shows "\<exists>c'. TASK_DEBUG_PRINT fname func line fmt args (s\<lparr>con := c\<rparr>) = Some (Inr (s\<lparr>con := c'\<rparr>)) \<and> cursor_ok c'"
proof -
  let ?m = "m_mem (mach s)"
  obtain n where n: "n < 100" "cstr ?m (fname func) n"
    using assms(1,2) by (auto simp: names_ok_def)
  have "formats ?m (''): '' @ fmt @ [CHR 0x0A]) args 1003"
    using vsprintf_text [of "''): ''" ?m "fmt @ [CHR 0x0A]" args] assms(4)
    by (auto simp: formats_def NUL_def)
  then have f: "formats ?m ('' '' @ ''%d'' @ (''): '' @ fmt @ [CHR 0x0A])) (line # args) 1157"
    by (rule formats_decimal [rotated]) (simp_all add: NUL_def)
  have "formats ?m (''Task_debug('' @ ''%s'' @ ('' '' @ ''%d'' @ (''): '' @ fmt @ [CHR 0x0A]))) (fname func # line # args) 4095"
    by (rule formats_string [OF _ f n(2)]) (use n(1) in \<open>simp_all add: NUL_def\<close>)
  from color_printk_returns [OF assms(3) this, of RED BLACK] show ?thesis
    by (auto simp: TASK_DEBUG_PRINT_def)
qed

lemma task_printf_con:
  assumes "cursor_ok c" and "formats (m_mem (mach s)) fmt args 4095"
  shows "\<exists>c'. task_printf fmt args (s\<lparr>con := c\<rparr>) = Some (Inr (s\<lparr>con := c'\<rparr>)) \<and> cursor_ok c'"
  using color_printk_returns [OF assms, of WHITE BLACK]
  by (auto simp: task_printf_def printf_def)

lemma formats_messages:
  "formats m (''=====enter====='' @ [CHR 0x0A]) [] 1000" "formats m (''=====exit====='' @ [CHR 0x0A]) [] 1000"
  "formats m (''alloc_pages, bitmap:%#018lx'' @ [CHR 0x0A]) [a] 1000"
  "formats m (''struct task_struct address:%#018lx'' @ [CHR 0x0A]) [a] 1000"
  "formats m (''fork rip:%#018lx rsp:%#018lx'' @ [CHR 0x0A]) [a, b] 1000"
  "formats m (''kernel_thread_func @ %p'' @ [CHR 0x0A]) [a] 1000"
  "formats m (''init task is running,arg:%#018lx'' @ [CHR 0x0A]) [a] 1000"
  "formats m (''exit task is running,arg:%#018lx'' @ [CHR 0x0A]) [a] 1000"
  "formats m (''prev->thread->rsp0:%#018lx'' @ [CHR 0x0A]) [a] 1000"
  "formats m (''next->thread->rsp0:%#018lx'' @ [CHR 0x0A]) [a] 1000"
proof -
  have nl: "formats m [CHR 0x0A] [] 1" by (rule formats_plain) (simp_all add: NUL_def)
  have hex: "formats m (s @ ''%#018lx'' @ [CHR 0x0A]) [a] 1000" if "plain s" "length s < 100" for s a
    by (rule formats_hex [OF that(1) nl]) (use that in simp)
  show "formats m (''=====enter====='' @ [CHR 0x0A]) [] 1000" "formats m (''=====exit====='' @ [CHR 0x0A]) [] 1000"
    by (rule formats_plain; simp add: NUL_def)+
  show "formats m (''alloc_pages, bitmap:%#018lx'' @ [CHR 0x0A]) [a] 1000"
    using hex [of "''alloc_pages, bitmap:''" a] by (simp add: NUL_def)
  show "formats m (''struct task_struct address:%#018lx'' @ [CHR 0x0A]) [a] 1000"
    using hex [of "''struct task_struct address:''" a] by (simp add: NUL_def)
  show "formats m (''init task is running,arg:%#018lx'' @ [CHR 0x0A]) [a] 1000"
    using hex [of "''init task is running,arg:''" a] by (simp add: NUL_def)
  show "formats m (''exit task is running,arg:%#018lx'' @ [CHR 0x0A]) [a] 1000"
    using hex [of "''exit task is running,arg:''" a] by (simp add: NUL_def)
  show "formats m (''prev->thread->rsp0:%#018lx'' @ [CHR 0x0A]) [a] 1000"
    using hex [of "''prev->thread->rsp0:''" a] by (simp add: NUL_def)
  show "formats m (''next->thread->rsp0:%#018lx'' @ [CHR 0x0A]) [a] 1000"
    using hex [of "''next->thread->rsp0:''" a] by (simp add: NUL_def)
  have "formats m ('' rsp:'' @ ''%#018lx'' @ [CHR 0x0A]) [b] 100"
    by (rule formats_hex [OF _ nl]) (simp_all add: NUL_def)
  then have "formats m (''fork rip:'' @ ''%#018lx'' @ ('' rsp:'' @ ''%#018lx'' @ [CHR 0x0A])) [a, b] 1000"
    by (rule formats_hex [rotated]) (simp_all add: NUL_def)
  then show "formats m (''fork rip:%#018lx rsp:%#018lx'' @ [CHR 0x0A]) [a, b] 1000" by simp
  have "formats m (''kernel_thread_func @ '' @ ''%p'' @ [CHR 0x0A]) [a] 1000"
    by (rule formats_pointer [OF _ nl]) (simp_all add: NUL_def)
  then show "formats m (''kernel_thread_func @ %p'' @ [CHR 0x0A]) [a] 1000" by simp
qed

lemma task_functions_mem:
  "''__switch_to'' \<in> set task_functions" "''init'' \<in> set task_functions" "''do_fork'' \<in> set task_functions"
  "''do_exit'' \<in> set task_functions" "''kernel_thread'' \<in> set task_functions" "''task_init'' \<in> set task_functions"
  by (simp_all add: task_functions_def)
section \<open>Stores and blocks\<close>

lemma upd_simps [simp]:
  "mach (thread_upd a f s) = mach s" "con (thread_upd a f s) = con s" "km (thread_upd a f s) = km s"
  "tasks (thread_upd a f s) = tasks s" "links (thread_upd a f s) = links s"
  "threads (thread_upd a f s) = (threads s)(a := f (threads s a))"
  "mach (task_upd b g s) = mach s" "con (task_upd b g s) = con s" "km (task_upd b g s) = km s"
  "tasks (task_upd b g s) = (tasks s)(b := g (tasks s b))" "links (task_upd b g s) = links s"
  "threads (task_upd b g s) = threads s"
  by (simp_all add: thread_upd_def task_upd_def)

lemma read64_cong: "(\<And>x. x \<in> block a 8 \<Longrightarrow> m' x = m x) \<Longrightarrow> read64 m' a = read64 m a"
  using load_cong [of a 8 m' m 0] by (simp add: read64_def)

lemma block_below:
  assumes "x \<in> block a n" and "n + 8 \<le> 2 ^ 64"
  shows "x \<notin> block (a - 8) 8"
proof
  assume "x \<in> block (a - 8) 8"
  then have "unat (x - (a - 8)) < 8" by (simp add: block_iff)
  moreover have "unat (x - a + of_nat 8) = unat (x - a) + 8"
    using assms by (intro unat_add_nat) (simp add: block_iff)
  moreover have "x - a + of_nat 8 = x - (a - 8)" by simp
  ultimately have "unat (x - a) + 8 < 8" by (simp only:)
  then show False by simp
qed

end
