(* ===== verification/Task_Fork.thy ===== *)
theory Task_Fork
  imports Task
begin

text \<open>
  What \<^verbatim>\<open>do_fork\<close> and \<^verbatim>\<open>kernel_thread\<close> of \<^verbatim>\<open>src/task.c\<close> make of the state: the child task, its thread, its
  saved frame, and the queue of tasks.
\<close>

section \<open>What \<open>do_fork\<close> makes\<close>

lemma con_commutes:
  "thread_upd a f (s\<lparr>con := c\<rparr>) = (thread_upd a f s)\<lparr>con := c\<rparr>"
  "task_upd b g (s\<lparr>con := c\<rparr>) = (task_upd b g s)\<lparr>con := c\<rparr>"
  "fork_task link tsk (s\<lparr>con := c\<rparr>) = (fork_task link tsk s)\<lparr>con := c\<rparr>"
  "fork_thread tsk regs (s\<lparr>con := c\<rparr>) = (fork_thread tsk regs s)\<lparr>con := c\<rparr>"
  "fork_user link tsk regs (s\<lparr>con := c\<rparr>) = (fork_user link tsk regs s)\<lparr>con := c\<rparr>"
  by (simp_all add: thread_upd_def task_upd_def fork_task_def fork_thread_def fork_user_def clear_task_def
      copy_task_def Let_def)

definition forked :: "(string \<Rightarrow> uintptr) \<Rightarrow> uintptr \<Rightarrow> uintptr \<Rightarrow> kstate \<Rightarrow> kstate" where
  "forked link tsk regs s =
     task_upd tsk (\<lambda>t. t\<lparr>ts_state := TASK_RUNNING\<rparr>) (fork_user link tsk regs (fork_thread tsk regs (fork_task link tsk s)))"

definition stack_frame :: "uintptr \<Rightarrow> uintptr" where
  "stack_frame tsk = tsk + STACK_SIZE - sizeof_pt_regs"

lemma fork_task_mach [simp]: "mach (fork_task link tsk s) = mach s" "threads (fork_task link tsk s) = threads s"
  by (simp_all add: fork_task_def clear_task_def copy_task_def Let_def)

lemma fork_thread_mem:
  assumes "block regs 192 \<inter> block (stack_frame tsk) 192 = {}"
  shows "m_mem (mach (fork_thread tsk regs s)) x =
    (if x \<in> block (stack_frame tsk) 192 then m_mem (mach s) (regs + (x - stack_frame tsk)) else m_mem (mach s) x)"
  using bo.copy_block [of regs sizeof_pt_regs "stack_frame tsk" "m_mem (mach s)" x] assms
  by (simp add: fork_thread_def Let_def sizeof_pt_regs_def stack_frame_def)

lemma regs_rip_block: "block (regs + RIP) 8 \<subseteq> block regs 192"
proof
  fix x
  assume "x \<in> block (regs + RIP) 8"
  then have "unat (x - (regs + RIP)) < 8" by (simp add: block_iff)
  moreover have "x - regs = (x - (regs + RIP)) + of_nat 0x98" by (simp add: RIP_def)
  ultimately show "x \<in> block regs 192"
    using unat_add_nat [of "x - (regs + RIP)" "0x98"] by (simp add: block_iff)
qed

lemma fork_user_mem:
  "x \<notin> block regs 192 \<Longrightarrow> m_mem (mach (fork_user link tsk regs s)) x = m_mem (mach s) x"
  using regs_rip_block [of regs] write64_outside [of x "regs + RIP"] by (auto simp: fork_user_def)

lemma do_fork_returns:
  assumes names: "names_ok N fname (m_mem (mach s))" and cursor: "cursor_ok (con s)"
    and alloc: "alloc_pages ZONE_NORMAL 1 (PG_PTable_Maped OR PG_Active OR PG_Kernel) (km s) = Some (Inr (k, Some page))"
    and tsk: "tsk = Phy_To_Virt (phy_addr (pages k (unat page)))"
    and apart: "block regs 192 \<inter> block (stack_frame tsk) 192 = {}" "block regs 192 \<inter> N = {}"
      "block (stack_frame tsk) 192 \<inter> N = {}"
  shows "\<exists>c. do_fork link fname regs clone_flags stack_start stack_size s =
      Some (Inr (0, (forked link tsk regs (s\<lparr>km := k\<rparr>))\<lparr>con := c\<rparr>)) \<and> cursor_ok c"
proof -
  define sk where "sk = s\<lparr>km := k\<rparr>"
  define s3 where "s3 = fork_thread tsk regs (fork_task link tsk sk)"
  define s4 where "s4 = task_upd tsk (\<lambda>t. t\<lparr>ts_state := TASK_RUNNING\<rparr>) (fork_user link tsk regs s3)"
  define thd where "thd = ts_thread (tasks s3 tsk)"
  have names_k: "names_ok N fname (m_mem (mach sk))" using names by (simp add: sk_def)
  have names3: "names_ok N fname (m_mem (mach s3))"
    by (rule names_ok_cong [OF names_k]) (use apart(3) in \<open>auto simp: s3_def fork_thread_mem [OF apart(1)]\<close>)
  have names4: "names_ok N fname (m_mem (mach s4))"
    by (rule names_ok_cong [OF names3]) (simp add: s4_def, rule fork_user_mem, use apart(2) in blast)
  note say = task_debug_con [OF _ task_functions_mem(3)]
  obtain c1 where c1: "TASK_DEBUG_PRINT fname ''do_fork'' 173 ''=====enter====='' [] s = Some (Inr (s\<lparr>con := c1\<rparr>))" "cursor_ok c1"
    using say [OF names cursor formats_messages(1)] by auto
  obtain c2 where c2: "TASK_DEBUG_PRINT fname ''do_fork'' 175 ''alloc_pages, bitmap:%#018lx'' [bits_map (km s) 0] (s\<lparr>con := c1\<rparr>) =
      Some (Inr (s\<lparr>con := c2\<rparr>))" "cursor_ok c2"
    using say [OF names c1(2) formats_messages(3)] by blast
  obtain c3 where c3: "TASK_DEBUG_PRINT fname ''do_fork'' 180 ''alloc_pages, bitmap:%#018lx'' [bits_map k 0] (sk\<lparr>con := c2\<rparr>) =
      Some (Inr (sk\<lparr>con := c3\<rparr>))" "cursor_ok c3"
    using say [OF names_k c2(2) formats_messages(3)] by blast
  obtain c4 where c4: "TASK_DEBUG_PRINT fname ''do_fork'' 185 ''struct task_struct address:%#018lx'' [tsk] (sk\<lparr>con := c3\<rparr>) =
      Some (Inr (sk\<lparr>con := c4\<rparr>))" "cursor_ok c4"
    using say [OF names_k c3(2) formats_messages(4)] by blast
  obtain c5 where c5: "TASK_DEBUG_PRINT fname ''do_fork'' 204 ''fork rip:%#018lx rsp:%#018lx'' [th_rip (threads s3 thd), th_rsp (threads s3 thd)]
      (s3\<lparr>con := c4\<rparr>) = Some (Inr (s3\<lparr>con := c5\<rparr>))" "cursor_ok c5"
    using say [OF names3 c4(2) formats_messages(5)] by blast
  obtain c6 where c6: "TASK_DEBUG_PRINT fname ''do_fork'' 210 ''=====exit====='' [] (s4\<lparr>con := c5\<rparr>) =
      Some (Inr (s4\<lparr>con := c6\<rparr>))" "cursor_ok c6"
    using say [OF names4 c5(2) formats_messages(2)] by blast
  have swap: "s\<lparr>con := c, km := k\<rparr> = sk\<lparr>con := c\<rparr>" for c by (simp add: sk_def)
  have k: "km sk = k" by (simp add: sk_def)
  have "do_fork link fname regs clone_flags stack_start stack_size s = Some (Inr (0, s4\<lparr>con := c6\<rparr>))"
    unfolding do_fork_def
    using c1 c2 c3 c4 c5 c6 alloc
    by (simp add: Let_def swap k con_commutes flip: s3_def s4_def thd_def tsk)
  with c6(2) show ?thesis by (auto simp: forked_def s4_def s3_def sk_def)
qed
lemma ring_frame:
  assumes "ring h a xs" and "n \<notin> set (a # xs)"
    and "\<And>p. p \<noteq> n \<Longrightarrow> lnext h' p = lnext h p \<and> lprev h' p = lprev h p"
  shows "ring h' a xs"
proof -
  have "\<forall>p \<in> set (a # xs). p \<noteq> n" using assms(2) by auto
  then have "chain h' a xs a"
    using assms(1) by (intro chain_frame [of a xs h' h a]) (auto simp: ring_def assms(3))
  with assms(1) show ?thesis by (simp add: ring_def)
qed

lemma forked_links:
  assumes "ring (links s) (link ''init_task_union'') xs" and "tsk \<notin> set (link ''init_task_union'' # xs)"
  shows "ring (links (forked link tsk regs s)) (link ''init_task_union'') (xs @ [tsk])"
proof -
  let ?init = "link ''init_task_union''"
  define h where "h = list_init tsk (links (copy_task tsk (get_current (mach s)) (clear_task tsk s)))"
  have "links (forked link tsk regs s) = list_add_to_before ?init tsk h"
    by (simp add: forked_def fork_user_def fork_thread_def fork_task_def h_def clear_task_def Let_def)
  moreover have "ring h ?init xs"
    by (rule ring_frame [OF assms])
      (simp add: h_def copy_task_def clear_task_def list_init_def)
  ultimately show ?thesis using assms(2) by (simp add: rq.rep_add)
qed

lemma forked_tasks:
  assumes "get_current (mach s) \<noteq> tsk"
  shows "tasks (forked link tsk regs s) = (tasks s)(tsk := (tasks s (get_current (mach s)))
    \<lparr>ts_pid := ts_pid (tasks s (get_current (mach s))) + 1, ts_state := TASK_RUNNING,
     ts_thread := tsk + sizeof_task_struct\<rparr>)"
  using assms by (auto simp: forked_def fork_user_def fork_thread_def fork_task_def clear_task_def copy_task_def Let_def)

lemma read64_moved:
  assumes "\<And>x. x \<in> block b 192 \<Longrightarrow> m' x = m (a + (x - b))" and "unat off \<le> 184"
  shows "read64 m' (b + off) = read64 m (a + off)"
proof -
  have "block (b + off) 8 \<subseteq> block b 192" by (rule block_inner) (use assms(2) in simp_all)
  then have "load m' (b + off) 8 = load m (b + off + (a - b)) 8"
    using assms(1) by (intro load_cong) (auto simp: algebra_simps)
  then show ?thesis by (simp add: read64_def algebra_simps)
qed

lemma read_pt_regs_moved:
  assumes "\<And>x. x \<in> block b 192 \<Longrightarrow> m' x = m (a + (x - b))"
  shows "read_pt_regs m' b = read_pt_regs m a"
  using read64_moved [of b m' m a, OF assms] read64_moved [of b m' m a 0, OF assms] by (simp add: read_pt_regs_def offset_defs)

lemma forked_frame:
  assumes "block regs 192 \<inter> block (stack_frame tsk) 192 = {}" and "x \<in> block (stack_frame tsk) 192"
  shows "m_mem (mach (forked link tsk regs s)) x = m_mem (mach s) (regs + (x - stack_frame tsk))"
proof -
  have "x \<notin> block regs 192" using assms by auto
  then have "m_mem (mach (forked link tsk regs s)) x = m_mem (mach (fork_thread tsk regs (fork_task link tsk s))) x"
    by (simp add: forked_def fork_user_mem)
  then show ?thesis using assms(2) by (simp add: fork_thread_mem [OF assms(1)])
qed

text \<open>The thread of the child: where it starts and with which stack.\<close>

lemma forked_thread:
  assumes "get_current (mach s) \<noteq> tsk" and "block regs 192 \<inter> block (stack_frame tsk) 192 = {}"
  shows "thread_of (forked link tsk regs s) tsk = (threads s (tsk + sizeof_task_struct))
    \<lparr>th_rsp0 := tsk + STACK_SIZE, th_rsp := stack_frame tsk,
     th_rip := (if ts_flags (tasks s (get_current (mach s))) AND PF_KTHREAD = 0 then link ''ret_from_intr''
                else read64 (m_mem (mach s)) (regs + RIP))\<rparr>"
proof -
  let ?f = "fork_thread tsk regs (fork_task link tsk s)" and ?c = "get_current (mach s)"
  have t: "ts_thread (tasks (forked link tsk regs s) tsk) = tsk + sizeof_task_struct"
    by (simp add: forked_tasks [OF assms(1)])
  have f: "ts_thread (tasks (fork_task link tsk s) tsk) = tsk + sizeof_task_struct"
    "ts_flags (tasks (fork_task link tsk s) tsk) = ts_flags (tasks s ?c)" "tasks ?f = tasks (fork_task link tsk s)"
    using assms(1) by (simp_all add: fork_thread_def fork_task_def clear_task_def copy_task_def Let_def)
  have "block (regs + RIP) 8 \<inter> block (stack_frame tsk) 192 = {}" using regs_rip_block [of regs] assms(2) by blast
  then have rip: "read64 (m_mem (mach ?f)) (regs + RIP) = read64 (m_mem (mach s)) (regs + RIP)"
    by (intro read64_cong) (auto simp: fork_thread_mem [OF assms(2)])
  have "mach ?f = (mach s)\<lparr>m_mem := memcpy (tsk + STACK_SIZE - sizeof_pt_regs) regs sizeof_pt_regs (m_mem (mach s))\<rparr>"
    by (simp add: fork_thread_def Let_def)
  then have rip': "read64 (memcpy (tsk + STACK_SIZE - sizeof_pt_regs) regs sizeof_pt_regs (m_mem (mach s))) (regs + RIP) =
      read64 (m_mem (mach s)) (regs + RIP)"
    using rip by simp
  have "threads ?f (tsk + sizeof_task_struct) = (threads s (tsk + sizeof_task_struct))
      \<lparr>th_rsp0 := tsk + STACK_SIZE, th_rip := read64 (m_mem (mach s)) (regs + RIP), th_rsp := stack_frame tsk\<rparr>"
    by (simp add: fork_thread_def Let_def f(1) stack_frame_def rip')
  then show ?thesis
    unfolding thread_of_def t by (simp add: forked_def fork_user_def f)
qed
section \<open>Starting a kernel thread\<close>

lemma kernel_thread_func_parts:
  "kernel_thread_func = map Pop (rev saved_regs @ [Rax]) @
     [ToDs Rax, Pop Rax, ToEs Rax, Pop Rax, AddI 0x38 Rsp, Mov Rdx Rdi]"
  by (simp add: kernel_thread_func_def saved_regs_def)

lemma kernel_thread_func_state:
  assumes "t = run kernel_thread_func s" and "m = m_mem s" and "sp = gpr s Rsp"
  shows "gpr t Rbx = read64 m (sp + RBX)" and "gpr t Rdi = read64 m (sp + RDX)" and "gpr t Rsp = sp + sizeof_pt_regs"
    and "m_ds t = ucast (read64 m (sp + DS))" and "m_es t = ucast (read64 m (sp + ES))" and "m_mem t = m"
proof -
  let ?rs = "rev saved_regs @ [Rax]"
  have out: "distinct ?rs" "Rsp \<notin> set ?rs" "length ?rs = 15" by (simp_all add: saved_regs_def)
  define g where "g = pops ?rs m sp (gpr s)"
  have nth: "i < 15 \<Longrightarrow> g (?rs ! i) = read64 m (sp + 8 * of_nat i)" for i
    unfolding g_def using pops_nth [OF out(1,2)] out(3) by simp
  have regs: "?rs ! 8 = Rbx" "?rs ! 10 = Rdx" "?rs ! 14 = Rax" by (simp_all add: saved_regs_def)
  have vals: "g Rbx = read64 m (sp + 0x40)" "g Rdx = read64 m (sp + 0x50)" "g Rax = read64 m (sp + 0x70)"
    using nth [of 8] nth [of 10] nth [of 14] unfolding regs by simp_all
  have rsp: "g Rsp = sp + 0x78" unfolding g_def using pops_sp [OF out(2), of m sp "gpr s"] out(3) by simp
  note r = assms(1) [unfolded kernel_thread_func_parts, unfolded run_append, unfolded run_pops [OF out(2)], folded assms(2,3), folded g_def]
  show "gpr t Rbx = read64 m (sp + RBX)" "gpr t Rdi = read64 m (sp + RDX)" "gpr t Rsp = sp + sizeof_pt_regs"
    "m_ds t = ucast (read64 m (sp + DS))" "m_es t = ucast (read64 m (sp + ES))" "m_mem t = m"
    unfolding r by (simp_all add: pop64_def Let_def rsp vals assms(2) offset_defs sizeof_pt_regs_def add.commute)
qed

lemma kernel_thread_regs_read:
  "read64 (kernel_thread_regs link regs fn arg m) (regs + RBX) = fn"
  "read64 (kernel_thread_regs link regs fn arg m) (regs + RDX) = arg"
  "read64 (kernel_thread_regs link regs fn arg m) (regs + DS) = 0x10"
  "read64 (kernel_thread_regs link regs fn arg m) (regs + ES) = 0x10"
  "read64 (kernel_thread_regs link regs fn arg m) (regs + RIP) = link ''kernel_thread_func''"
  by (simp_all add: kernel_thread_regs_def Let_def offset_defs q8.rd_same q8.rd_other KERNEL_DS_def)

lemma kernel_thread_regs_outside:
  assumes "x \<notin> block regs 192"
  shows "kernel_thread_regs link regs fn arg m x = m x"
proof -
  have "x \<notin> block (regs + off) 8" if "unat off \<le> 184" for off
    using block_inner [of off 8 192 regs] that assms by auto
  then have w: "unat off \<le> 184 \<Longrightarrow> write64 (regs + off) v n x = n x" for off v n
    by (intro write64_outside) simp
  have "memset regs 0 sizeof_pt_regs m x = m x"
    using assms bo.fill_block [of regs 0 sizeof_pt_regs m x] by (simp add: sizeof_pt_regs_def)
  then show ?thesis
    by (simp add: kernel_thread_regs_def Let_def w offset_defs)
qed

lemma mach_con_simps [simp]: "get_current (m\<lparr>m_mem := v\<rparr>) = get_current m"
  by (simp add: get_current_def)

lemma kernel_thread_returns:
  assumes names: "names_ok N fname (m_mem (mach s))" and cursor: "cursor_ok (con s)"
    and alloc: "alloc_pages ZONE_NORMAL 1 (PG_PTable_Maped OR PG_Active OR PG_Kernel) (km s) = Some (Inr (k, Some page))"
    and tsk: "tsk = Phy_To_Virt (phy_addr (pages k (unat page)))"
    and apart: "block regs 192 \<inter> block (stack_frame tsk) 192 = {}" "block regs 192 \<inter> N = {}"
      "block (stack_frame tsk) 192 \<inter> N = {}"
  shows "\<exists>c. kernel_thread link fname regs fn arg flags s = Some (Inr (0, (forked link tsk regs
      (s\<lparr>mach := (mach s)\<lparr>m_mem := kernel_thread_regs link regs fn arg (m_mem (mach s))\<rparr>, km := k\<rparr>))\<lparr>con := c\<rparr>)) \<and> cursor_ok c"
proof -
  define s1 where "s1 = s\<lparr>mach := (mach s)\<lparr>m_mem := kernel_thread_regs link regs fn arg (m_mem (mach s))\<rparr>\<rparr>"
  have names1: "names_ok N fname (m_mem (mach s1))"
    by (rule names_ok_cong [OF names]) (simp add: s1_def, rule kernel_thread_regs_outside, use apart(2) in blast)
  note say = task_debug_con [OF _ task_functions_mem(5)]
  obtain c1 where c1: "TASK_DEBUG_PRINT fname ''kernel_thread'' 252 ''=====enter====='' [] s = Some (Inr (s\<lparr>con := c1\<rparr>))" "cursor_ok c1"
    using say [OF names cursor formats_messages(1)] by auto
  obtain c2 where c2: "TASK_DEBUG_PRINT fname ''kernel_thread'' 265 ''=====exit====='' [] (s1\<lparr>con := c1\<rparr>) = Some (Inr (s1\<lparr>con := c2\<rparr>))" "cursor_ok c2"
    using say [OF names1 c1(2) formats_messages(2)] by blast
  obtain c3 where c3: "TASK_DEBUG_PRINT fname ''kernel_thread'' 266 ''kernel_thread_func @ %p'' [link ''kernel_thread_func''] (s1\<lparr>con := c2\<rparr>) =
      Some (Inr (s1\<lparr>con := c3\<rparr>))" "cursor_ok c3"
    using say [OF names1 c2(2) formats_messages(6)] by blast
  have "km (s1\<lparr>con := c3\<rparr>) = km s" by (simp add: s1_def)
  with alloc obtain c where c: "do_fork link fname regs flags 0 0 (s1\<lparr>con := c3\<rparr>) =
      Some (Inr (0, (forked link tsk regs (s1\<lparr>con := c3, km := k\<rparr>))\<lparr>con := c\<rparr>))" "cursor_ok c"
    using do_fork_returns [of N fname "s1\<lparr>con := c3\<rparr>" k page tsk regs link flags 0 0] names1 c3(2) tsk apart by auto
  have swap: "s\<lparr>con := d, mach := (mach s)\<lparr>m_mem := kernel_thread_regs link regs fn arg (m_mem (mach s))\<rparr>\<rparr> = s1\<lparr>con := d\<rparr>" for d
    by (simp add: s1_def)
  have "kernel_thread link fname regs fn arg flags s = Some (Inr (0, (forked link tsk regs (s1\<lparr>con := c3, km := k\<rparr>))\<lparr>con := c\<rparr>))"
    unfolding kernel_thread_def using c1(1) c2(1) c3(1) c(1) by (simp add: Let_def swap)
  moreover have "(forked link tsk regs (s1\<lparr>con := c3, km := k\<rparr>))\<lparr>con := c\<rparr> = (forked link tsk regs (s1\<lparr>km := k\<rparr>))\<lparr>con := c\<rparr>"
  proof -
    have "s1\<lparr>con := c3, km := k\<rparr> = (s1\<lparr>km := k\<rparr>)\<lparr>con := c3\<rparr>" by simp
    then show ?thesis unfolding forked_def by (simp only: con_commutes) simp
  qed
  ultimately show ?thesis using c(2) by (auto simp: s1_def)
qed
section \<open>Properties\<close>

text \<open>
  A state \<open>do_fork\<close> can run in: the messages can be printed, \<^verbatim>\<open>alloc_pages\<close> has a page, from which
  the address \<open>tsk\<close> of the new task comes, and the saved registers, the new stack's top and the names
  do not overlap.
\<close>

definition fork_ready :: "uintptr set \<Rightarrow> (string \<Rightarrow> uintptr) \<Rightarrow> uintptr \<Rightarrow> uintptr \<Rightarrow> kmem \<Rightarrow> kstate \<Rightarrow> bool" where
  "fork_ready N fname regs tsk k s \<longleftrightarrow>
     names_ok N fname (m_mem (mach s)) \<and> cursor_ok (con s) \<and> get_current (mach s) \<noteq> tsk \<and>
     (\<exists>page. alloc_pages ZONE_NORMAL 1 (PG_PTable_Maped OR PG_Active OR PG_Kernel) (km s) = Some (Inr (k, Some page)) \<and>
       tsk = Phy_To_Virt (phy_addr (pages k (unat page)))) \<and>
     block regs 192 \<inter> block (stack_frame tsk) 192 = {} \<and> block regs 192 \<inter> N = {} \<and> block (stack_frame tsk) 192 \<inter> N = {}"

text \<open>
  Property C18: \<^verbatim>\<open>do_fork\<close> makes one child of the current task and touches no other. It returns 0; the
  child is a copy of the current task except for its process number, one more than its parent's,
  its state, now running, and its own thread; it is the last task of the queue; it will start with
  the saved registers at the top of its own stack, at the address they name, or at
  \<^verbatim>\<open>ret_from_intr\<close> when it is not a kernel thread.
\<close>

theorem do_fork_child:
  assumes "fork_ready N fname regs tsk k s" and "ring (links s) (link ''init_task_union'') xs"
    and "tsk \<notin> set (link ''init_task_union'' # xs)" and "parent = tasks s (get_current (mach s))"
  shows "\<exists>s'. do_fork link fname regs clone_flags stack_start stack_size s = Some (Inr (0, s')) \<and>
    tasks s' = (tasks s)(tsk := parent\<lparr>ts_pid := ts_pid parent + 1, ts_state := TASK_RUNNING,
      ts_thread := tsk + sizeof_task_struct\<rparr>) \<and>
    ring (links s') (link ''init_task_union'') (xs @ [tsk]) \<and> km s' = k \<and>
    th_rsp0 (thread_of s' tsk) = tsk + STACK_SIZE \<and>
    th_rsp (thread_of s' tsk) = tsk + STACK_SIZE - sizeof_pt_regs \<and>
    read_pt_regs (m_mem (mach s')) (th_rsp (thread_of s' tsk)) = read_pt_regs (m_mem (mach s)) regs \<and>
    th_rip (thread_of s' tsk) = (if ts_flags parent AND PF_KTHREAD = 0 then link ''ret_from_intr''
      else pt_rip (read_pt_regs (m_mem (mach s)) regs))"
proof -
  let ?sk = "s\<lparr>km := k\<rparr>" and ?init = "link ''init_task_union''"
  from assms(1) obtain page where ready: "names_ok N fname (m_mem (mach s))" "cursor_ok (con s)"
    "get_current (mach s) \<noteq> tsk"
    "alloc_pages ZONE_NORMAL 1 (PG_PTable_Maped OR PG_Active OR PG_Kernel) (km s) = Some (Inr (k, Some page))"
    "tsk = Phy_To_Virt (phy_addr (pages k (unat page)))"
    and apart: "block regs 192 \<inter> block (stack_frame tsk) 192 = {}" "block regs 192 \<inter> N = {}"
    "block (stack_frame tsk) 192 \<inter> N = {}"
    by (auto simp: fork_ready_def)
  obtain c where c: "do_fork link fname regs clone_flags stack_start stack_size s =
      Some (Inr (0, (forked link tsk regs ?sk)\<lparr>con := c\<rparr>))"
    using do_fork_returns [OF ready(1,2,4,5) apart] by blast
  have cur: "get_current (mach ?sk) \<noteq> tsk" using ready(3) by simp
  have "ring (links (forked link tsk regs ?sk)) ?init (xs @ [tsk])"
    by (rule forked_links) (use assms(2,3) in simp_all)
  moreover have "read_pt_regs (m_mem (mach (forked link tsk regs ?sk))) (stack_frame tsk) = read_pt_regs (m_mem (mach s)) regs"
    using read_pt_regs_moved [of "stack_frame tsk" "m_mem (mach (forked link tsk regs ?sk))" "m_mem (mach s)" regs]
      forked_frame [OF apart(1), of _ link ?sk] by simp
  moreover have "km (forked link tsk regs ?sk) = k"
    by (simp add: forked_def fork_user_def fork_thread_def fork_task_def clear_task_def copy_task_def Let_def)
  ultimately show ?thesis
    using c forked_tasks [OF cur, of link regs] forked_thread [OF cur apart(1), of link]
    by (simp add: assms(4) thread_of_def stack_frame_def read_pt_regs_def)
qed
text \<open>
  A kernel as the witnesses need it: three free pages, the initial task at the linker's address and
  current, its list initialised, names that are empty strings at \<^verbatim>\<open>0x500\<close>, a console.
\<close>

definition kernel_link :: "string \<Rightarrow> uintptr" where
  "kernel_link f = (if f = ''init_task_union'' then 0xffff800000180000
     else if f = ''init_thread'' then 0xffff800000190000
     else if f = ''init'' then 0xffff800000104000 else 0xffff800000105000)"

definition idle_kernel :: "kmem \<Rightarrow> kstate" where
  "idle_kernel k = \<lparr>mach = interrupted\<lparr>gpr := (\<lambda>r. if r = Rsp then 0xffff800000187f00 else 0), m_mem := (\<lambda>_. 0)\<rparr>,
     fs_reg = 0x10, gs_reg = 0x10, km = k, con = wide_screen,
     tasks = (\<lambda>_. INIT_TASK kernel_link), threads = (\<lambda>_. init_thread kernel_link),
     links = list_init 0xffff800000180000 \<lparr>lprev = \<lambda>_. 0, lnext = \<lambda>_. 0\<rparr>,
     init_mm = \<lparr>mm_pgd = 0, mm_start_code = 0, mm_end_code = 0, mm_start_data = 0, mm_end_data = 0,
       mm_start_rodata = 0, mm_end_rodata = 0, mm_start_brk = 0, mm_end_brk = 0, mm_start_stack = 0\<rparr>,
     init_tss = INIT_TSS kernel_link, tss64 = (\<lambda>_. 0)\<rparr>"

lemma names_ok_zero: "names_ok {0x500} (\<lambda>_. 0x500) (\<lambda>_. 0)"
  unfolding names_ok_def by (auto simp: block_iff unat_eq_zero intro!: exI [of _ 0])

lemma blocks_disjoint:
  assumes "unat a + n \<le> unat b" and "unat b + m \<le> 2 ^ 64"
  shows "block a n \<inter> block b m = {}"
proof -
  have lt: "unat x < unat b" if "x \<in> block a n" for x
  proof -
    have "unat (a + (x - a)) = unat a + unat (x - a)"
      using that assms by (intro unat_add_small) (simp add: block_iff)
    then show ?thesis using that assms by (simp add: block_iff)
  qed
  have ge: "unat b \<le> unat x" if "x \<in> block b m" for x
  proof -
    have "unat (b + (x - b)) = unat b + unat (x - b)"
      using that assms by (intro unat_add_small) (simp add: block_iff)
    then show ?thesis by simp
  qed
  show ?thesis using lt ge by fastforce
qed

lemma idle_kernel_alloc:
  "\<exists>k P. alloc_pages ZONE_NORMAL 1 (PG_PTable_Maped OR PG_Active OR PG_Kernel) three_pages = Some (Inr (k, Some (of_nat P))) \<and>
     P \<in> {1, 2, 3} \<and> phy_addr (pages k P) = page_addr P"
proof -
  have "first_word_run three_pages 1 1"
    unfolding first_word_run_def three_pages_free three_pages_zone by auto
  moreover have "PG_PTable_Maped OR PG_Active OR PG_Kernel \<noteq> 0"
    by (simp add: PG_PTable_Maped_def PG_Active_def PG_Kernel_def)
  ultimately obtain P k where "alloc_pages ZONE_NORMAL 1 (PG_PTable_Maped OR PG_Active OR PG_Kernel) three_pages =
      Some (Inr (k, Some (of_nat P)))" "\<forall>l < 1. \<not> bm_test (bits_map three_pages) (P + l)"
    "\<forall>x. pages k x = (if P \<le> x \<and> x < P + 1 then (pages three_pages x)
       \<lparr>p_attribute := PG_PTable_Maped OR PG_Active OR PG_Kernel, ref_cnt := 1\<rparr> else pages three_pages x)"
    using alloc_run_claimed [OF three_pages_inv, of 1 "PG_PTable_Maped OR PG_Active OR PG_Kernel" 1, unfolded three_pages_zone]
    unfolding three_pages_free by simp blast
  then show ?thesis
    unfolding three_pages_free by (intro exI [of _ k] exI [of _ P]) (auto simp: three_pages_def)
qed

lemma idle_kernel_ready:
  "\<exists>tsk k. fork_ready {0x500} (\<lambda>_. 0x500) 0x9000 tsk k (idle_kernel three_pages) \<and> 0xffff800000200000 \<le> tsk \<and>
     tsk \<le> 0xffff800000600000"
proof -
  obtain k P where k: "alloc_pages ZONE_NORMAL 1 (PG_PTable_Maped OR PG_Active OR PG_Kernel) three_pages =
      Some (Inr (k, Some (of_nat P)))" "P \<in> {1, 2, 3}" "phy_addr (pages k P) = page_addr P"
    using idle_kernel_alloc by blast
  define tsk where "tsk = Phy_To_Virt (page_addr P)"
  have tsk: "tsk \<in> {0xffff800000200000, 0xffff800000400000, 0xffff800000600000}"
    using k(2) by (auto simp: tsk_def Phy_To_Virt_def PAGE_OFFSET_def page_addr_def PAGE_2M_SIZE_num)
  then have f: "stack_frame tsk \<in> {0xffff800000207f40, 0xffff800000407f40, 0xffff800000607f40}"
    by (auto simp: stack_frame_def STACK_SIZE_def sizeof_pt_regs_def)
  have "block 0x9000 192 \<inter> block (stack_frame tsk) 192 = {}"
    by (rule blocks_disjoint) (use f in auto)
  moreover have "block 0x9000 192 \<inter> {0x500} = {}" "block (stack_frame tsk) 192 \<inter> {0x500} = {}"
    using f by (auto simp: block_iff)
  moreover have "get_current (mach (idle_kernel three_pages)) \<noteq> tsk"
    using tsk by (auto simp: get_current_def idle_kernel_def)
  moreover have "unat (of_nat P :: uint64) = P" using k(2) by auto
  ultimately have "fork_ready {0x500} (\<lambda>_. 0x500) 0x9000 tsk k (idle_kernel three_pages)"
    using k names_ok_zero unfolding fork_ready_def by (auto simp: idle_kernel_def tsk_def)
  moreover have "0xffff800000200000 \<le> tsk \<and> tsk \<le> 0xffff800000600000" using tsk by auto
  ultimately show ?thesis by blast
qed

theorem do_fork_child_witness:
  "\<exists>s' tsk. do_fork kernel_link (\<lambda>_. 0x500) 0x9000 0 0 0 (idle_kernel three_pages) = Some (Inr (0, s')) \<and>
     ts_pid (tasks s' tsk) = 1 \<and> ring (links s') 0xffff800000180000 [tsk]"
proof -
  obtain tsk k where r: "fork_ready {0x500} (\<lambda>_. 0x500) 0x9000 tsk k (idle_kernel three_pages)" "0xffff800000200000 \<le> tsk"
    using idle_kernel_ready by blast
  have "ring (links (idle_kernel three_pages)) (kernel_link ''init_task_union'') []"
    by (simp add: idle_kernel_def kernel_link_def ring_init)
  moreover have "tsk \<notin> set [kernel_link ''init_task_union'']"
    using r(2) by (auto simp: kernel_link_def)
  ultimately show ?thesis
    using do_fork_child [OF r(1) _ _ refl, of kernel_link "[]" 0 0 0]
    by (force simp: kernel_link_def idle_kernel_def INIT_TASK_def)
qed

text \<open>
  Property C40: \<^verbatim>\<open>do_fork\<close> does not check the page it asked for. When \<^verbatim>\<open>alloc_pages\<close> has none and
  returns a null pointer, \<^verbatim>\<open>do_fork\<close> reads the address of the page through it.
\<close>

theorem do_fork_out_of_pages:
  assumes "names_ok N fname (m_mem (mach s))" and "cursor_ok (con s)"
    and "alloc_pages ZONE_NORMAL 1 (PG_PTable_Maped OR PG_Active OR PG_Kernel) (km s) = Some (Inr (k, None))"
  shows "do_fork link fname regs clone_flags stack_start stack_size s = Some (Inl NullDeref)"
proof -
  note say = task_debug_con [OF _ task_functions_mem(3)]
  obtain c1 where c1: "TASK_DEBUG_PRINT fname ''do_fork'' 173 ''=====enter====='' [] s = Some (Inr (s\<lparr>con := c1\<rparr>))" "cursor_ok c1"
    using say [OF assms(1,2) formats_messages(1)] by auto
  obtain c2 where c2: "TASK_DEBUG_PRINT fname ''do_fork'' 175 ''alloc_pages, bitmap:%#018lx'' [bits_map (km s) 0] (s\<lparr>con := c1\<rparr>) =
      Some (Inr (s\<lparr>con := c2\<rparr>))" "cursor_ok c2"
    using say [OF assms(1) c1(2) formats_messages(3)] by blast
  define sk where "sk = s\<lparr>km := k\<rparr>"
  have names: "names_ok N fname (m_mem (mach sk))" using assms(1) by (simp add: sk_def)
  obtain c3 where c3: "TASK_DEBUG_PRINT fname ''do_fork'' 180 ''alloc_pages, bitmap:%#018lx'' [bits_map k 0] (sk\<lparr>con := c2\<rparr>) =
      Some (Inr (sk\<lparr>con := c3\<rparr>))"
    using say [OF names c2(2) formats_messages(3)] by blast
  have swap: "s\<lparr>con := c, km := k\<rparr> = sk\<lparr>con := c\<rparr>" for c by (simp add: sk_def)
  show ?thesis unfolding do_fork_def using c1(1) c2(1) c3 assms(3) by (simp add: swap)
qed

theorem do_fork_out_of_pages_witness:
  "do_fork kernel_link (\<lambda>_. 0x500) 0x9000 0 0 0 (idle_kernel memory_management_struct) = Some (Inl NullDeref)"
proof -
  have "zone_search memory_management_struct 1 0 = None"
    by (simp add: zone_search_def memory_management_struct_def zero_Zone_def)
  then have "alloc_pages ZONE_NORMAL 1 (PG_PTable_Maped OR PG_Active OR PG_Kernel) memory_management_struct =
      Some (Inr (memory_management_struct, None))"
    by (simp add: alloc_pages_def ZONE_NORMAL_def ZONE_DMA_def alloc_zones.simps memory_management_struct_def)
  then show ?thesis
    by (intro do_fork_out_of_pages [of "{0x500}"]) (simp_all add: idle_kernel_def names_ok_zero)
qed

end
