(* ===== verification/Task_Switch.thy ===== *)
theory Task_Switch
  imports Task_Fork
begin

text \<open>
  The context switch of \<^verbatim>\<open>src/task.c\<close>: what \<^verbatim>\<open>switch_to\<close> and \<^verbatim>\<open>__switch_to\<close> save and load, and the way
  there and back.
\<close>

section \<open>The switch\<close>

definition switched :: "uintptr \<Rightarrow> uintptr \<Rightarrow> kstate \<Rightarrow> kstate" where
  "switched prev nxt s =
     swap_segments prev nxt (set_tss_from (s\<lparr>init_tss := (init_tss s)\<lparr>tss_rsp0 := th_rsp0 (thread_of s nxt)\<rparr>\<rparr>))"

lemma switched_simps [simp]:
  "mach (switched prev nxt s) = mach s" "tasks (switched prev nxt s) = tasks s" "km (switched prev nxt s) = km s"
  "con (switched prev nxt s) = con s" "links (switched prev nxt s) = links s"
  by (simp_all add: switched_def swap_segments_def set_tss_from_def thread_upd_def Let_def)

lemma switched_con: "switched prev nxt (s\<lparr>con := c\<rparr>) = (switched prev nxt s)\<lparr>con := c\<rparr>"
  by (simp add: switched_def swap_segments_def set_tss_from_def thread_upd_def thread_of_def Let_def)

lemma formats_printf:
  "formats m (''curren:'' @ [CHR 0x0A]) [] 4095" "formats m (''next:'' @ [CHR 0x0A]) [] 4095"
  "formats m ''rip: %#018lx'' [a] 4095" "formats m '' rsp: %#018lx'' [a] 4095"
  "formats m (CHR 0x0A # ''fs: %#018lx'') [a] 4095" "formats m ('' gs: %#018lx'' @ [CHR 0x0A]) [a] 4095"
proof -
  have nl: "formats m [CHR 0x0A] [] 1" and e: "formats m [] [] 1" by (rule formats_plain; simp add: NUL_def)+
  show "formats m (''curren:'' @ [CHR 0x0A]) [] 4095" "formats m (''next:'' @ [CHR 0x0A]) [] 4095"
    by (rule formats_plain; simp add: NUL_def)+
  show "formats m ''rip: %#018lx'' [a] 4095"
    using formats_hex [OF _ e, of "''rip: ''" 4095 a] by (simp add: NUL_def)
  show "formats m '' rsp: %#018lx'' [a] 4095"
    using formats_hex [OF _ e, of "'' rsp: ''" 4095 a] by (simp add: NUL_def)
  show "formats m (CHR 0x0A # ''fs: %#018lx'') [a] 4095"
    using formats_hex [OF _ e, of "CHR 0x0A # ''fs: ''" 4095 a] by (simp add: NUL_def)
  show "formats m ('' gs: %#018lx'' @ [CHR 0x0A]) [a] 4095"
    using formats_hex [OF _ nl, of "'' gs: ''" 4095 a] by (simp add: NUL_def)
qed

text \<open>A message followed by the rest: what the rest returns for every console.\<close>

lemma debug_then:
  assumes "names_ok N fname (m_mem (mach s))" and "func \<in> set task_functions" and "cursor_ok c"
    and "formats (m_mem (mach s)) (fmt @ [CHR 0x0A]) args 1000"
    and "\<And>c'. cursor_ok c' \<Longrightarrow> P (f (s\<lparr>con := c'\<rparr>))"
  shows "P (bindT (TASK_DEBUG_PRINT fname func line fmt args (s\<lparr>con := c\<rparr>)) f)"
  using task_debug_con [OF assms(1-4), where line = line] assms(5) by auto

lemma printf_then:
  assumes "cursor_ok c" and "formats (m_mem (mach s)) fmt args 4095"
    and "\<And>c'. cursor_ok c' \<Longrightarrow> P (f (s\<lparr>con := c'\<rparr>))"
  shows "P (bindT (task_printf fmt args (s\<lparr>con := c\<rparr>)) f)"
  using task_printf_con [OF assms(1,2)] assms(3) by auto

lemma switch_to_c_returns:
  assumes names: "names_ok N fname (m_mem (mach s))" and cursor: "cursor_ok c0"
  shows "\<exists>c. switch_to_c fname prev nxt (s\<lparr>con := c0\<rparr>) = Some (Inr ((switched prev nxt s)\<lparr>con := c\<rparr>)) \<and> cursor_ok c"
proof -
  let ?Q = "\<lambda>r. \<exists>c. r = Some (Inr ((switched prev nxt s)\<lparr>con := c\<rparr>)) \<and> cursor_ok c"
  have names': "names_ok N fname (m_mem (mach (switched prev nxt s)))" using names by simp
  have fold: "swap_segments prev nxt (set_tss_from ((s\<lparr>con := c\<rparr>)\<lparr>init_tss := (init_tss (s\<lparr>con := c\<rparr>))
      \<lparr>tss_rsp0 := th_rsp0 (thread_of (s\<lparr>con := c\<rparr>) nxt)\<rparr>\<rparr>)) = (switched prev nxt s)\<lparr>con := c\<rparr>" for c
    using switched_con [where prev = prev and nxt = nxt and s = s and c = c] by (simp add: switched_def)
  show ?thesis
    unfolding switch_to_c_def Let_def
    by (rule debug_then [where P = ?Q, OF names task_functions_mem(1) cursor formats_messages(1)], unfold fold,
        rule debug_then [where P = ?Q, OF names' task_functions_mem(1) _ formats_messages(9)], assumption,
        rule debug_then [where P = ?Q, OF names' task_functions_mem(1) _ formats_messages(10)], assumption,
        rule debug_then [where P = ?Q, OF names' task_functions_mem(1) _ formats_messages(2)], assumption,
        (rule printf_then [where P = ?Q], assumption, rule formats_printf)+,
        rule task_printf_con)
      (simp_all only: formats_printf switched_simps)
qed

lemma switch_stacks_con: "switch_stacks link prev nxt (s\<lparr>con := c\<rparr>) = (switch_stacks link prev nxt s)\<lparr>con := c\<rparr>"
  by (simp add: switch_stacks_def thread_upd_def thread_of_def Let_def)

definition switch_result :: "(string \<Rightarrow> uintptr) \<Rightarrow> uintptr \<Rightarrow> uintptr \<Rightarrow> kstate \<Rightarrow> kstate" where
  "switch_result link prev nxt s =
     (let t = switched prev nxt (switch_stacks link prev nxt (s\<lparr>mach := set_reg Rsi nxt (set_reg Rdi prev (mach s))\<rparr>))
      in t\<lparr>mach := ret (mach t)\<rparr>)"

text \<open>What a switch pushes on the two stacks: two registers, and the address it returns to.\<close>

definition switch_mem :: "uintptr \<Rightarrow> kstate \<Rightarrow> mem8" where
  "switch_mem nxt s = write64 (th_rsp (thread_of s nxt) - 8) (th_rip (thread_of s nxt))
     (pushes write64 (gpr (mach s) Rsp) [gpr (mach s) Rbp, gpr (mach s) Rax] (m_mem (mach s)))"

lemma switch_stacks_state:
  assumes "ts_thread (tasks s prev) \<noteq> ts_thread (tasks s nxt)" and "t = switch_stacks link prev nxt s"
  shows "threads t = (threads s)(ts_thread (tasks s prev) := (thread_of s prev)
      \<lparr>th_rsp := gpr (mach s) Rsp - 16, th_rip := link ''1f''\<rparr>)"
    and "gpr (mach t) = (gpr (mach s))(Rsp := th_rsp (thread_of s nxt) - 8, Rax := link ''1f'')"
    and "m_mem (mach t) = switch_mem nxt s" and "tasks t = tasks s" and "km t = km s" and "con t = con s"
    and "fs_reg t = fs_reg s" and "gs_reg t = gs_reg s" and "links t = links s"
    and "m_ds (mach t) = m_ds (mach s)" and "m_es (mach t) = m_es (mach s)"
  using assms(1) unfolding assms(2) switch_mem_def
  by (simp_all add: switch_stacks_def thread_of_def thread_upd_def push64_def Let_def fun_upd_twist)

lemma switched_threads:
  assumes "ts_thread (tasks s prev) \<noteq> ts_thread (tasks s nxt)"
  shows "threads (switched prev nxt s) = (threads s)(ts_thread (tasks s prev) := (thread_of s prev)
      \<lparr>th_fs := ucast (fs_reg s), th_gs := ucast (gs_reg s)\<rparr>)"
    and "fs_reg (switched prev nxt s) = ucast (th_fs (thread_of s nxt))"
    and "gs_reg (switched prev nxt s) = ucast (th_gs (thread_of s nxt))"
  using assms by (simp_all add: switched_def swap_segments_def set_tss_from_def thread_upd_def thread_of_def Let_def)

text \<open>
  The whole switch: the old thread keeps its stack, the label and its segments; execution goes on
  at the new thread's address with its stack.
\<close>

lemma switch_result_state:
  assumes "ts_thread (tasks s prev) \<noteq> ts_thread (tasks s nxt)" and "t = switch_result link prev nxt s"
  shows "threads t = (threads s)(ts_thread (tasks s prev) := (thread_of s prev)
      \<lparr>th_rsp := gpr (mach s) Rsp - 16, th_rip := link ''1f'', th_fs := ucast (fs_reg s), th_gs := ucast (gs_reg s)\<rparr>)"
    and "gpr (mach t) Rsp = th_rsp (thread_of s nxt)" and "m_rip (mach t) = th_rip (thread_of s nxt)"
    and "m_mem (mach t) = switch_mem nxt s" and "tasks t = tasks s"
    and "fs_reg t = ucast (th_fs (thread_of s nxt))" and "gs_reg t = ucast (th_gs (thread_of s nxt))"
proof -
  define s0 where "s0 = s\<lparr>mach := set_reg Rsi nxt (set_reg Rdi prev (mach s))\<rparr>"
  define s1 where "s1 = switch_stacks link prev nxt s0"
  have t: "t = (switched prev nxt s1)\<lparr>mach := ret (mach s1)\<rparr>"
    by (simp add: assms(2) switch_result_def s1_def s0_def Let_def)
  have same: "thread_of s0 = thread_of s" "tasks s0 = tasks s" "threads s0 = threads s" "fs_reg s0 = fs_reg s" "gs_reg s0 = gs_reg s"
    "m_mem (mach s0) = m_mem (mach s)" "switch_mem nxt s0 = switch_mem nxt s" "gpr (mach s0) Rsp = gpr (mach s) Rsp"
    by (simp_all add: s0_def thread_of_def switch_mem_def fun_eq_iff)
  have d0: "ts_thread (tasks s0 prev) \<noteq> ts_thread (tasks s0 nxt)" using assms(1) same by simp
  note st = switch_stacks_state [OF d0 s1_def, unfolded same]
  have d1: "ts_thread (tasks s1 prev) \<noteq> ts_thread (tasks s1 nxt)" using assms(1) st(4) by simp
  note sw = switched_threads [OF d1]
  have nxt: "thread_of s1 nxt = thread_of s nxt"
    using assms(1) by (simp add: thread_of_def st(1,4))
  show "threads t = (threads s)(ts_thread (tasks s prev) := (thread_of s prev)
      \<lparr>th_rsp := gpr (mach s) Rsp - 16, th_rip := link ''1f'', th_fs := ucast (fs_reg s), th_gs := ucast (gs_reg s)\<rparr>)"
    unfolding t by (simp add: sw st thread_of_def)
  show "fs_reg t = ucast (th_fs (thread_of s nxt))" "gs_reg t = ucast (th_gs (thread_of s nxt))"
    unfolding t by (simp_all add: sw nxt)
  show "gpr (mach t) Rsp = th_rsp (thread_of s nxt)" "m_mem (mach t) = switch_mem nxt s" "tasks t = tasks s"
    unfolding t by (simp_all add: ret_def pop64_def st)
  show "m_rip (mach t) = th_rip (thread_of s nxt)"
    unfolding t by (simp add: ret_def pop64_def st switch_mem_def q8.rd_same)
qed

lemma switch_mem_outside:
  assumes "x \<notin> block (gpr (mach s) Rsp - 16) 16" and "x \<notin> block (th_rsp (thread_of s nxt) - 8) 8"
  shows "switch_mem nxt s x = m_mem (mach s) x"
proof -
  let ?sp = "gpr (mach s) Rsp"
  have "block (?sp - 16 + 8) 8 \<subseteq> block (?sp - 16) 16" "block (?sp - 16 + 0) 8 \<subseteq> block (?sp - 16) 16"
    by (rule block_inner; simp)+
  then have "x \<notin> block (?sp - 8) 8" "x \<notin> block (?sp - 16) 8" using assms(1) by auto
  with assms(2) show ?thesis by (simp add: switch_mem_def write64_outside)
qed

lemma switch_to_returns:
  assumes names: "names_ok N fname (m_mem (mach s))" and cursor: "cursor_ok (con s)"
    and diff: "ts_thread (tasks s prev) \<noteq> ts_thread (tasks s nxt)"
    and apart: "block (gpr (mach s) Rsp - 16) 16 \<inter> N = {}" "block (th_rsp (thread_of s nxt) - 8) 8 \<inter> N = {}"
  shows "\<exists>c. switch_to link fname prev nxt s = Some (Inr ((switch_result link prev nxt s)\<lparr>con := c\<rparr>)) \<and> cursor_ok c"
proof -
  define s0 where "s0 = s\<lparr>mach := set_reg Rsi nxt (set_reg Rdi prev (mach s))\<rparr>"
  define s1 where "s1 = switch_stacks link prev nxt s0"
  have d0: "ts_thread (tasks s0 prev) \<noteq> ts_thread (tasks s0 nxt)" using diff by (simp add: s0_def)
  note st = switch_stacks_state [OF d0 s1_def]
  have "switch_mem nxt s0 = switch_mem nxt s" by (simp add: s0_def switch_mem_def thread_of_def)
  then have "m_mem (mach s1) = switch_mem nxt s" by (simp add: st(3))
  then have names1: "names_ok N fname (m_mem (mach s1))"
    using apart by (intro names_ok_cong [OF names]) (auto intro: switch_mem_outside)
  have "con s1 = con s" by (simp add: st(6) s0_def)
  then have "s1\<lparr>con := con s\<rparr> = s1" by simp
  with switch_to_c_returns [OF names1 cursor, of prev nxt]
  obtain c where "switch_to_c fname prev nxt s1 = Some (Inr ((switched prev nxt s1)\<lparr>con := c\<rparr>))" "cursor_ok c"
    by auto
  then show ?thesis
    by (intro exI [of _ c]) (simp add: switch_to_def switch_result_def Let_def flip: s0_def s1_def)
qed

section \<open>Properties\<close>

text \<open>The current task's stack is its own 32 KB block, so masking the stack pointer finds the task.\<close>

lemma get_current_task:
  assumes "tsk AND 32767 = 0" and "unat (gpr s Rsp - tsk) < 32768"
  shows "get_current s = tsk"
proof -
  have m: "(32767 :: uint64) = mask 15" by (simp add: mask_eq_exp_minus_1)
  define d where "d = gpr s Rsp - tsk"
  have "take_bit 15 d = d"
    using assms(2) by (simp add: d_def word_unat_eq_iff unsigned_take_bit_eq take_bit_nat_eq_self)
  then have b: "bit d n \<Longrightarrow> n < 15" for n by (metis bit_take_bit_iff)
  have t: "\<not> bit tsk n" if "n < 15" for n
  proof -
    have "\<forall>n < 64. bit tsk n \<longrightarrow> \<not> n < 15"
      using assms(1) unfolding m by (auto simp: bit_eq_iff bit_and_iff bit_mask_iff)
    moreover have "n < 64" using that by simp
    ultimately show ?thesis using that by blast
  qed
  have "gpr s Rsp = tsk + d" by (simp add: d_def)
  also have "\<dots> = tsk OR d" by (rule disjunctive_add) (use t b in blast)
  finally have sp: "gpr s Rsp = tsk OR d" .
  show ?thesis
  proof (rule word64_eqI)
    fix i :: nat
    assume "i < 64"
    then show "bit (get_current s) i = bit tsk i"
      using t [of i] b [of i]
      by (cases "i < 15") (auto simp: get_current_def m sp bit_and_iff bit_or_iff bit_not_iff bit_mask_iff)
  qed
qed

text \<open>A second task with a thread of its own, started from the idle kernel.\<close>

definition two_tasks :: kstate where
  "two_tasks = (idle_kernel memory_management_struct)\<lparr>
     tasks := (\<lambda>_. INIT_TASK kernel_link)(0xffff800000200000 := (INIT_TASK kernel_link)\<lparr>ts_thread := 0xffff800000200058\<rparr>),
     threads := (\<lambda>_. init_thread kernel_link)(0xffff800000200058 :=
       (init_thread kernel_link)\<lparr>th_rsp := 0xffff800000207f40, th_rip := 0xffff800000105000\<rparr>)\<rparr>"


end
