(* ===== verification/Task_Start.thy ===== *)
theory Task_Start
  imports Task_Fork Task_Switch
begin

text \<open>
  \<^verbatim>\<open>task_init\<close> of \<^verbatim>\<open>src/task.c\<close> from its first message to the first instruction of the init thread:
  the composition of \<^verbatim>\<open>kernel_thread\<close>, the page allocator, the queue of tasks, the context switch and
  \<^verbatim>\<open>kernel_thread_func\<close>.
\<close>

section \<open>The state before the thread is made\<close>

lemma setup_simps [simp]:
  "mach (task_init_setup link st s) = mach s" "con (task_init_setup link st s) = con s" "km (task_init_setup link st s) = km s"
  "tasks (task_init_setup link st s) = tasks s" "threads (task_init_setup link st s) = threads s"
  "links (task_init_setup link st s) = list_init (link ''init_task_union'') (links s)"
  by (simp_all add: task_init_setup_def set_init_mm_def Let_def)

lemma setup_con: "task_init_setup link st (s\<lparr>con := c\<rparr>) = (task_init_setup link st s)\<lparr>con := c\<rparr>"
  by (simp add: task_init_setup_def set_init_mm_def Let_def)

lemma forked_mach: "gpr (mach (forked link tsk regs s)) = gpr (mach s)"
  by (simp add: forked_def fork_user_def fork_thread_def Let_def)

lemma forked_tss64: "tss64 (forked link tsk regs s) = tss64 s"
  by (simp add: forked_def fork_user_def fork_thread_def fork_task_def thread_upd_def task_upd_def clear_task_def
      copy_task_def Let_def)

lemma forked_mm: "init_mm (forked link tsk regs s) = init_mm s"
  by (simp add: forked_def fork_user_def fork_thread_def fork_task_def thread_upd_def task_upd_def clear_task_def
      copy_task_def Let_def)

lemma forked_km: "km (forked link tsk regs s) = km s"
  by (simp add: forked_def fork_user_def fork_thread_def fork_task_def clear_task_def copy_task_def Let_def)

lemma get_current_cong: "gpr a = gpr b \<Longrightarrow> get_current a = get_current b"
  by (simp add: get_current_def)

lemma switch_result_tss:
  "get64 (tss64 (switch_result link prev nxt s)) 1 = th_rsp0 (thread_of (switch_stacks link prev nxt s) nxt)"
proof -
  let ?s1 = "switch_stacks link prev nxt (s\<lparr>mach := set_reg Rsi nxt (set_reg Rdi prev (mach s))\<rparr>)"
  have "get64 (tss64 (switched prev nxt ?s1)) 1 = th_rsp0 (thread_of ?s1 nxt)"
    by (simp add: switched_def swap_segments_def set_tss_from_def thread_upd_def set_tss64_def get64_put64 Let_def)
  moreover have "threads ?s1 = threads (switch_stacks link prev nxt s)" "tasks ?s1 = tasks (switch_stacks link prev nxt s)"
    by (simp_all add: switch_stacks_def thread_upd_def thread_of_def push64_def Let_def)
  ultimately show ?thesis by (simp add: switch_result_def thread_of_def Let_def)
qed

lemma switch_result_mm: "init_mm (switch_result link prev nxt s) = init_mm s" "links (switch_result link prev nxt s) = links s" "km (switch_result link prev nxt s) = km s"
  by (simp_all add: switch_result_def switched_def swap_segments_def set_tss_from_def switch_stacks_def thread_upd_def Let_def)

lemma forked_outside:
  assumes "block regs 192 \<inter> block (stack_frame tsk) 192 = {}" and "x \<notin> block regs 192" and "x \<notin> block (stack_frame tsk) 192"
  shows "m_mem (mach (forked link tsk regs s)) x = m_mem (mach s) x"
  using assms(2,3) by (simp add: forked_def fork_user_mem fork_thread_mem [OF assms(1)])

section \<open>The init thread made\<close>

text \<open>The state \<^verbatim>\<open>switch_to\<close> starts from, but for the console.\<close>

definition init_made :: "(string \<Rightarrow> uintptr) \<Rightarrow> uint64 \<Rightarrow> uintptr \<Rightarrow> uintptr \<Rightarrow> kmem \<Rightarrow> kstate \<Rightarrow> kstate" where
  "init_made link st regs tsk k s =
     task_upd (link ''init_task_union'') (\<lambda>t. t\<lparr>ts_state := TASK_RUNNING\<rparr>) (forked link tsk regs
       ((task_init_setup link st s)\<lparr>mach := (mach s)\<lparr>m_mem := kernel_thread_regs link regs (link ''init'') 10 (m_mem (mach s))\<rparr>,
          km := k\<rparr>))"

lemma init_made_kept:
  "gpr (mach (init_made link st regs tsk k s)) = gpr (mach s)" "km (init_made link st regs tsk k s) = k"
  "init_mm (init_made link st regs tsk k s) = init_mm (set_init_mm link st s)"
  by (simp_all add: init_made_def forked_mach forked_mm forked_km task_init_setup_def task_upd_def Let_def)

lemma init_made_tasks:
  assumes "get_current (mach s) = link ''init_task_union''" and "link ''init_task_union'' \<noteq> tsk"
  shows "tasks (init_made link st regs tsk k s) tsk = (tasks s (link ''init_task_union''))
      \<lparr>ts_pid := ts_pid (tasks s (link ''init_task_union'')) + 1, ts_state := TASK_RUNNING,
       ts_thread := tsk + sizeof_task_struct\<rparr>"
    and "ts_thread (tasks (init_made link st regs tsk k s) (link ''init_task_union'')) = ts_thread (tasks s (link ''init_task_union''))"
    and "ring (links (init_made link st regs tsk k s)) (link ''init_task_union'') [tsk]"
proof -
  define s1 where "s1 = (task_init_setup link st s)\<lparr>mach := (mach s)\<lparr>m_mem := kernel_thread_regs link regs (link ''init'') 10
    (m_mem (mach s))\<rparr>, km := k\<rparr>"
  have made: "init_made link st regs tsk k s =
      task_upd (link ''init_task_union'') (\<lambda>t. t\<lparr>ts_state := TASK_RUNNING\<rparr>) (forked link tsk regs s1)"
    by (simp add: init_made_def s1_def)
  have cur: "get_current (mach s1) = link ''init_task_union''" "tasks s1 = tasks s"
    using assms(1) by (simp_all add: s1_def)
  note T = forked_tasks [of s1 tsk link regs, unfolded cur]
  show "tasks (init_made link st regs tsk k s) tsk = (tasks s (link ''init_task_union''))
      \<lparr>ts_pid := ts_pid (tasks s (link ''init_task_union'')) + 1, ts_state := TASK_RUNNING,
       ts_thread := tsk + sizeof_task_struct\<rparr>"
    and "ts_thread (tasks (init_made link st regs tsk k s) (link ''init_task_union'')) = ts_thread (tasks s (link ''init_task_union''))"
    using assms(2) T by (simp_all add: made)
  have "ring (links s1) (link ''init_task_union'') []" by (simp add: s1_def ring_init)
  from forked_links [of s1 link "[]" tsk regs] this show "ring (links (init_made link st regs tsk k s)) (link ''init_task_union'') [tsk]"
    using assms(2) by (simp add: made)
qed

lemma init_made_thread:
  assumes "get_current (mach s) = link ''init_task_union''" and "link ''init_task_union'' \<noteq> tsk"
    and "ts_flags (tasks s (link ''init_task_union'')) AND PF_KTHREAD \<noteq> 0"
    and "block regs 192 \<inter> block (stack_frame tsk) 192 = {}" and "u = init_made link st regs tsk k s"
  shows "th_rsp0 (thread_of u tsk) = tsk + STACK_SIZE" and "th_rsp (thread_of u tsk) = stack_frame tsk"
    and "th_rip (thread_of u tsk) = link ''kernel_thread_func''"
    and "th_fs (thread_of u tsk) = th_fs (threads s (tsk + sizeof_task_struct))"
proof -
  define s1 where "s1 = (task_init_setup link st s)\<lparr>mach := (mach s)\<lparr>m_mem := kernel_thread_regs link regs (link ''init'') 10
    (m_mem (mach s))\<rparr>, km := k\<rparr>"
  have u: "u = task_upd (link ''init_task_union'') (\<lambda>t. t\<lparr>ts_state := TASK_RUNNING\<rparr>) (forked link tsk regs s1)"
    by (simp add: assms(5) init_made_def s1_def)
  have "thread_of u tsk = thread_of (forked link tsk regs s1) tsk" using assms(2) by (simp add: u thread_of_def)
  moreover have "get_current (mach s1) \<noteq> tsk" using assms(1,2) by (simp add: s1_def)
  ultimately have thread: "thread_of u tsk = (threads s (tsk + sizeof_task_struct))
    \<lparr>th_rsp0 := tsk + STACK_SIZE, th_rsp := stack_frame tsk, th_rip := link ''kernel_thread_func''\<rparr>"
    using forked_thread [of s1 tsk regs link] assms(1,3,4) by (simp add: s1_def kernel_thread_regs_read)
  then show "th_rsp0 (thread_of u tsk) = tsk + STACK_SIZE" and "th_rsp (thread_of u tsk) = stack_frame tsk"
    and "th_rip (thread_of u tsk) = link ''kernel_thread_func''"
    and "th_fs (thread_of u tsk) = th_fs (threads s (tsk + sizeof_task_struct))"
    by simp_all
qed

text \<open>The saved frame is on the new stack; memory outside it and the local frame is as it was.\<close>

lemma init_made_mem:
  assumes "block regs 192 \<inter> block (stack_frame tsk) 192 = {}"
  shows "x \<in> block (stack_frame tsk) 192 \<Longrightarrow> m_mem (mach (init_made link st regs tsk k s)) x =
      kernel_thread_regs link regs (link ''init'') 10 (m_mem (mach s)) (regs + (x - stack_frame tsk))"
    and "x \<notin> block (stack_frame tsk) 192 \<Longrightarrow> x \<notin> block regs 192 \<Longrightarrow>
      m_mem (mach (init_made link st regs tsk k s)) x = m_mem (mach s) x"
  using forked_frame [OF assms] forked_outside [OF assms] by (simp_all add: init_made_def kernel_thread_regs_outside)

lemma init_made_names:
  assumes "names_ok N fname (m_mem (mach s))" and "block regs 192 \<inter> block (stack_frame tsk) 192 = {}"
    and "block regs 192 \<inter> N = {}" and "block (stack_frame tsk) 192 \<inter> N = {}"
  shows "names_ok N fname (m_mem (mach (init_made link st regs tsk k s)))"
  by (rule names_ok_cong [OF assms(1)]) (use assms(3,4) in \<open>auto intro!: init_made_mem(2) [OF assms(2)]\<close>)

lemma task_init_makes:
  assumes ready: "fork_ready N fname regs tsk k s"
    and cur: "get_current (mach s) = link ''init_task_union''"
  shows "\<exists>c. task_init link fname regs st s =
    switch_to link fname (link ''init_task_union'') tsk ((init_made link st regs tsk k s)\<lparr>con := c\<rparr>) \<and> cursor_ok c"
proof -
  let ?i = "link ''init_task_union''" and ?f = "stack_frame tsk" and ?u = "init_made link st regs tsk k s"
  from ready obtain page where r: "names_ok N fname (m_mem (mach s))" "cursor_ok (con s)" "?i \<noteq> tsk"
    "alloc_pages ZONE_NORMAL 1 (PG_PTable_Maped OR PG_Active OR PG_Kernel) (km s) = Some (Inr (k, Some page))"
    "tsk = Phy_To_Virt (phy_addr (pages k (unat page)))"
    and ap: "block regs 192 \<inter> block ?f 192 = {}" "block regs 192 \<inter> N = {}" "block ?f 192 \<inter> N = {}"
    using cur by (auto simp: fork_ready_def)
  obtain c1 where c1: "TASK_DEBUG_PRINT fname ''task_init'' 272 ''=====enter====='' [] s = Some (Inr (s\<lparr>con := c1\<rparr>))" "cursor_ok c1"
    using task_debug_con [OF r(1) task_functions_mem(6) r(2) formats_messages(1)] by auto
  define s1 where "s1 = (task_init_setup link st s)\<lparr>mach := (mach s)\<lparr>m_mem := kernel_thread_regs link regs (link ''init'') 10
    (m_mem (mach s))\<rparr>, km := k\<rparr>"
  have u: "?u = task_upd ?i (\<lambda>t. t\<lparr>ts_state := TASK_RUNNING\<rparr>) (forked link tsk regs s1)"
    by (simp add: init_made_def s1_def)
  let ?t1 = "(task_init_setup link st s)\<lparr>con := c1\<rparr>"
  have "(s1\<lparr>con := c1\<rparr>) = ?t1\<lparr>mach := (mach ?t1)\<lparr>m_mem := kernel_thread_regs link regs (link ''init'') 10 (m_mem (mach ?t1))\<rparr>, km := k\<rparr>"
    by (simp add: s1_def)
  then obtain c2 where c2: "kernel_thread link fname regs (link ''init'') 10 (CLONE_FS OR CLONE_FILES OR CLONE_SIGNAL) ?t1 =
      Some (Inr (0, (forked link tsk regs (s1\<lparr>con := c1\<rparr>))\<lparr>con := c2\<rparr>))" "cursor_ok c2"
    using kernel_thread_returns [of N fname ?t1 k page tsk regs link "link ''init''" 10 "CLONE_FS OR CLONE_FILES OR CLONE_SIGNAL"]
      r c1(2) ap by auto
  have forked: "(forked link tsk regs (s1\<lparr>con := c1\<rparr>))\<lparr>con := c\<rparr> = (forked link tsk regs s1)\<lparr>con := c\<rparr>" for c
    by (simp add: forked_def con_commutes)
  have upd: "task_upd ?i (\<lambda>t. t\<lparr>ts_state := TASK_RUNNING\<rparr>) ((forked link tsk regs s1)\<lparr>con := c\<rparr>) = ?u\<lparr>con := c\<rparr>" for c
    by (simp add: u con_commutes)
  have regs: "get_current (mach (forked link tsk regs s1)) = ?i" "get_current (mach ?u) = ?i"
    using cur get_current_cong [of "mach (forked link tsk regs s1)" "mach s"] get_current_cong [of "mach ?u" "mach s"]
    by (simp_all add: init_made_kept forked_mach s1_def)
  have next_task: "container_of (list_next ?i (links (forked link tsk regs s1))) 0 = tsk"
    using ring_next [OF init_made_tasks(3) [where link = link and st = st and regs = regs and k = k, OF cur r(3)]] by (simp add: u container_of_def list_next_def)
  obtain c3 where c3: "TASK_DEBUG_PRINT fname ''task_init'' 304 ''=====exit====='' [] (?u\<lparr>con := c2\<rparr>) = Some (Inr (?u\<lparr>con := c3\<rparr>))" "cursor_ok c3"
    using task_debug_con [OF init_made_names [OF r(1) ap] task_functions_mem(6) c2(2) formats_messages(2)] by blast
  have "task_init link fname regs st s = switch_to link fname ?i tsk (?u\<lparr>con := c3\<rparr>)"
    unfolding task_init_def
    using c1(1) c2(1) c3(1) by (simp add: setup_con forked upd regs next_task Let_def)
  with c3(2) show ?thesis by blast
qed

text \<open>The whole of \<^verbatim>\<open>task_init\<close>, with what it leaves of the kernel's state.\<close>

lemma task_init_runs:
  assumes ready: "fork_ready N fname regs tsk k s"
    and cur: "get_current (mach s) = link ''init_task_union''"
    and init: "ts_flags (tasks s (link ''init_task_union'')) AND PF_KTHREAD \<noteq> 0"
      "ts_pid (tasks s (link ''init_task_union'')) = 0"
      "ts_thread (tasks s (link ''init_task_union'')) \<noteq> tsk + sizeof_task_struct"
    and apart: "block (gpr (mach s) Rsp - 16) 16 \<inter> N = {}" "block (stack_frame tsk - 8) 8 \<inter> N = {}"
      "block (gpr (mach s) Rsp - 16) 16 \<inter> block (stack_frame tsk) 192 = {}"
  shows "\<exists>s'. task_init link fname regs st s = Some (Inr s') \<and> m_rip (mach s') = link ''kernel_thread_func'' \<and>
    gpr (run kernel_thread_func (mach s')) Rbx = link ''init'' \<and> gpr (run kernel_thread_func (mach s')) Rdi = 10 \<and>
    gpr (run kernel_thread_func (mach s')) Rsp = tsk + STACK_SIZE \<and>
    m_ds (run kernel_thread_func (mach s')) = 0x10 \<and> m_es (run kernel_thread_func (mach s')) = 0x10 \<and>
    ts_pid (tasks s' tsk) = 1 \<and> ring (links s') (link ''init_task_union'') [tsk] \<and>
    get64 (tss64 s') 1 = tsk + STACK_SIZE \<and> init_mm s' = init_mm (set_init_mm link st s) \<and> km s' = k \<and>
    fs_reg s' = ucast (th_fs (threads s (tsk + sizeof_task_struct))) \<and> cursor_ok (con s') \<and>
    names_ok N fname (m_mem (mach s'))"
proof -
  let ?i = "link ''init_task_union''" and ?f = "stack_frame tsk" and ?m = "init_made link st regs tsk k s"
  from ready have r: "names_ok N fname (m_mem (mach s))" "?i \<noteq> tsk"
    and ap: "block regs 192 \<inter> block ?f 192 = {}" "block regs 192 \<inter> N = {}" "block ?f 192 \<inter> N = {}"
    using cur by (auto simp: fork_ready_def)
  note T = init_made_tasks [where link = link and st = st and regs = regs and k = k, OF cur r(2)]
    and H = init_made_thread [where link = link and st = st and k = k, OF cur r(2) init(1) ap(1) refl]
  obtain c where c: "task_init link fname regs st s = switch_to link fname ?i tsk (?m\<lparr>con := c\<rparr>)" "cursor_ok c"
    using task_init_makes [of N fname regs tsk k s link st, OF ready cur] by blast
  define s4 where "s4 = ?m\<lparr>con := c\<rparr>"
  have s4: "mach s4 = mach ?m" "tasks s4 = tasks ?m" "thread_of s4 = thread_of ?m" "con s4 = c" "links s4 = links ?m"
    "km s4 = k" "init_mm s4 = init_mm (set_init_mm link st s)"
    by (simp_all add: s4_def thread_of_def fun_eq_iff init_made_kept)
  have diff: "ts_thread (tasks s4 ?i) \<noteq> ts_thread (tasks s4 tsk)" using init(3) by (simp add: s4 T)
  obtain c4 where c4: "switch_to link fname ?i tsk s4 = Some (Inr ((switch_result link ?i tsk s4)\<lparr>con := c4\<rparr>))" "cursor_ok c4"
    using switch_to_returns [of N fname s4 ?i tsk link] init_made_names [OF r(1) ap, of link st k] c(2) diff apart(1,2)
    by (auto simp: s4 init_made_kept H)
  define u where "u = switch_result link ?i tsk s4"
  note sw = switch_result_state [OF diff u_def]
  have mem: "m_mem (mach u) x = kernel_thread_regs link regs (link ''init'') 10 (m_mem (mach s)) (regs + (x - ?f))"
    if "x \<in> block ?f 192" for x
  proof -
    have "m_mem (mach u) x = m_mem (mach s4) x"
      unfolding sw(4) by (rule switch_mem_outside) (use that apart(3) block_below [OF that] in \<open>auto simp: s4 init_made_kept H\<close>)
    then show ?thesis using init_made_mem(1) [OF ap(1) that] by (simp add: s4)
  qed
  have read: "unat off \<le> 184 \<Longrightarrow> read64 (m_mem (mach u)) (?f + off) =
      read64 (kernel_thread_regs link regs (link ''init'') 10 (m_mem (mach s))) (regs + off)" for off
    using read64_moved [of ?f "m_mem (mach u)" "kernel_thread_regs link regs (link ''init'') 10 (m_mem (mach s))" regs off] mem by blast
  have sp: "gpr (mach u) Rsp = ?f" by (simp add: sw s4 H)
  have frame: "read64 (m_mem (mach u)) (?f + RBX) = link ''init''" "read64 (m_mem (mach u)) (?f + RDX) = 10"
    "read64 (m_mem (mach u)) (?f + DS) = 0x10" "read64 (m_mem (mach u)) (?f + ES) = 0x10"
    using read [of RBX] read [of RDX] read [of DS] read [of ES] kernel_thread_regs_read [of link regs "link ''init''" 10 "m_mem (mach s)"]
    by (simp_all add: offset_defs)
  have tss: "get64 (tss64 u) 1 = tsk + STACK_SIZE"
    using switch_result_tss [of link ?i tsk s4] switch_stacks_state(1,4) [OF diff refl, of link] diff H(1)
    by (simp add: u_def thread_of_def s4(3) [unfolded thread_of_def fun_eq_iff])
  have "names_ok N fname (m_mem (mach u))"
    unfolding sw(4) by (rule names_ok_cong [OF init_made_names [OF r(1) ap, of link st k]], subst switch_mem_outside)
      (use apart(1,2) in \<open>auto simp: s4 init_made_kept H\<close>)
  moreover have kept: "links u = links ?m" "tasks u = tasks ?m" "km u = k" "init_mm u = init_mm (set_init_mm link st s)"
    by (simp_all add: u_def switch_result_mm s4 sw [unfolded u_def])
  ultimately show ?thesis
    using c(1) c4 kernel_thread_func_state [OF refl refl refl, of "mach u", unfolded sp] frame tss T init(2) sw(3,6) kept
    by (intro exI [of _ "u\<lparr>con := c4\<rparr>"]) (simp add: s4 H stack_frame_def sizeof_pt_regs_def flip: s4_def u_def)
qed

section \<open>What the thread does\<close>

text \<open>
  The rest of \<^verbatim>\<open>kernel_thread_func\<close>: the call through \<^verbatim>\<open>rbx\<close>, whose result is handed to \<^verbatim>\<open>do_exit\<close>. \<open>code\<close>
  gives the C function at an address.
\<close>

definition run_thread ::
  "(uintptr \<Rightarrow> uint64 \<Rightarrow> kstate \<Rightarrow> (fault + uint64 \<times> kstate) option) \<Rightarrow> (string \<Rightarrow> uintptr) \<Rightarrow> kstate \<Rightarrow>
     (fault + kstate ending) option" where
  "run_thread code fname s =
     (let m = run kernel_thread_func (mach s)
      in bindT (code (gpr m Rbx) (gpr m Rdi) (s\<lparr>mach := m\<rparr>)) (\<lambda>(r, s). do_exit fname r s))"

lemma init_returns:
  assumes "names_ok N fname (m_mem (mach s))" and "cursor_ok (con s)"
  shows "\<exists>c. init fname arg s = Some (Inr (1, s\<lparr>con := c\<rparr>)) \<and> cursor_ok c"
proof -
  note say = task_debug_con [OF assms(1) task_functions_mem(2)]
  obtain c1 where c1: "TASK_DEBUG_PRINT fname ''init'' 161 ''=====enter====='' [] s = Some (Inr (s\<lparr>con := c1\<rparr>))" "cursor_ok c1"
    using say [OF assms(2) formats_messages(1)] by auto
  obtain c2 where c2: "TASK_DEBUG_PRINT fname ''init'' 162 ''init task is running,arg:%#018lx'' [arg] (s\<lparr>con := c1\<rparr>) =
      Some (Inr (s\<lparr>con := c2\<rparr>))" "cursor_ok c2"
    using say [OF c1(2) formats_messages(7)] by blast
  obtain c3 where "TASK_DEBUG_PRINT fname ''init'' 163 ''=====exit====='' [] (s\<lparr>con := c2\<rparr>) = Some (Inr (s\<lparr>con := c3\<rparr>))" "cursor_ok c3"
    using say [OF c2(2) formats_messages(2)] by blast
  with c1(1) c2(1) show ?thesis by (auto simp: init_def)
qed

lemma do_exit_loops:
  assumes "names_ok N fname (m_mem (mach s))" and "cursor_ok c"
  shows "\<exists>c'. do_exit fname r (s\<lparr>con := c\<rparr>) = Some (Inr (Loops (s\<lparr>con := c'\<rparr>))) \<and> cursor_ok c'"
proof -
  note say = task_debug_con [OF assms(1) task_functions_mem(4)]
  obtain c1 where c1: "TASK_DEBUG_PRINT fname ''do_exit'' 215 ''=====enter====='' [] (s\<lparr>con := c\<rparr>) = Some (Inr (s\<lparr>con := c1\<rparr>))" "cursor_ok c1"
    using say [OF assms(2) formats_messages(1)] by blast
  obtain c2 where "TASK_DEBUG_PRINT fname ''do_exit'' 216 ''exit task is running,arg:%#018lx'' [r] (s\<lparr>con := c1\<rparr>) =
      Some (Inr (s\<lparr>con := c2\<rparr>))" "cursor_ok c2"
    using say [OF c1(2) formats_messages(8)] by blast
  with c1(1) show ?thesis by (auto simp: do_exit_def)
qed

section \<open>Properties\<close>



end
