(* ===== verification/Task_Queue.thy ===== *)
theory Task_Queue
  imports Mem_Pool Task_Start
begin

text \<open>
  The queue of tasks \<^verbatim>\<open>do_fork\<close> (\<^verbatim>\<open>src/task.c\<close>) builds on the pages \<^verbatim>\<open>alloc_pages\<close> gives: any number of
  children of the current task, each in its own page.
\<close>

section \<open>Pages of tasks\<close>

text \<open>
  The address of the task made from page frame \<open>P\<close>, and the addresses below the frames the allocator
  hands out, which the kernel image and the initial stack use.
\<close>

definition task_page :: "nat \<Rightarrow> uintptr" where
  "task_page P = Phy_To_Virt (page_addr P)"

definition kernel_memory :: "nat \<Rightarrow> uintptr set" where
  "kernel_memory n = {x. unat x < unat (PAGE_OFFSET) + 2097152 * n}"

lemma unat_task_page: "P \<le> 128 \<Longrightarrow> unat (task_page P) = unat PAGE_OFFSET + 2097152 * P"
proof -
  assume P: "P \<le> 128"
  have "page_addr P = of_nat (2097152 * P)" by (simp add: page_addr_def PAGE_2M_SIZE_num)
  then have "unat (page_addr P) = 2097152 * P"
    using P unat_of_nat_small [of "2097152 * P"] by simp
  moreover have "unat PAGE_OFFSET + 2097152 * P < 2 ^ 64" using P by (simp add: unat_PAGE_OFFSET)
  ultimately show ?thesis
    using unat_add_small [of PAGE_OFFSET "page_addr P"] by (simp only: task_page_def Phy_To_Virt_def add.commute)
qed

text \<open>Where the bytes of a block of the page are.\<close>

lemma unat_task_block:
  assumes "P < 128" and "unat off + k \<le> 2097152" and "x \<in> block (task_page P + off) k"
  shows "unat PAGE_OFFSET + 2097152 * P \<le> unat x" and "unat x < unat PAGE_OFFSET + 2097152 * (P + 1)"
proof -
  have P: "unat (task_page P) = unat PAGE_OFFSET + 2097152 * P" by (rule unat_task_page) (use assms(1) in simp)
  have top: "unat (task_page P) + 2097152 \<le> 2 ^ 64" using assms(1) unfolding P by (simp add: unat_PAGE_OFFSET)
  have d: "unat (x - (task_page P + off)) < k" using assms(3) by (simp add: block_iff)
  have "unat (off + (x - (task_page P + off))) = unat off + unat (x - (task_page P + off))"
    by (rule unat_add_small) (use d assms(2) in simp)
  then have "unat (task_page P + (off + (x - (task_page P + off)))) = unat (task_page P) + unat off + unat (x - (task_page P + off))"
    using unat_add_small [of "task_page P" "off + (x - (task_page P + off))"] d assms(2) top by simp
  then have "unat x = unat (task_page P) + unat off + unat (x - (task_page P + off))" by (simp add: algebra_simps)
  then show "unat PAGE_OFFSET + 2097152 * P \<le> unat x" and "unat x < unat PAGE_OFFSET + 2097152 * (P + 1)"
    using P d assms(2) by simp_all
qed

lemma block_kernel_memory:
  assumes "unat a + k \<le> unat PAGE_OFFSET + 2097152 * n" and "unat a + k \<le> 2 ^ 64"
  shows "block a k \<subseteq> kernel_memory n"
proof
  fix x
  assume x: "x \<in> block a k"
  then have "unat (a + (x - a)) = unat a + unat (x - a)"
    using assms(2) by (intro unat_add_small) (simp add: block_iff)
  then show "x \<in> kernel_memory n" using x assms(1) by (simp add: block_iff kernel_memory_def)
qed

lemma task_page_apart:
  assumes "P < 128" and "n \<le> P" and "B \<subseteq> kernel_memory n" and "unat off + k \<le> 2097152"
  shows "block (task_page P + off) k \<inter> B = {}"
proof -
  have "unat PAGE_OFFSET + 2097152 * n \<le> unat x" if "x \<in> block (task_page P + off) k" for x
    using unat_task_block(1) [OF assms(1,4) that] assms(2) by simp
  with assms(3) show ?thesis by (fastforce simp: kernel_memory_def)
qed

text \<open>Different pages do not overlap.\<close>

lemma page_block_below:
  assumes "P < 128" and "unat off + k \<le> 2097152" and "P < n"
  shows "block (task_page P + off) k \<subseteq> kernel_memory n"
proof
  fix x
  assume "x \<in> block (task_page P + off) k"
  from unat_task_block(2) [OF assms(1,2) this] have "unat x < unat PAGE_OFFSET + 2097152 * (P + 1)" .
  also have "\<dots> \<le> unat PAGE_OFFSET + 2097152 * n" using assms(3) by simp
  finally show "x \<in> kernel_memory n" by (simp add: kernel_memory_def)
qed

lemma pages_apart:
  assumes "P < 128" "Q < 128" "P \<noteq> Q" and "unat off + k \<le> 2097152" "unat off' + k' \<le> 2097152"
  shows "block (task_page P + off) k \<inter> block (task_page Q + off') k' = {}"
proof (cases "P < Q")
  case True
  from task_page_apart [OF assms(2) le_refl page_block_below [OF assms(1,4) True] assms(5)]
  show ?thesis by (subst Int_commute)
next
  case False
  with assms(3) have less: "Q < P" by simp
  from task_page_apart [OF assms(1) le_refl page_block_below [OF assms(2,5) less] assms(4)] show ?thesis .
qed

lemma task_page_inj:
  assumes "P < 128" "Q < 128" "task_page P = task_page Q"
  shows "P = Q"
proof -
  have "unat PAGE_OFFSET + 2097152 * P = unat PAGE_OFFSET + 2097152 * Q"
    using unat_task_page [of P] unat_task_page [of Q] assms by (simp only: less_imp_le)
  then show ?thesis by simp
qed

section \<open>The queue\<close>

text \<open>
  The child made in page frame \<open>P\<close> from \<open>parent\<close> with the saved registers \<open>R\<close>, as \<^verbatim>\<open>do_fork\<close> leaves it
  and as every later step must keep it.
\<close>

definition child_ok :: "pt_regs \<Rightarrow> task_struct \<Rightarrow> kstate \<Rightarrow> nat \<Rightarrow> bool" where
  "child_ok R parent k P \<longleftrightarrow>
     tasks k (task_page P) = parent\<lparr>ts_pid := ts_pid parent + 1, ts_state := TASK_RUNNING,
       ts_thread := task_page P + sizeof_task_struct\<rparr> \<and>
     th_rsp0 (thread_of k (task_page P)) = task_page P + STACK_SIZE \<and>
     th_rsp (thread_of k (task_page P)) = stack_frame (task_page P) \<and>
     th_rip (thread_of k (task_page P)) = pt_rip R \<and>
     read_pt_regs (m_mem (mach k)) (stack_frame (task_page P)) = R"

text \<open>
  The state while the initial task forks: \<open>Ps\<close> are the frames of the children, oldest first, and at least
  \<open>a\<close> more requests for a page will be served from frames at or above \<open>F\<close>.
\<close>

definition queue_inv ::
  "uintptr set \<Rightarrow> (string \<Rightarrow> uintptr) \<Rightarrow> (string \<Rightarrow> uintptr) \<Rightarrow> uintptr \<Rightarrow> nat \<Rightarrow> nat set \<Rightarrow> pt_regs \<Rightarrow> task_struct \<Rightarrow> nat \<Rightarrow>
     nat list \<Rightarrow> kstate \<Rightarrow> bool" where
  "queue_inv N link fname regs F M R parent a Ps k \<longleftrightarrow>
     {link ''init_task_union''} \<union> N \<union> block regs 192 \<subseteq> kernel_memory F \<and> block regs 192 \<inter> N = {} \<and>
     names_ok N fname (m_mem (mach k)) \<and> cursor_ok (con k) \<and>
     get_current (mach k) = link ''init_task_union'' \<and> tasks k (link ''init_task_union'') = parent \<and>
     ts_flags parent AND PF_KTHREAD \<noteq> 0 \<and> read_pt_regs (m_mem (mach k)) regs = R \<and>
     pool a (km k) M \<and> (\<forall>x < 128. \<not> bm_test (bits_map (km k)) x \<longrightarrow> F \<le> x) \<and>
     ring (links k) (link ''init_task_union'') (map task_page Ps) \<and> distinct Ps \<and>
     (\<forall>P \<in> set Ps. F \<le> P \<and> P < 128 \<and> bm_test (bits_map (km k)) P \<and> child_ok R parent k P)"

lemma forked_kthread:
  assumes "get_current (mach s) \<noteq> tsk" and "ts_flags (tasks s (get_current (mach s))) AND PF_KTHREAD \<noteq> 0"
  shows "forked link tsk regs s = task_upd tsk (\<lambda>t. t\<lparr>ts_state := TASK_RUNNING\<rparr>) (fork_thread tsk regs (fork_task link tsk s))"
proof -
  have "ts_flags (tasks (fork_thread tsk regs (fork_task link tsk s)) tsk) = ts_flags (tasks s (get_current (mach s)))"
    using assms(1) by (simp add: fork_thread_def fork_task_def clear_task_def copy_task_def Let_def)
  with assms(2) show ?thesis by (simp add: forked_def fork_user_def)
qed

lemma forked_kthread_mem:
  assumes "get_current (mach s) \<noteq> tsk" and "ts_flags (tasks s (get_current (mach s))) AND PF_KTHREAD \<noteq> 0"
    and "block regs 192 \<inter> block (stack_frame tsk) 192 = {}" and "x \<notin> block (stack_frame tsk) 192"
  shows "m_mem (mach (forked link tsk regs s)) x = m_mem (mach s) x"
  using assms(4) by (simp add: forked_kthread [OF assms(1,2)] fork_thread_mem [OF assms(3)])

lemma forked_other_thread:
  assumes "get_current (mach s) \<noteq> tsk" and "ts_flags (tasks s (get_current (mach s))) AND PF_KTHREAD \<noteq> 0"
    and "a \<noteq> tsk + sizeof_task_struct"
  shows "threads (forked link tsk regs s) a = threads s a"
  using assms(3) by (simp add: forked_kthread [OF assms(1,2)] fork_thread_def fork_task_def clear_task_def copy_task_def Let_def)

lemma read_pt_regs_cong:
  assumes "\<And>x. x \<in> block a 192 \<Longrightarrow> m' x = m x"
  shows "read_pt_regs m' a = read_pt_regs m a"
  by (rule read_pt_regs_moved) (use assms in simp)

lemma frame_of_page: "stack_frame (task_page P) = task_page P + 32576"
  by (simp add: stack_frame_def STACK_SIZE_def sizeof_pt_regs_def)

text \<open>An older child is not touched by a new one.\<close>

lemma child_kept:
  assumes child: "child_ok R parent s Q" and Q: "Q < 128" and P: "P < 128" "P \<noteq> Q"
    and cur: "get_current (mach s) \<noteq> task_page P" "ts_flags (tasks s (get_current (mach s))) AND PF_KTHREAD \<noteq> 0"
    and apart: "block regs 192 \<inter> block (stack_frame (task_page P)) 192 = {}"
  shows "child_ok R parent (forked link (task_page P) regs s) Q"
proof -
  let ?f = "forked link (task_page P) regs s"
  have page: "task_page Q \<noteq> task_page P" using task_page_inj [OF Q P(1)] P(2) by auto
  have task: "tasks ?f (task_page Q) = tasks s (task_page Q)"
    using page by (simp add: forked_tasks [OF cur(1)])
  have "threads ?f (task_page Q + sizeof_task_struct) = threads s (task_page Q + sizeof_task_struct)"
    by (rule forked_other_thread [OF cur]) (use page in simp)
  then have thread: "thread_of ?f (task_page Q) = thread_of s (task_page Q)"
    using child by (simp add: thread_of_def task child_ok_def)
  have "block (stack_frame (task_page Q)) 192 \<inter> block (stack_frame (task_page P)) 192 = {}"
    unfolding frame_of_page by (rule pages_apart [OF Q P(1)]) (use P(2) in simp_all)
  then have "read_pt_regs (m_mem (mach ?f)) (stack_frame (task_page Q)) = read_pt_regs (m_mem (mach s)) (stack_frame (task_page Q))"
    by (intro read_pt_regs_cong forked_kthread_mem [OF cur apart]) blast
  with child show ?thesis by (simp add: child_ok_def task thread)
qed

lemma child_made:
  assumes cur: "get_current (mach s) \<noteq> task_page P" "ts_flags (tasks s (get_current (mach s))) AND PF_KTHREAD \<noteq> 0"
    and apart: "block regs 192 \<inter> block (stack_frame (task_page P)) 192 = {}"
    and R: "read_pt_regs (m_mem (mach s)) regs = R" and parent: "tasks s (get_current (mach s)) = parent"
  shows "child_ok R parent (forked link (task_page P) regs s) P"
proof -
  have "read_pt_regs (m_mem (mach (forked link (task_page P) regs s))) (stack_frame (task_page P)) = R"
    using read_pt_regs_moved [of "stack_frame (task_page P)" "m_mem (mach (forked link (task_page P) regs s))" "m_mem (mach s)" regs]
      forked_frame [OF apart, of _ link s] R by simp
  moreover have "read64 (m_mem (mach s)) (regs + RIP) = pt_rip R" using R by (auto simp: read_pt_regs_def)
  ultimately show ?thesis
    using forked_tasks [OF cur(1), of link regs] forked_thread [OF cur(1) apart, of link] cur(2) parent
    by (simp add: child_ok_def)
qed

lemma child_ok_con [simp]: "child_ok R parent (k\<lparr>con := c\<rparr>) P = child_ok R parent k P"
  by (simp add: child_ok_def thread_of_def)

lemma child_ok_km [simp]: "child_ok R parent (k\<lparr>km := m\<rparr>) P = child_ok R parent k P"
  by (simp add: child_ok_def thread_of_def)

text \<open>One fork adds one child to the end of the queue.\<close>

lemma queue_fork:
  assumes inv: "queue_inv N link fname regs F M R parent (Suc a) Ps k"
  shows "\<exists>P k'. do_fork link fname regs clone_flags stack_start stack_size k = Some (Inr (0, k')) \<and>
    P \<notin> set Ps \<and> \<not> bm_test (bits_map (km k)) P \<and> tss64 k' = tss64 k \<and> gpr (mach k') = gpr (mach k) \<and>
    (\<forall>x. bm_test (bits_map (km k')) x \<longleftrightarrow> x = P \<or> bm_test (bits_map (km k)) x) \<and>
    queue_inv N link fname regs F M R parent a (Ps @ [P]) k'"
proof -
  let ?i = "link ''init_task_union''"
  from inv have sub: "{?i} \<subseteq> kernel_memory F" "N \<subseteq> kernel_memory F" "block regs 192 \<subseteq> kernel_memory F"
    and regsN: "block regs 192 \<inter> N = {}" and names: "names_ok N fname (m_mem (mach k))" and cursor: "cursor_ok (con k)"
    and cur: "get_current (mach k) = ?i" and task: "tasks k ?i = parent" and kthread: "ts_flags parent AND PF_KTHREAD \<noteq> 0"
    and R: "read_pt_regs (m_mem (mach k)) regs = R" and pool: "pool (Suc a) (km k) M"
    and low: "\<And>x. x < 128 \<Longrightarrow> \<not> bm_test (bits_map (km k)) x \<Longrightarrow> F \<le> x"
    and ring: "ring (links k) ?i (map task_page Ps)" and dist: "distinct Ps"
    and kids: "\<And>Q. Q \<in> set Ps \<Longrightarrow> F \<le> Q \<and> Q < 128 \<and> bm_test (bits_map (km k)) Q \<and> child_ok R parent k Q"
    by (simp_all add: queue_inv_def)
  have flags: "PG_PTable_Maped OR PG_Active OR PG_Kernel \<noteq> 0"
    by (simp add: PG_PTable_Maped_def PG_Active_def PG_Kernel_def)
  obtain P m where alloc: "alloc_pages ZONE_NORMAL 1 (PG_PTable_Maped OR PG_Active OR PG_Kernel) (km k) = Some (Inr (m, Some (of_nat P)))"
    and P: "P \<in> M" "P < 128" "\<not> bm_test (bits_map (km k)) P"
    and bits: "\<And>x. bm_test (bits_map m) x \<longleftrightarrow> x = P \<or> bm_test (bits_map (km k)) x" and pool': "pool a m M"
    using pool_alloc [OF pool flags] by blast
  have F: "F \<le> P" using low P by blast
  have new: "P \<notin> set Ps" using kids P(3) by blast
  have "managed m M" using pool' by (simp add: pool_def mem_inv_def)
  moreover have "unat (of_nat P :: uint64) = P" by (rule unat_of_nat_small) (use P(2) in simp)
  ultimately have page: "task_page P = Phy_To_Virt (phy_addr (pages m (unat (of_nat P :: uint64))))"
    using P(1) by (simp add: managed_def task_page_def)
  have at: "block (stack_frame (task_page P)) 192 \<inter> B = {}" if "B \<subseteq> kernel_memory F" for B
    unfolding frame_of_page by (rule task_page_apart [OF P(2) F that]) simp
  have apart: "block regs 192 \<inter> block (stack_frame (task_page P)) 192 = {}" "block (stack_frame (task_page P)) 192 \<inter> N = {}"
    using at [OF sub(3)] at [OF sub(2)] by blast+
  have idle: "?i \<noteq> task_page P"
    using task_page_apart [OF P(2) F sub(1), of 0 1] by (auto simp: block_iff)
  define s where "s = k\<lparr>km := m\<rparr>"
  obtain c where c: "do_fork link fname regs clone_flags stack_start stack_size k =
      Some (Inr (0, (forked link (task_page P) regs s)\<lparr>con := c\<rparr>))" "cursor_ok c"
    using do_fork_returns [OF names cursor alloc page apart(1) regsN apart(2)] unfolding s_def by blast
  have s: "mach s = mach k" "tasks s = tasks k" "links s = links k" "threads s = threads k" by (simp_all add: s_def)
  have cur_s: "get_current (mach s) \<noteq> task_page P" "ts_flags (tasks s (get_current (mach s))) AND PF_KTHREAD \<noteq> 0"
    using cur idle task kthread by (simp_all add: s)
  let ?f = "forked link (task_page P) regs s"
  have mem: "m_mem (mach ?f) x = m_mem (mach k) x" if "x \<notin> block (stack_frame (task_page P)) 192" for x
    using forked_kthread_mem [OF cur_s apart(1) that, of link] by (simp add: s)
  have "names_ok N fname (m_mem (mach ?f))"
    by (rule names_ok_cong [OF names], rule mem) (use apart(2) in blast)
  moreover have "read_pt_regs (m_mem (mach ?f)) regs = R"
    unfolding R [symmetric] by (rule read_pt_regs_cong, rule mem) (use apart(1) in blast)
  moreover have "get_current (mach ?f) = ?i"
    using cur get_current_cong [OF forked_mach [of link "task_page P" regs s]] by (simp add: s)
  moreover have "tasks ?f ?i = parent" using idle task by (simp add: forked_tasks [OF cur_s(1)] s)
  moreover have "task_page P \<notin> set (?i # map task_page Ps)"
    using idle kids new task_page_inj [OF P(2)] by auto
  then have "ring (links ?f) ?i (map task_page (Ps @ [P]))"
    using forked_links [of s link "map task_page Ps" "task_page P" regs] ring by (simp add: s)
  moreover have "child_ok R parent ?f P"
    by (rule child_made [OF cur_s apart(1)]) (simp_all add: s R cur task)
  moreover have "child_ok R parent ?f Q" if "Q \<in> set Ps" for Q
    by (rule child_kept [OF _ _ P(2) _ cur_s apart(1)]) (use kids [OF that] that new in \<open>auto simp: s_def\<close>)
  moreover have "km ?f = m" by (simp add: forked_km s_def)
  ultimately have "queue_inv N link fname regs F M R parent a (Ps @ [P]) (?f\<lparr>con := c\<rparr>)"
    using sub regsN c(2) kthread pool' bits low dist new kids P F by (auto simp: queue_inv_def)
  then show ?thesis
    using c(1) new P(3) bits \<open>km ?f = m\<close> by (intro exI [of _ P] exI [of _ "?f\<lparr>con := c\<rparr>"]) (simp add: forked_tss64 forked_mach s_def)
qed

section \<open>Properties\<close>

fun fork_times ::
  "(string \<Rightarrow> uintptr) \<Rightarrow> (string \<Rightarrow> uintptr) \<Rightarrow> uintptr \<Rightarrow> uint64 \<Rightarrow> nat \<Rightarrow> kstate \<Rightarrow> (fault + kstate) option" where
  "fork_times link fname regs clone_flags 0 k = Some (Inr k)"
| "fork_times link fname regs clone_flags (Suc n) k =
     bindT (do_fork link fname regs clone_flags 0 0 k) (\<lambda>(r, k). fork_times link fname regs clone_flags n k)"

lemma fork_times_queue:
  "queue_inv N link fname regs F M R parent (n + a) Ps k \<Longrightarrow>
   \<exists>Qs k'. fork_times link fname regs clone_flags n k = Some (Inr k') \<and> length Qs = n \<and>
     (\<forall>x. bm_test (bits_map (km k')) x \<longleftrightarrow> x \<in> set Qs \<or> bm_test (bits_map (km k)) x) \<and>
     (\<forall>Q \<in> set Qs. \<not> bm_test (bits_map (km k)) Q) \<and>
     queue_inv N link fname regs F M R parent a (Ps @ Qs) k'"
proof (induction n arbitrary: Ps k)
  case 0
  then show ?case by simp
next
  case (Suc n)
  then have "queue_inv N link fname regs F M R parent (Suc (n + a)) Ps k" by simp
  from queue_fork [OF this, of clone_flags 0 0] obtain P k1 where
    P: "do_fork link fname regs clone_flags 0 0 k = Some (Inr (0, k1))" "\<not> bm_test (bits_map (km k)) P"
      "\<forall>x. bm_test (bits_map (km k1)) x \<longleftrightarrow> x = P \<or> bm_test (bits_map (km k)) x"
    and inv: "queue_inv N link fname regs F M R parent (n + a) (Ps @ [P]) k1"
    by blast
  from Suc.IH [OF inv] obtain Qs k' where Qs: "fork_times link fname regs clone_flags n k1 = Some (Inr k')" "length Qs = n"
    "\<forall>x. bm_test (bits_map (km k')) x \<longleftrightarrow> x \<in> set Qs \<or> bm_test (bits_map (km k1)) x"
    "\<forall>Q \<in> set Qs. \<not> bm_test (bits_map (km k1)) Q"
    "queue_inv N link fname regs F M R parent a ((Ps @ [P]) @ Qs) k'"
    by blast
  then show ?case
    using P by (intro exI [of _ "P # Qs"] exI [of _ k']) auto
qed

text \<open>
  Forks keep the queue and the pages in order. While the pool has a page for each, \<open>n\<close>
  calls of \<^verbatim>\<open>do_fork\<close> by the initial task all return 0. The queue then holds the old children followed
  by the new ones in the order of the calls; every child is in a page of its own that was free before
  and is marked now, and nothing else is marked; all children, old and new, are copies of the parent
  with the number of the parent plus one, the same for all of them, and each will start on its own
  stack with the saved registers.
\<close>

theorem forks_queue_children:
  assumes "queue_inv N link fname regs F M R parent (n + a) Ps k"
  shows "\<exists>Qs k'. fork_times link fname regs clone_flags n k = Some (Inr k') \<and> length Qs = n \<and> distinct (Ps @ Qs) \<and>
    ring (links k') (link ''init_task_union'') (map task_page (Ps @ Qs)) \<and>
    (\<forall>Q \<in> set Qs. \<not> bm_test (bits_map (km k)) Q) \<and>
    (\<forall>x. bm_test (bits_map (km k')) x \<longleftrightarrow> x \<in> set Qs \<or> bm_test (bits_map (km k)) x) \<and>
    mem_inv (km k') M \<and> (\<forall>Q \<in> set (Ps @ Qs). child_ok R parent k' Q) \<and>
    queue_inv N link fname regs F M R parent a (Ps @ Qs) k'"
proof -
  obtain Qs k' where Q: "fork_times link fname regs clone_flags n k = Some (Inr k')" "length Qs = n"
    "\<forall>x. bm_test (bits_map (km k')) x \<longleftrightarrow> x \<in> set Qs \<or> bm_test (bits_map (km k)) x"
    "\<forall>Q \<in> set Qs. \<not> bm_test (bits_map (km k)) Q"
    and inv: "queue_inv N link fname regs F M R parent a (Ps @ Qs) k'"
    using fork_times_queue [OF assms, of clone_flags] by blast
  have "distinct (Ps @ Qs)" "ring (links k') (link ''init_task_union'') (map task_page (Ps @ Qs))" "mem_inv (km k') M"
    "\<forall>Q \<in> set (Ps @ Qs). child_ok R parent k' Q"
    using inv by (simp_all add: queue_inv_def pool_def)
  with Q inv show ?thesis by blast
qed

text \<open>The sample kernel with its three pages.\<close>

lemma three_pages_pool: "pool 3 three_pages {1, 2, 3}"
proof -
  have "first_frames three_pages = {1, 2, 3}" by (auto simp: first_frames_def three_pages_free)
  moreover have "0 < unat (zones_size three_pages)" by (simp add: three_pages_def)
  ultimately show ?thesis
    unfolding pool_def three_pages_zone three_pages_free using three_pages_inv by simp
qed

lemma idle_kernel_queue:
  "queue_inv {0x500} kernel_link (\<lambda>_. 0x500) 0x9000 1 {1, 2, 3} (read_pt_regs (\<lambda>_. 0) 0x9000) (INIT_TASK kernel_link) 3 []
     (idle_kernel three_pages)"
proof -
  have s: "mach (idle_kernel three_pages) = interrupted\<lparr>gpr := (\<lambda>r. if r = Rsp then 0xffff800000187f00 else 0), m_mem := (\<lambda>_. 0)\<rparr>"
    "tasks (idle_kernel three_pages) = (\<lambda>_. INIT_TASK kernel_link)" "km (idle_kernel three_pages) = three_pages"
    "con (idle_kernel three_pages) = wide_screen"
    "links (idle_kernel three_pages) = list_init 0xffff800000180000 \<lparr>lprev = \<lambda>_. 0, lnext = \<lambda>_. 0\<rparr>"
    by (simp_all add: idle_kernel_def)
  have "block 0x9000 192 \<subseteq> kernel_memory 1"
    by (rule block_kernel_memory) (simp_all add: unat_PAGE_OFFSET)
  moreover have "{kernel_link ''init_task_union''} \<union> {0x500} \<subseteq> kernel_memory 1"
    by (simp add: kernel_memory_def unat_PAGE_OFFSET kernel_link_def)
  moreover have "block 0x9000 192 \<inter> {0x500 :: uintptr} = {}" by (simp add: block_iff)
  moreover have "ring (links (idle_kernel three_pages)) (kernel_link ''init_task_union'') []"
    by (simp add: s kernel_link_def ring_init)
  moreover have "get_current (mach (idle_kernel three_pages)) = kernel_link ''init_task_union''"
    by (simp add: s get_current_def kernel_link_def)
  moreover have "ts_flags (INIT_TASK kernel_link) AND PF_KTHREAD \<noteq> 0" by (simp add: INIT_TASK_def PF_KTHREAD_def)
  ultimately show ?thesis
    unfolding queue_inv_def s(2,3,4) three_pages_free using three_pages_pool names_ok_zero by (auto simp: s(1))
qed

theorem forks_queue_children_witness:
  "\<exists>Qs k'. fork_times kernel_link (\<lambda>_. 0x500) 0x9000 0 3 (idle_kernel three_pages) = Some (Inr k') \<and> length Qs = 3 \<and>
     distinct Qs \<and> ring (links k') 0xffff800000180000 (map task_page Qs) \<and> (\<forall>Q \<in> set Qs. Q \<in> {1, 2, 3})"
proof -
  have "queue_inv {0x500} kernel_link (\<lambda>_. 0x500) 0x9000 1 {1, 2, 3} (read_pt_regs (\<lambda>_. 0) 0x9000) (INIT_TASK kernel_link) (3 + 0) []
     (idle_kernel three_pages)"
    using idle_kernel_queue by simp
  from forks_queue_children [OF this, of 0] obtain Qs k' where
    "fork_times kernel_link (\<lambda>_. 0x500) 0x9000 0 3 (idle_kernel three_pages) = Some (Inr k')" "length Qs = 3" "distinct Qs"
    "ring (links k') (kernel_link ''init_task_union'') (map task_page Qs)" "\<forall>Q \<in> set Qs. \<not> bm_test (bits_map (km (idle_kernel three_pages))) Q"
    by auto
  moreover have "km (idle_kernel three_pages) = three_pages" by (simp add: idle_kernel_def)
  ultimately show ?thesis by (intro exI [of _ Qs] exI [of _ k']) (simp add: kernel_link_def three_pages_free)
qed

end
