(* ===== verification/Kernel_Main.thy ===== *)
theory Kernel_Main
  imports Task_Queue Interrupt Trap
begin

text \<open>
  \<^verbatim>\<open>src/main.c\<close>: \<^verbatim>\<open>resolution_init\<close> and \<^verbatim>\<open>kernel_start\<close>, the composition of all parts. The state of the
  system is that of the tasks, which holds the memory manager and the console, with the interrupt
  tables and ports and the task register. \<open>tbl\<close> is the table of the boot loader, \<open>cr3\<close> the page map in
  use, \<open>regs\<close> the address of the local frame of \<^verbatim>\<open>kernel_thread\<close>, \<open>stack_start\<close> the value of
  \<^verbatim>\<open>_stack_start\<close>.
\<close>

section \<open>Operations\<close>

record system =
  ks :: kstate
  io :: cpu
  tr :: uint16

definition resolution_init :: "console \<Rightarrow> console" where
  "resolution_init s =
     set_pos \<lparr>XResolution = 1440, YResolution = 900, XPosition = 0, YPosition = 0, XCharSize = 8, YCharSize = 16,
       FB_addr = 0xffff800000a00000,
       FB_length = (word_of_int (wrap32 (wrap32 (1440 * 900) * 4)) + PAGE_4K_SIZE - 1) AND PAGE_4K_MASK\<rparr> s"

definition KERNEL_DEBUG_PRINT ::
  "(string \<Rightarrow> uintptr) \<Rightarrow> string \<Rightarrow> uint64 \<Rightarrow> string \<Rightarrow> kstate \<Rightarrow> (fault + kstate) option" where
  "KERNEL_DEBUG_PRINT fname func line fmt s =
     Some (bindR (color_printk PURPLE BLACK (m_mem (mach s)) (''KERNEL_DEBUG(%s %d): '' @ fmt @ [CHR 0x0A])
                    [fname func, line] (con s))
             (\<lambda>(n, c). Inr (s\<lparr>con := c\<rparr>)))"

definition set_kernel_bounds :: "(string \<Rightarrow> uintptr) \<Rightarrow> kmem \<Rightarrow> kmem" where
  "set_kernel_bounds link s = s\<lparr>start_code := link ''_text'', end_code := link ''_etext'', end_data := link ''_edata'',
     end_brk := link ''_end''\<rparr>"

text \<open>
  \<^verbatim>\<open>kernel_start\<close> up to the switch to the init thread, from which it returns only when the initial task
  is switched back to; then \<open>kernel_idle\<close> is the rest.
\<close>

definition kernel_start ::
  "(string \<Rightarrow> uintptr) \<Rightarrow> (string \<Rightarrow> uintptr) \<Rightarrow> (nat \<Rightarrow> uintptr) \<Rightarrow> (nat \<Rightarrow> E820) \<Rightarrow> uint64 \<Rightarrow> uintptr \<Rightarrow> uint64 \<Rightarrow>
     system \<Rightarrow> (fault + system) option" where
  "kernel_start link fname interrupt tbl cr3 regs stack_start s =
     (let k = (ks s)\<lparr>con := resolution_init (con (ks s))\<rparr>;
          s = s\<lparr>tr := load_TR 8\<rparr>;
          k = k\<lparr>tss64 := set_tss64 stack_start stack_start stack_start 0xffff800000007c00
                 0xffff800000007c00 0xffff800000007c00 0xffff800000007c00
                 0xffff800000007c00 0xffff800000007c00 0xffff800000007c00 (tss64 k)\<rparr>;
          s = s\<lparr>io := (io s)\<lparr>IDT_Table := init_sys_vector link (IDT_Table (io s))\<rparr>\<rparr> in
     bindT (KERNEL_DEBUG_PRINT fname ''kernel_start'' 72 (''sys vector inited'' @ [CHR 0x0A]) k) (\<lambda>k.
     let k = k\<lparr>km := set_kernel_bounds link (km k)\<rparr> in
     bindT (Some (init_memory tbl cr3 (km k))) (\<lambda>m.
     bindT (KERNEL_DEBUG_PRINT fname ''kernel_start'' 80 (''memory inited'' @ [CHR 0x0A]) (k\<lparr>km := m\<rparr>)) (\<lambda>k.
     let s = s\<lparr>io := init_interrupt interrupt (io s)\<rparr> in
     bindT (KERNEL_DEBUG_PRINT fname ''kernel_start'' 109 (''interrupt inited'' @ [CHR 0x0A]) k) (\<lambda>k.
     bindT (task_init link fname regs stack_start k) (\<lambda>k.
     Some (Inr (s\<lparr>ks := k\<rparr>))))))))"

definition kernel_idle :: "(string \<Rightarrow> uintptr) \<Rightarrow> kstate \<Rightarrow> (fault + kstate ending) option" where
  "kernel_idle fname k =
     bindT (KERNEL_DEBUG_PRINT fname ''kernel_start'' 112 (''task inited'' @ [CHR 0x0A]) k) (\<lambda>k. Some (Inr (Loops k)))"

section \<open>Messages\<close>

lemma resolution_init_cursor:
  "cursor_ok (resolution_init s)" "cols (resolution_init s) = 180" "rows (resolution_init s) = 56"
  by (simp_all add: resolution_init_def set_pos_def cursor_ok_def screen_def cols_def rows_def)

lemma kernel_debug_con:
  assumes "cstr (m_mem (mach s)) (fname func) n" and "n < 100" and "cursor_ok c" and "plain fmt" and "length fmt < 100"
  shows "\<exists>c'. KERNEL_DEBUG_PRINT fname func line (fmt @ [CHR 0x0A]) (s\<lparr>con := c\<rparr>) = Some (Inr (s\<lparr>con := c'\<rparr>)) \<and> cursor_ok c'"
proof -
  let ?m = "m_mem (mach s)"
  have "formats ?m (''): '' @ fmt @ [CHR 0x0A, CHR 0x0A]) [] 200"
    by (rule formats_plain) (use assms(4,5) in \<open>auto simp: NUL_def\<close>)
  then have f: "formats ?m ('' '' @ ''%d'' @ (''): '' @ fmt @ [CHR 0x0A, CHR 0x0A])) [line] 1157"
    by (rule formats_decimal [rotated]) (simp_all add: NUL_def)
  have "formats ?m (''KERNEL_DEBUG('' @ ''%s'' @ ('' '' @ ''%d'' @ (''): '' @ fmt @ [CHR 0x0A, CHR 0x0A]))) [fname func, line] 4095"
    by (rule formats_string [OF _ f assms(1)]) (use assms(2) in \<open>simp_all add: NUL_def\<close>)
  from color_printk_returns [OF assms(3) this, of PURPLE BLACK] show ?thesis
    by (auto simp: KERNEL_DEBUG_PRINT_def)
qed

lemma messages_plain: "plain ''sys vector inited''" "plain ''memory inited''" "plain ''interrupt inited''" "plain ''task inited''"
  by (simp_all add: NUL_def)

text \<open>When the initial task is switched back to, it prints and stays in its loop.\<close>

lemma kernel_idle_loops:
  assumes "cstr (m_mem (mach k)) (fname ''kernel_start'') n" and "n < 100" and "cursor_ok (con k)"
  shows "\<exists>c. kernel_idle fname k = Some (Inr (Loops (k\<lparr>con := c\<rparr>))) \<and> cursor_ok c"
  using kernel_debug_con [where fname = fname and func = "''kernel_start''" and s = k and line = 112, OF assms messages_plain(4)]
  by (auto simp: kernel_idle_def)

section \<open>From the boot loader to the init thread\<close>

text \<open>
  What the boot code, the linker and the compiler leave: a machine that boots; names of functions that
  are terminated texts; the initial task current; and everything the kernel uses, the name texts, the
  local frame of \<^verbatim>\<open>kernel_thread\<close>, the top of the stack and the initial task, below the end of the
  kernel's pages and apart.
\<close>

definition kernel_ready ::
  "uintptr set \<Rightarrow> (string \<Rightarrow> uintptr) \<Rightarrow> (string \<Rightarrow> uintptr) \<Rightarrow> uintptr \<Rightarrow> (nat \<Rightarrow> E820) \<Rightarrow> kstate \<Rightarrow> bool" where
  "kernel_ready N link fname regs tbl k \<longleftrightarrow>
     boots_with 1 tbl (set_kernel_bounds link (km k)) \<and> names_ok N fname (m_mem (mach k)) \<and>
     (\<exists>n < 100. cstr (m_mem (mach k)) (fname ''kernel_start'') n) \<and>
     get_current (mach k) = link ''init_task_union'' \<and> tasks k (link ''init_task_union'') = INIT_TASK link \<and>
     {link ''init_task_union'', link ''init_thread''} \<union> N \<union> block regs 192 \<union> block (gpr (mach k) Rsp - 16) 16
       \<subseteq> kernel_memory (kernel_frames tbl (set_kernel_bounds link (km k))) \<and>
     block regs 192 \<inter> N = {} \<and> block (gpr (mach k) Rsp - 16) 16 \<inter> N = {}"

lemma block_self: "0 < k \<Longrightarrow> k < 2 ^ 64 \<Longrightarrow> a \<in> block a k"
  by (simp add: block_iff)

lemma boot_apart:
  assumes ready: "kernel_ready N link fname regs tbl k"
    and P: "kernel_frames tbl (set_kernel_bounds link (km k)) \<le> P" "P < 128"
  shows "block (stack_frame (task_page P)) 192 \<inter> N = {}" and "block (stack_frame (task_page P) - 8) 8 \<inter> N = {}"
    and "block regs 192 \<inter> block (stack_frame (task_page P)) 192 = {}"
    and "block (gpr (mach k) Rsp - 16) 16 \<inter> block (stack_frame (task_page P)) 192 = {}"
    and "link ''init_task_union'' \<noteq> task_page P" and "link ''init_thread'' \<noteq> task_page P + sizeof_task_struct"
proof -
  let ?n = "kernel_frames tbl (set_kernel_bounds link (km k))"
  have frame: "stack_frame (task_page P) = task_page P + 32576" "stack_frame (task_page P) - 8 = task_page P + 32568"
    by (simp_all add: stack_frame_def STACK_SIZE_def sizeof_pt_regs_def)
  have sub: "N \<subseteq> kernel_memory ?n" "block regs 192 \<subseteq> kernel_memory ?n" "block (gpr (mach k) Rsp - 16) 16 \<subseteq> kernel_memory ?n"
    "{link ''init_task_union''} \<subseteq> kernel_memory ?n" "{link ''init_thread''} \<subseteq> kernel_memory ?n"
    using ready by (simp_all add: kernel_ready_def)
  note apart = task_page_apart [OF P(2,1)]
  show "block (stack_frame (task_page P)) 192 \<inter> N = {}" unfolding frame by (rule apart [OF sub(1)]) simp
  show "block (stack_frame (task_page P) - 8) 8 \<inter> N = {}" unfolding frame(2) by (rule apart [OF sub(1)]) simp
  show "block regs 192 \<inter> block (stack_frame (task_page P)) 192 = {}"
    unfolding frame by (subst Int_commute, rule apart [OF sub(2)]) simp
  show "block (gpr (mach k) Rsp - 16) 16 \<inter> block (stack_frame (task_page P)) 192 = {}"
    unfolding frame by (subst Int_commute, rule apart [OF sub(3)]) simp
  show "link ''init_task_union'' \<noteq> task_page P" using apart [OF sub(4), of 0 1] block_self [of 1 "task_page P"] by auto
  show "link ''init_thread'' \<noteq> task_page P + sizeof_task_struct"
    using apart [OF sub(5), of sizeof_task_struct 1] block_self [of 1 "task_page P + sizeof_task_struct"]
    by (auto simp: sizeof_task_struct_def)
qed

lemma boot_fork_ready:
  assumes ready: "kernel_ready N link fname regs tbl k"
    and P: "kernel_frames tbl (set_kernel_bounds link (km k)) \<le> P" "P < 128" "P \<in> pages_known tbl"
    and same: "mach k' = mach k" "cursor_ok (con k')"
    and alloc: "alloc_pages ZONE_NORMAL 1 (PG_PTable_Maped OR PG_Active OR PG_Kernel) (km k') = Some (Inr (m, Some (of_nat P)))"
    and addr: "\<forall>x \<in> pages_known tbl. phy_addr (pages m x) = page_addr x"
  shows "fork_ready N fname regs (task_page P) m k'"
proof -
  have "unat (of_nat P :: uint64) = P" by (rule unat_of_nat_small) (use P(2) in simp)
  then have "task_page P = Phy_To_Virt (phy_addr (pages m (unat (of_nat P :: uint64))))"
    using addr P(3) by (simp add: task_page_def)
  moreover have "get_current (mach k') \<noteq> task_page P"
    using boot_apart(5) [OF ready P(1,2)] ready by (simp add: same kernel_ready_def)
  moreover have "block regs 192 \<inter> N = {}" "names_ok N fname (m_mem (mach k'))"
    using ready by (simp_all add: kernel_ready_def same)
  ultimately show ?thesis
    unfolding fork_ready_def using alloc same(2) boot_apart(1,3) [OF ready P(1,2)] by blast
qed

text \<open>Once memory and the queue are initialised, the initial task can make a child for every frame below 63.\<close>

lemma booted_queue:
  assumes ready: "kernel_ready N link fname regs tbl k" and "cursor_ok c"
    and boot: "boots_with n tbl (set_kernel_bounds link (km k))" "kernel_frames tbl (set_kernel_bounds link (km k)) + n \<le> 63"
  shows "\<exists>t. init_memory tbl cr3 (set_kernel_bounds link (km k)) = Inr t \<and>
    queue_inv N link fname regs (kernel_frames tbl (set_kernel_bounds link (km k))) (pages_known tbl)
      (read_pt_regs (m_mem (mach k)) regs) (INIT_TASK link) n []
      (k\<lparr>km := t, con := c, links := list_init (link ''init_task_union'') (links k)\<rparr>)"
proof -
  obtain t where t: "init_memory tbl cr3 (set_kernel_bounds link (km k)) = Inr t" "pool n t (pages_known tbl)"
    "\<forall>x < 128. \<not> bm_test (bits_map t) x \<longrightarrow> kernel_frames tbl (set_kernel_bounds link (km k)) \<le> x"
    using boot_pool [OF boot, of cr3] by blast
  have "ts_flags (INIT_TASK link) AND PF_KTHREAD \<noteq> 0" by (simp add: INIT_TASK_def PF_KTHREAD_def)
  then show ?thesis
    using ready t assms(2) by (auto simp: kernel_ready_def queue_inv_def ring_init)
qed

text \<open>Up to the call of \<^verbatim>\<open>task_init\<close>.\<close>

definition boot_tss :: "uint64 \<Rightarrow> tss_table \<Rightarrow> tss_table" where
  "boot_tss st = set_tss64 st st st 0xffff800000007c00 0xffff800000007c00 0xffff800000007c00
     0xffff800000007c00 0xffff800000007c00 0xffff800000007c00 0xffff800000007c00"

definition booted_io :: "(string \<Rightarrow> uintptr) \<Rightarrow> (nat \<Rightarrow> uintptr) \<Rightarrow> cpu \<Rightarrow> cpu" where
  "booted_io link interrupt c = init_interrupt interrupt (c\<lparr>IDT_Table := init_sys_vector link (IDT_Table c)\<rparr>)"

lemma kernel_start_to_task_init:
  assumes n: "cstr (m_mem (mach (ks s))) (fname ''kernel_start'') n" "n < 100"
    and mem: "init_memory tbl cr3 (set_kernel_bounds link (km (ks s))) = Inr t"
  shows "\<exists>c. cursor_ok c \<and> kernel_start link fname interrupt tbl cr3 regs st s =
    bindT (task_init link fname regs st ((ks s)\<lparr>tss64 := boot_tss st (tss64 (ks s)), km := t, con := c\<rparr>))
      (\<lambda>k. Some (Inr (s\<lparr>tr := load_TR 8, io := booted_io link interrupt (io s), ks := k\<rparr>)))"
proof -
  define k0 where "k0 = (ks s)\<lparr>tss64 := boot_tss st (tss64 (ks s))\<rparr>"
  define k2 where "k2 = k0\<lparr>km := t\<rparr>"
  have mach: "mach k0 = mach (ks s)" "mach k2 = mach (ks s)" "km k0 = km (ks s)" by (simp_all add: k0_def k2_def)
  note say = kernel_debug_con [of _ fname "''kernel_start''" n, OF _ n(2)]
  obtain c1 where c1: "KERNEL_DEBUG_PRINT fname ''kernel_start'' 72 (''sys vector inited'' @ [CHR 0x0A])
      (k0\<lparr>con := resolution_init (con (ks s))\<rparr>) = Some (Inr (k0\<lparr>con := c1\<rparr>))" "cursor_ok c1"
    using say [OF _ resolution_init_cursor(1) messages_plain(1), of k0] n(1) by (auto simp: mach)
  obtain c2 where c2: "KERNEL_DEBUG_PRINT fname ''kernel_start'' 80 (''memory inited'' @ [CHR 0x0A]) (k2\<lparr>con := c1\<rparr>) =
      Some (Inr (k2\<lparr>con := c2\<rparr>))" "cursor_ok c2"
    using say [OF _ c1(2) messages_plain(2), of k2] n(1) by (auto simp: mach)
  obtain c3 where c3: "KERNEL_DEBUG_PRINT fname ''kernel_start'' 109 (''interrupt inited'' @ [CHR 0x0A]) (k2\<lparr>con := c2\<rparr>) =
      Some (Inr (k2\<lparr>con := c3\<rparr>))" "cursor_ok c3"
    using say [OF _ c2(2) messages_plain(3), of k2] n(1) by (auto simp: mach)
  have swap: "(ks s)\<lparr>con := c, tss64 := v\<rparr> = (ks s)\<lparr>tss64 := v, con := c\<rparr>" "k0\<lparr>con := c, km := v'\<rparr> = k0\<lparr>km := v', con := c\<rparr>"
    "k\<lparr>km := a, con := c, km := b\<rparr> = k\<lparr>km := b, con := c\<rparr>" for c v v' a b k
    by simp_all
  show ?thesis
    unfolding kernel_start_def Let_def
    using c1(1) c2(1) c3 mem by (intro exI [of _ c3]) (simp add: swap mach booted_io_def flip: boot_tss_def k0_def k2_def)
qed

lemma kernel_start_runs:
  assumes ready: "kernel_ready N link fname regs tbl (ks s)"
  shows "\<exists>s' P. kernel_start link fname interrupt tbl cr3 regs st s = Some (Inr s') \<and>
    P \<in> frames_of (ram tbl) \<and> P = kernel_frames tbl (set_kernel_bounds link (km (ks s))) \<and>
    m_rip (mach (ks s')) = link ''kernel_thread_func'' \<and>
    gpr (run kernel_thread_func (mach (ks s'))) Rbx = link ''init'' \<and> gpr (run kernel_thread_func (mach (ks s'))) Rdi = 10 \<and>
    gpr (run kernel_thread_func (mach (ks s'))) Rsp = task_page P + STACK_SIZE \<and>
    ring (links (ks s')) (link ''init_task_union'') [task_page P] \<and> ts_pid (tasks (ks s') (task_page P)) = 1 \<and>
    mem_inv (km (ks s')) (pages_known tbl) \<and>
    mm_pgd (init_mm (ks s')) = cr3 \<and> mm_start_code (init_mm (ks s')) = link ''_text'' \<and> mm_end_brk (init_mm (ks s')) = link ''_end'' \<and>
    (\<forall>n. IDT_Table (io s') n = (if 0x20 \<le> n \<and> n < 0x38 then set_gate 0x8E 2 (interrupt (n - 0x20))
       else init_sys_vector link (IDT_Table (io s)) n)) \<and>
    if_flag (io s') \<and> tr s' = 0x40 \<and> cursor_ok (con (ks s')) \<and> names_ok N fname (m_mem (mach (ks s')))"
proof -
  define m0 where "m0 = set_kernel_bounds link (km (ks s))"
  have boot: "boots_with 1 tbl m0" and cur: "get_current (mach (ks s)) = link ''init_task_union''"
    and task: "tasks (ks s) (link ''init_task_union'') = INIT_TASK link"
    and away: "block (gpr (mach (ks s)) Rsp - 16) 16 \<inter> N = {}"
    using ready by (simp_all add: kernel_ready_def m0_def)
  obtain n where n: "cstr (m_mem (mach (ks s))) (fname ''kernel_start'') n" "n < 100"
    using ready by (auto simp: kernel_ready_def)
  have flags: "PG_PTable_Maped OR PG_Active OR PG_Kernel \<noteq> 0"
    by (simp add: PG_PTable_Maped_def PG_Active_def PG_Kernel_def)
  obtain t P m where mem: "init_memory tbl cr3 m0 = Inr t"
    "alloc_pages ZONE_NORMAL 1 (PG_PTable_Maped OR PG_Active OR PG_Kernel) t = Some (Inr (m, Some (of_nat P)))"
    and P: "P \<in> frames_of (ram tbl)" "P = kernel_frames tbl m0" "P < 128"
    and kept: "\<forall>x \<in> pages_known tbl. phy_addr (pages m x) = page_addr x" "g_cr3 t = cr3" "start_code t = start_code m0"
      "end_brk t = end_brk m0" "mem_inv m (pages_known tbl)"
    using boot_alloc_claimed [OF boot _ _ flags, of cr3] by auto
  obtain c where c: "cursor_ok c" "kernel_start link fname interrupt tbl cr3 regs st s =
      bindT (task_init link fname regs st ((ks s)\<lparr>tss64 := boot_tss st (tss64 (ks s)), km := t, con := c\<rparr>))
        (\<lambda>k. Some (Inr (s\<lparr>tr := load_TR 8, io := booted_io link interrupt (io s), ks := k\<rparr>)))"
    using kernel_start_to_task_init [where s = s and fname = fname and link = link and interrupt = interrupt and regs = regs and st = st,
        OF n mem(1) [unfolded m0_def]] by blast
  define k3 where "k3 = (ks s)\<lparr>tss64 := boot_tss st (tss64 (ks s)), km := t, con := c\<rparr>"
  have k3: "mach k3 = mach (ks s)" "tasks k3 = tasks (ks s)" "km k3 = t" "con k3 = c"
    by (simp_all add: k3_def)
  have fork: "fork_ready N fname regs (task_page P) m k3"
    by (rule boot_fork_ready [OF ready]) (use P c(1) mem(2) kept(1) in \<open>simp_all add: k3 m0_def pages_known_def\<close>)
  have apart: "block (stack_frame (task_page P) - 8) 8 \<inter> N = {}"
    "block (gpr (mach (ks s)) Rsp - 16) 16 \<inter> block (stack_frame (task_page P)) 192 = {}"
    "link ''init_thread'' \<noteq> task_page P + sizeof_task_struct"
    by (rule boot_apart [OF ready], use P in \<open>simp_all add: m0_def\<close>)+
  have init: "ts_flags (tasks k3 (link ''init_task_union'')) AND PF_KTHREAD \<noteq> 0" "ts_pid (tasks k3 (link ''init_task_union'')) = 0"
    "ts_thread (tasks k3 (link ''init_task_union'')) \<noteq> task_page P + sizeof_task_struct"
    using apart(3) by (simp_all add: k3 task INIT_TASK_def PF_KTHREAD_def)
  obtain u where u: "task_init link fname regs st k3 = Some (Inr u)"
    and facts: "m_rip (mach u) = link ''kernel_thread_func''" "gpr (run kernel_thread_func (mach u)) Rbx = link ''init''"
      "gpr (run kernel_thread_func (mach u)) Rdi = 10" "gpr (run kernel_thread_func (mach u)) Rsp = task_page P + STACK_SIZE"
      "ring (links u) (link ''init_task_union'') [task_page P]" "ts_pid (tasks u (task_page P)) = 1"
      "km u = m" "init_mm u = init_mm (set_init_mm link st k3)" "cursor_ok (con u)" "names_ok N fname (m_mem (mach u))"
    using task_init_runs [where link = link and st = st and s = k3 and N = N, OF fork _ init] cur away apart(1,2) by (auto simp: k3)
  show ?thesis
    using facts P kept init_interrupt_table [of interrupt "(io s)\<lparr>IDT_Table := init_sys_vector link (IDT_Table (io s))\<rparr>"]
    by (intro exI [of _ "s\<lparr>tr := load_TR 8, io := booted_io link interrupt (io s), ks := u\<rparr>"] exI [of _ P])
      (simp add: c(2) u [unfolded k3_def] m0_def set_init_mm_def k3 set_kernel_bounds_def load_TR_def booted_io_def)
qed

section \<open>Properties\<close>

text \<open>
  Property C1: the kernel boots. From the state the boot code leaves, with a good table of memory,
  \<^verbatim>\<open>kernel_start\<close> runs through all its parts without a fault and ends in the init thread: the processor
  is at \<^verbatim>\<open>kernel_thread_func\<close>, which then calls \<^verbatim>\<open>init\<close> with 10 on the empty stack of a task made in the
  first page of RAM behind the kernel, process 1 and the only other task of the queue. The accounts of
  memory balance, the descriptor table has the gates of the exceptions and those of the
  interrupts, the task register selects descriptor 8, interrupts are on, and
  \<open>init_mm\<close> holds the page map and the bounds of the kernel.
\<close>

theorem kernel_start_reaches_init:
  assumes ready: "kernel_ready N link fname regs tbl (ks s)"
  shows "\<exists>s' P. kernel_start link fname interrupt tbl cr3 regs st s = Some (Inr s') \<and>
    P \<in> frames_of (ram tbl) \<and> P = kernel_frames tbl (set_kernel_bounds link (km (ks s))) \<and>
    m_rip (mach (ks s')) = link ''kernel_thread_func'' \<and>
    gpr (run kernel_thread_func (mach (ks s'))) Rbx = link ''init'' \<and> gpr (run kernel_thread_func (mach (ks s'))) Rdi = 10 \<and>
    gpr (run kernel_thread_func (mach (ks s'))) Rsp = task_page P + STACK_SIZE \<and>
    ring (links (ks s')) (link ''init_task_union'') [task_page P] \<and> ts_pid (tasks (ks s') (task_page P)) = 1 \<and>
    mem_inv (km (ks s')) (pages_known tbl) \<and>
    mm_pgd (init_mm (ks s')) = cr3 \<and> mm_start_code (init_mm (ks s')) = link ''_text'' \<and> mm_end_brk (init_mm (ks s')) = link ''_end'' \<and>
    (\<forall>n. IDT_Table (io s') n = (if 0x20 \<le> n \<and> n < 0x38 then set_gate 0x8E 2 (interrupt (n - 0x20))
       else init_sys_vector link (IDT_Table (io s)) n)) \<and>
    if_flag (io s') \<and> tr s' = 0x40 \<and> cursor_ok (con (ks s'))"
  using kernel_start_runs [OF ready, of interrupt cr3 st] by blast

text \<open>The sample kernel, whose image ends at 5.25 MB, on the sample machine.\<close>

definition boot_link :: "string \<Rightarrow> uintptr" where
  "boot_link = kernel_link(''_end'' := 0xffff800000540000)"

definition loaded :: system where
  "loaded = \<lparr>ks = idle_kernel memory_management_struct, io = \<lparr>ports = [], if_flag = False, IDT_Table = (\<lambda>_. (0, 0))\<rparr>, tr = 0\<rparr>"

lemma loaded_ready: "kernel_ready {0x500} boot_link (\<lambda>_. 0x500) 0x9000 two_gigabytes (ks loaded)"
proof -
  let ?m = "set_kernel_bounds boot_link memory_management_struct"
  have m: "fresh ?m" "end_brk ?m = 0xffff800000540000" "g_zone_dma ?m = 0" "g_zone_normal ?m = 0"
    by (simp_all add: set_kernel_bounds_def memory_management_struct_def fresh_def boot_link_def)
  have k: "kernel_frames two_gigabytes ?m = 3" "boots_with 1 two_gigabytes ?m"
    by (rule boots_with_two_gigabytes(1) [OF m], rule boots_with_two_gigabytes(2) [OF m], simp)
  have sp: "gpr (mach (ks loaded)) Rsp = 0xffff800000187f00" "m_mem (mach (ks loaded)) = (\<lambda>_. 0)"
    "km (ks loaded) = memory_management_struct" "tasks (ks loaded) = (\<lambda>_. INIT_TASK kernel_link)"
    by (simp_all add: loaded_def idle_kernel_def)
  have link: "boot_link ''init_task_union'' = 0xffff800000180000" "boot_link ''init_thread'' = 0xffff800000190000"
    "INIT_TASK kernel_link = INIT_TASK boot_link"
    by (simp_all add: boot_link_def kernel_link_def INIT_TASK_def)
  have small: "{boot_link ''init_task_union'', boot_link ''init_thread''} \<union> {0x500} \<subseteq> kernel_memory 3"
    by (simp add: link kernel_memory_def unat_PAGE_OFFSET)
  have blocks: "block 0x9000 192 \<subseteq> kernel_memory 3" "block (gpr (mach (ks loaded)) Rsp - 16) 16 \<subseteq> kernel_memory 3"
    by (rule block_kernel_memory; simp add: sp unat_PAGE_OFFSET)+
  have "block 0x9000 192 \<inter> {0x500} = {}" "block (gpr (mach (ks loaded)) Rsp - 16) 16 \<inter> {0x500} = {}"
    by (simp_all add: sp block_iff)
  moreover have "get_current (mach (ks loaded)) = boot_link ''init_task_union''"
    by (simp add: get_current_def sp link)
  ultimately show ?thesis
    unfolding kernel_ready_def sp(2,3,4) using k names_ok_zero small blocks link(3)
    by (auto simp: cstr_def intro!: exI [of _ 0])
qed

lemma loaded_frames: "kernel_frames two_gigabytes (set_kernel_bounds boot_link (km (ks loaded))) = 3"
  by (rule boots_with_two_gigabytes(1))
    (simp_all add: loaded_def idle_kernel_def set_kernel_bounds_def memory_management_struct_def fresh_def boot_link_def)

theorem kernel_start_reaches_init_witness:
  "\<exists>s' P. kernel_start boot_link (\<lambda>_. 0x500) (\<lambda>k. 0xffff800000106000 + 16 * of_nat k) two_gigabytes 0x101000 0x9000
      0xffff800000188000 loaded = Some (Inr s') \<and> P = 3 \<and>
    gpr (run kernel_thread_func (mach (ks s'))) Rbx = 0xffff800000104000 \<and> ts_pid (tasks (ks s') (task_page P)) = 1 \<and>
    IDT_Table (io s') 0x21 = set_gate 0x8E 2 0xffff800000106010"
  using kernel_start_reaches_init [OF loaded_ready, of "\<lambda>k. 0xffff800000106000 + 16 * of_nat k" "0x101000" "0xffff800000188000", unfolded loaded_frames]
  by (fastforce simp: boot_link_def kernel_link_def)

text \<open>
  Property C2: the init thread runs to its end. After \<^verbatim>\<open>kernel_start\<close> the thread calls \<^verbatim>\<open>init\<close> with 10 and hands
  the 1 it returns to \<^verbatim>\<open>do_exit\<close>, which loops: no call on the way faults or fails to return. While it
  loops, the accounts of memory balance, the queue holds the one task, its stack is empty and the cursor
  is on the screen.
\<close>

theorem init_thread_runs_to_end:
  assumes ready: "kernel_ready N link fname regs tbl (ks s)" and code: "code (link ''init'') = init fname"
  shows "\<exists>s' k P. kernel_start link fname interrupt tbl cr3 regs st s = Some (Inr s') \<and>
    init fname 10 ((ks s')\<lparr>mach := run kernel_thread_func (mach (ks s'))\<rparr>) = Some (Inr (1, k)) \<and>
    (\<exists>u. run_thread code fname (ks s') = Some (Inr (Loops u)) \<and> do_exit fname 1 k = Some (Inr (Loops u)) \<and>
      gpr (mach u) Rsp = task_page P + STACK_SIZE \<and> ring (links u) (link ''init_task_union'') [task_page P] \<and>
      mem_inv (km u) (pages_known tbl) \<and> cursor_ok (con u))"
proof -
  obtain s' P where s': "kernel_start link fname interrupt tbl cr3 regs st s = Some (Inr s')"
    "gpr (run kernel_thread_func (mach (ks s'))) Rbx = link ''init''" "gpr (run kernel_thread_func (mach (ks s'))) Rdi = 10"
    "gpr (run kernel_thread_func (mach (ks s'))) Rsp = task_page P + STACK_SIZE"
    "ring (links (ks s')) (link ''init_task_union'') [task_page P]" "mem_inv (km (ks s')) (pages_known tbl)"
    "cursor_ok (con (ks s'))" "names_ok N fname (m_mem (mach (ks s')))"
    using kernel_start_runs [OF ready, of interrupt cr3 st] by blast
  let ?k = "(ks s')\<lparr>mach := run kernel_thread_func (mach (ks s'))\<rparr>"
  have names: "names_ok N fname (m_mem (mach ?k))"
    using s'(8) kernel_thread_func_state(6) [OF refl refl refl, of "mach (ks s')"] by simp
  obtain c1 where c1: "init fname 10 ?k = Some (Inr (1, ?k\<lparr>con := c1\<rparr>))" "cursor_ok c1"
    using init_returns [OF names] s'(7) by auto
  obtain c2 where c2: "do_exit fname 1 (?k\<lparr>con := c1\<rparr>) = Some (Inr (Loops (?k\<lparr>con := c2\<rparr>)))" "cursor_ok c2"
    using do_exit_loops [OF names c1(2)] by blast
  have "run_thread code fname (ks s') = Some (Inr (Loops (?k\<lparr>con := c2\<rparr>)))"
    using c1(1) c2(1) by (simp add: run_thread_def s'(2,3) code Let_def)
  then show ?thesis
    using s' c1(1) c2 by (intro exI [of _ s'] exI [of _ "?k\<lparr>con := c1\<rparr>"] exI [of _ P] conjI exI [of _ "?k\<lparr>con := c2\<rparr>"]) simp_all
qed

theorem init_thread_runs_to_end_witness:
  "\<exists>s' u. kernel_start boot_link (\<lambda>_. 0x500) (\<lambda>k. 0xffff800000106000 + 16 * of_nat k) two_gigabytes 0x101000 0x9000
      0xffff800000188000 loaded = Some (Inr s') \<and>
    run_thread (\<lambda>a. if a = 0xffff800000104000 then init (\<lambda>_. 0x500) else (\<lambda>_ _. None)) (\<lambda>_. 0x500) (ks s') = Some (Inr (Loops u)) \<and>
    cursor_ok (con u)"
  using init_thread_runs_to_end [OF loaded_ready, of "\<lambda>a. if a = 0xffff800000104000 then init (\<lambda>_. 0x500) else (\<lambda>_ _. None)"
      "\<lambda>k. 0xffff800000106000 + 16 * of_nat k" "0x101000" "0xffff800000188000"]
  by (fastforce simp: boot_link_def kernel_link_def)

end
