(* ===== verification/Kernel_Map.thy ===== *)
theory Kernel_Map
  imports Mem_Map Mem_Pool Kernel_Main
begin

text \<open>
  The page map of \<^verbatim>\<open>src/head.sx\<close> with the parts of the kernel that write through it: the tasks in pages of
  \<^verbatim>\<open>alloc_pages\<close> (\<^verbatim>\<open>src/memory.c\<close>, \<^verbatim>\<open>src/task.c\<close>) and the screen that \<^verbatim>\<open>resolution_init\<close> (\<^verbatim>\<open>src/main.c\<close>)
  describes. The other theories take the kernel address of every page for memory of its own; here is for
  which pages the tables make it so.
\<close>

section \<open>The map after the start\<close>

definition kernel_map :: "mmu \<Rightarrow> bool" where
  "kernel_map s \<longleftrightarrow> kernel_tables PML4E_kernel (phys s) \<and> cr3 s = 0x101000 \<and> cached_from (phys s) s"

lemma drop_low_map_kernel_map:
  assumes "kernel_tables PML4E (phys s)" and "cr3 s = 0x101000" and "cached_from (phys s) s"
  shows "\<exists>t. drop_low_map s = Inr t \<and> kernel_map t"
  using clear_entries_cleared [OF assms] assms(2) by (auto simp: kernel_map_def cached_from_def)

lemma translate_kernel_map:
  assumes "kernel_map s" and "unat a < 2 ^ 47"
  shows "translate s (Phy_To_Virt a) = direct a"
  using translate_tables(2) [OF _ valid_tops(2) _ _ _ assms(2), of s] assms(1)
  by (simp add: kernel_map_def PML4E_kernel_nth)

text \<open>Where byte \<open>off\<close> of frame \<open>P\<close> is when it is written through the kernel address of the frame.\<close>

definition frame_target :: "nat \<Rightarrow> nat \<Rightarrow> uintptr option" where
  "frame_target P off =
     (if P < 5 then Some (page_addr P + of_nat off)
      else if P < 13 then Some (0xe0000000 + of_nat ((P - 5) * 2097152 + off))
      else None)"

lemma translate_task_page:
  assumes "kernel_map s" and "P < 128" and "off < 2097152"
  shows "translate s (task_page P + of_nat off) = frame_target P off"
proof -
  let ?a = "page_addr P + of_nat off"
  have a: "unat ?a = P * 2097152 + off"
    using assms(2,3) unat_add_nat [of "page_addr P" off] by (simp add: unat_page_addr)
  then have "unat ?a < 2 ^ 47" using assms(2,3) by simp
  from translate_kernel_map [OF assms(1) this]
  have t: "translate s (task_page P + of_nat off) = direct ?a"
    by (simp add: task_page_def Phy_To_Virt_def algebra_simps)
  have frame: "unat ?a div 2097152 = P" "unat ?a mod 2097152 = off" unfolding a using assms(3) by simp_all
  show ?thesis
  proof (cases "P < 13")
    case True
    then have "unat ?a < 0x1a00000" unfolding a using assms(3) by linarith
    from direct_frame [OF this] show ?thesis
      unfolding t frame using True by (simp add: head_frame_def frame_target_def page_addr_def PAGE_2M_SIZE_num)
  next
    case False
    then have "0x1a00000 \<le> unat ?a" unfolding a by linarith
    then show ?thesis
      using False by (simp add: t direct_def word_less_nat_alt frame_target_def del: unat_add_nat)
  qed
qed
section \<open>Properties\<close>


lemma booted_kernel_map: "\<exists>mm. drop_low_map booted_mmu = Inr mm \<and> kernel_map mm"
  by (rule drop_low_map_kernel_map [OF _ booted_mmu_state(2,3)]) (simp add: booted_mmu_state(1) head_image_tables)


text \<open>
  Property C14: the init thread has memory of its own when the kernel ends below 8 MB. If the kernel's pages are
  among the first four frames, every byte of the 32 KB that hold the task and the stack of the thread that
  \<^verbatim>\<open>kernel_start\<close> switches to is in the frame the allocator gave out.
\<close>

theorem init_thread_in_direct_map:
  assumes ready: "kernel_ready N link fname regs tbl (ks s)" and map: "kernel_map mm"
    and k: "k = kernel_frames tbl (set_kernel_bounds link (km (ks s)))" "k < 5"
  shows "\<exists>s'. kernel_start link fname interrupt tbl (get_gdt mm) regs st s = Some (Inr s') \<and>
    gpr (run kernel_thread_func (mach (ks s'))) Rsp = task_page k + STACK_SIZE \<and>
    ring (links (ks s')) (link ''init_task_union'') [task_page k] \<and>
    (\<forall>off < 32768. translate mm (task_page k + of_nat off) = Some (page_addr k + of_nat off))"
proof -
  have "translate mm (task_page k + of_nat off) = Some (page_addr k + of_nat off)" if "off < 32768" for off
    using translate_task_page [OF map, of k off] that k(2) by (simp add: frame_target_def)
  then show ?thesis using kernel_start_runs [OF ready, of interrupt "get_gdt mm" st] k(1) by blast
qed

theorem init_thread_in_direct_map_witness:
  "\<exists>mm s'. kernel_map mm \<and> kernel_start boot_link (\<lambda>_. 0x500) (\<lambda>k. 0xffff800000106000 + 16 * of_nat k) two_gigabytes
      (get_gdt mm) 0x9000 0xffff800000188000 loaded = Some (Inr s') \<and>
    gpr (run kernel_thread_func (mach (ks s'))) Rsp = 0xffff800000608000 \<and>
    translate mm 0xffff800000607ff8 = Some 0x607ff8"
proof -
  obtain mm where mm: "kernel_map mm" using booted_kernel_map by blast
  obtain s' where "kernel_start boot_link (\<lambda>_. 0x500) (\<lambda>k. 0xffff800000106000 + 16 * of_nat k) two_gigabytes
      (get_gdt mm) 0x9000 0xffff800000188000 loaded = Some (Inr s')"
    "gpr (run kernel_thread_func (mach (ks s'))) Rsp = task_page 3 + STACK_SIZE"
    "\<forall>off < 32768. translate mm (task_page 3 + of_nat off) = Some (page_addr 3 + of_nat off)"
    using init_thread_in_direct_map [OF loaded_ready mm loaded_frames [symmetric],
        of "\<lambda>k. 0xffff800000106000 + 16 * of_nat k" "0xffff800000188000"] by auto
  then show ?thesis
    using mm by (intro exI [of _ mm] exI [of _ s'])
      (auto simp: task_page_def Phy_To_Virt_def PAGE_OFFSET_def page_addr_def PAGE_2M_SIZE_num STACK_SIZE_def elim!: allE [of _ 32760])
qed

text \<open>
  Property C37: the screen is where the map puts the frame buffer, and where the map puts the frames behind
  the fifth. Every pixel of the resolution \<^verbatim>\<open>resolution_init\<close> sets is reached at its place behind
  0xe0000000; the address of the first is the kernel address of frame 5, so that a task in that frame
  is drawn on the screen.
\<close>

theorem screen_shares_frame_5:
  assumes "kernel_map mm" and "c' = resolution_init c" and "0 \<le> x" "x < XResolution (Pos c')" and "0 \<le> y" "y < YResolution (Pos c')"
  shows "translate mm (FB_addr (Pos c') + 4 * word_of_int (y * XResolution (Pos c') + x)) =
      Some (0xe0000000 + 4 * word_of_int (y * XResolution (Pos c') + x)) \<and>
    FB_addr (Pos c') = task_page 5"
proof -
  have c: "FB_addr (Pos c') = 0xffff800000a00000" "XResolution (Pos c') = 1440" "YResolution (Pos c') = 900"
    by (simp_all add: assms(2) resolution_init_def set_pos_def)
  define p where "p = nat (y * 1440 + x)"
  have p: "y * 1440 + x = int p" "p < 1296000" using assms(3-6) by (simp_all add: p_def c)
  let ?a = "0xa00000 + 4 * of_nat p :: uint64"
  have a: "unat ?a = 0xa00000 + 4 * p" using p(2) unat_add_nat [of "0xa00000" "4 * p"] by simp
  then have "unat ?a < 2 ^ 47" using p(2) by simp
  from translate_kernel_map [OF assms(1) this]
  have "translate mm (0xffff800000a00000 + 4 * of_nat p) = direct ?a"
    by (simp add: Phy_To_Virt_def PAGE_OFFSET_def algebra_simps)
  also have "\<dots> = Some (0xe0000000 + 4 * of_nat p)"
    using a p(2) by (simp add: direct_def word_less_nat_alt)
  finally show ?thesis
    by (simp add: c p(1) task_page_def Phy_To_Virt_def PAGE_OFFSET_def page_addr_def PAGE_2M_SIZE_num)
qed

theorem screen_shares_frame_5_witness:
  "\<exists>mm. kernel_map mm \<and> translate mm 0xffff800000a00004 = Some 0xe0000004 \<and> task_page 5 = 0xffff800000a00000"
proof -
  obtain mm where "kernel_map mm" using booted_kernel_map by blast
  then show ?thesis
    using screen_shares_frame_5 [of mm _ wide_screen 1 0, OF _ refl] by (intro exI [of _ mm]) (simp add: resolution_init_def set_pos_def)
qed
text \<open>The privilege level of a segment descriptor, and the bit that makes a code segment a 64-bit one.\<close>

definition seg_dpl :: "uint64 \<Rightarrow> nat" where
  "seg_dpl d = unat (take_bit 2 (drop_bit 45 d))"

definition seg_long :: "uint64 \<Rightarrow> bool" where
  "seg_long d = bit d 53"

text \<open>
  The selectors \<^verbatim>\<open>task.h\<close> defines for user code and data pick the two 32-bit segments of the kernel in the
  table of \<^verbatim>\<open>head.sx\<close>; the segments of privilege level 3 are entries 3 and 4. The kernel's selectors are
  right.
\<close>

theorem user_selectors_pick_kernel_segments:
  "seg_dpl (GDT_Table ! (unat USER_CS div 8)) = 0 \<and> \<not> seg_long (GDT_Table ! (unat USER_CS div 8)) \<and>
   seg_dpl (GDT_Table ! (unat USER_DS div 8)) = 0 \<and>
   map seg_dpl (take 5 GDT_Table) = [0, 0, 0, 3, 3] \<and> seg_long (GDT_Table ! (unat KERNEL_CS div 8)) \<and>
   unat KERNEL_DS div 8 = 2"
  by (simp add: GDT_Table_def USER_CS_def USER_DS_def KERNEL_CS_def KERNEL_DS_def seg_dpl_def seg_long_def)

end
