(* ===== verification/System_Steps.thy ===== *)
theory System_Steps
  imports Kernel_Main Interrupt_Path
begin

text \<open>
  The parts together, in any order: while the initial task runs with interrupts on, as in
  \<^verbatim>\<open>task_init\<close> (\<^verbatim>\<open>src/task.c\<close>), it forks, requests pages and prints, and any of the 24 interrupts may
  arrive between these calls. The steps are a relation, because \<^verbatim>\<open>do_IRQ\<close> may leave anything on its own
  stack; the runs are its finite sequences.
\<close>

section \<open>Steps\<close>

datatype event = Fork uint64 | Alloc uint64 | Say uint32 uint32 string "uint64 list" | Irq nat

text \<open>
  What is fixed during a run: the linker's addresses, the names \<^verbatim>\<open>__FUNCTION__\<close>, the local frame of
  \<^verbatim>\<open>kernel_thread\<close>, the table \<^verbatim>\<open>interrupt\<close>, \<^verbatim>\<open>ret_from_intr\<close>, what devices answer, and the
  memory \<^verbatim>\<open>do_IRQ\<close> may write, its stack.
\<close>

record setting =
  the_link :: "string \<Rightarrow> uintptr"
  the_names :: "string \<Rightarrow> uintptr"
  the_regs :: uintptr
  the_stubs :: "nat \<Rightarrow> uintptr"
  the_ret :: uintptr
  the_device :: "uint16 \<Rightarrow> uint8"
  the_stack :: "uintptr set"

text \<open>
  An interrupt is delivered through the gate of its vector, and the stub that runs is the one at the
  address the processor then is at.
\<close>

inductive kernel_step :: "setting \<Rightarrow> event \<Rightarrow> system \<Rightarrow> system \<Rightarrow> bool" for c where
  step_fork: "do_fork (the_link c) (the_names c) (the_regs c) flags 0 0 (ks s) = Some (Inr (r, k)) \<Longrightarrow>
     kernel_step c (Fork flags) s (s\<lparr>ks := k\<rparr>)"
| step_alloc: "alloc_pages ZONE_NORMAL 1 flags (km (ks s)) = Some (Inr (m, page)) \<Longrightarrow>
     kernel_step c (Alloc flags) s (s\<lparr>ks := (ks s)\<lparr>km := m\<rparr>\<rparr>)"
| step_say: "color_printk fr bk (m_mem (mach (ks s))) fmt args (con (ks s)) = Inr (n, t) \<Longrightarrow>
     kernel_step c (Say fr bk fmt args) s (s\<lparr>ks := (ks s)\<lparr>con := t\<rparr>\<rparr>)"
| step_irq: "if_flag (io s) \<Longrightarrow> line < 24 \<Longrightarrow>
     d = deliver (IDT_Table (io s) (0x20 + line)) (tss64 (ks s)) (mach (ks s)) \<Longrightarrow>
     stub < 24 \<Longrightarrow> the_stubs c stub = m_rip d \<Longrightarrow> s1 = run (interrupt_stubs (the_ret c) ! stub) d \<Longrightarrow>
     keeps_frame s1 s2 \<Longrightarrow> (\<forall>x. x \<notin> the_stack c \<longrightarrow> m_mem s2 x = m_mem s1 x) \<Longrightarrow>
     kernel_step c (Irq line) s (s\<lparr>ks := (ks s)\<lparr>mach := run RSETORE_ALL s2\<rparr>,
       io := do_IRQ (the_device c) (gpr s1 Rdi) (gpr s1 Rsi) (io s)\<rparr>)"

inductive_cases forkE: "kernel_step c (Fork flags) s t"
inductive_cases allocE: "kernel_step c (Alloc flags) s t"
inductive_cases sayE: "kernel_step c (Say fr bk fmt args) s t"
inductive_cases irqE: "kernel_step c (Irq line) s t"

inductive runs :: "setting \<Rightarrow> event list \<Rightarrow> system \<Rightarrow> system \<Rightarrow> bool" for c where
  runs_none: "runs c [] s s"
| runs_more: "runs c es s t \<Longrightarrow> kernel_step c e t u \<Longrightarrow> runs c (es @ [e]) s u"

section \<open>The invariant\<close>

definition stack_ok :: "uintptr set \<Rightarrow> nat \<Rightarrow> setting \<Rightarrow> system \<Rightarrow> bool" where
  "stack_ok N F c s \<longleftrightarrow> block ((get64 (tss64 (ks s)) 11 AND NOT 0xf) - 200) 200 \<subseteq> the_stack c \<and>
     the_stack c \<subseteq> kernel_memory F \<and> the_stack c \<inter> N = {} \<and> the_stack c \<inter> block (the_regs c) 192 = {}"

text \<open>
  \<open>a\<close> more requests for a page are certain to be served; \<open>Ps\<close> are the frames of the children. The gates
  and the interrupt stack are as \<^verbatim>\<open>init_interrupt\<close> and \<^verbatim>\<open>kernel_start\<close> set them.
\<close>

definition system_inv :: "uintptr set \<Rightarrow> nat \<Rightarrow> nat set \<Rightarrow> pt_regs \<Rightarrow> task_struct \<Rightarrow> setting \<Rightarrow> nat \<Rightarrow> nat list \<Rightarrow> system \<Rightarrow> bool" where
  "system_inv N F M R parent c a Ps s \<longleftrightarrow>
     queue_inv N (the_link c) (the_names c) (the_regs c) F M R parent a Ps (ks s) \<and>
     if_flag (io s) \<and> inj_on (the_stubs c) {..< 24} \<and>
     (\<forall>line < 24. IDT_Table (io s) (0x20 + line) = set_gate 0x8E 2 (the_stubs c line)) \<and> stack_ok N F c s"

text \<open>The restored machine is the interrupted one but for the memory of the interrupt stack.\<close>

lemma interrupt_memory:
  assumes stk: "stack_ok N F c s" and gate: "g = set_gate 0x8E 2 a"
    and d: "d = deliver g (tss64 (ks s)) (mach (ks s))" and s1: "s1 = run (Build_IRQ ret_addr nr) d"
    and s2: "keeps_frame s1 s2" "\<forall>x. x \<notin> the_stack c \<longrightarrow> m_mem s2 x = m_mem s1 x"
  shows "\<exists>m. run RSETORE_ALL s2 = (mach (ks s))\<lparr>m_mem := m\<rparr> \<and> (\<forall>x. x \<notin> the_stack c \<longrightarrow> m x = m_mem (mach (ks s)) x)"
proof -
  note r = delivered_restored [OF d s1 s2(1) refl]
  have "run RSETORE_ALL s2 = (mach (ks s))\<lparr>m_mem := m_mem s2\<rparr>"
    by (rule machine.equality) (simp_all add: r)
  moreover have "m_mem s2 x = m_mem (mach (ks s)) x" if x: "x \<notin> the_stack c" for x
  proof -
    have "gate_ist g = 2" by (simp add: gate irq_gate_fields)
    then have "x \<notin> block ((get64 (tss64 (ks s)) (7 + 2 * unat (gate_ist g)) AND NOT 0xf) - 200) 200"
      using x stk by (auto simp: stack_ok_def)
    from delivered_memory(2) [OF d s1 refl this] show ?thesis using s2(2) x by simp
  qed
  ultimately show ?thesis by blast
qed

lemma queue_memory:
  assumes inv: "queue_inv N link fname regs F M R parent a Ps k"
    and S: "S \<subseteq> kernel_memory F" "S \<inter> N = {}" "S \<inter> block regs 192 = {}"
    and m: "\<And>x. x \<notin> S \<Longrightarrow> m x = m_mem (mach k) x"
  shows "queue_inv N link fname regs F M R parent a Ps (k\<lparr>mach := (mach k)\<lparr>m_mem := m\<rparr>\<rparr>)"
proof -
  let ?k = "k\<lparr>mach := (mach k)\<lparr>m_mem := m\<rparr>\<rparr>"
  have "names_ok N fname m"
    by (rule names_ok_cong [of N fname "m_mem (mach k)"]) (use inv S(2) m in \<open>auto simp: queue_inv_def\<close>)
  moreover have "read_pt_regs m regs = read_pt_regs (m_mem (mach k)) regs"
    by (rule read_pt_regs_cong, rule m) (use S(3) in blast)
  moreover have "get_current (mach ?k) = get_current (mach k)" by (simp add: get_current_def)
  moreover have "child_ok R parent ?k P" if P: "P \<in> set Ps" for P
  proof -
    have p: "F \<le> P" "P < 128" "child_ok R parent k P" using inv P by (simp_all add: queue_inv_def)
    have "block (stack_frame (task_page P)) 192 \<inter> S = {}"
      unfolding frame_of_page by (rule task_page_apart [OF p(2,1) S(1)]) simp
    then have "read_pt_regs m (stack_frame (task_page P)) = read_pt_regs (m_mem (mach k)) (stack_frame (task_page P))"
      by (intro read_pt_regs_cong m) blast
    with p(3) show ?thesis by (auto simp: child_ok_def thread_of_def)
  qed
  ultimately show ?thesis using inv by (simp add: queue_inv_def)
qed

section \<open>Every step keeps the invariant\<close>

definition requests :: "event list \<Rightarrow> nat" where
  "requests es = length (filter (\<lambda>e. case e of Fork _ \<Rightarrow> True | Alloc _ \<Rightarrow> True | _ \<Rightarrow> False) es)"

definition forks :: "event list \<Rightarrow> nat" where
  "forks es = length (filter (\<lambda>e. case e of Fork _ \<Rightarrow> True | _ \<Rightarrow> False) es)"

definition irqs :: "event list \<Rightarrow> nat list" where
  "irqs es = concat (map (\<lambda>e. case e of Irq line \<Rightarrow> [line] | _ \<Rightarrow> []) es)"

lemma event_counts [simp]:
  "requests [] = 0" "forks [] = 0" "irqs [] = []"
  "requests (es @ ds) = requests es + requests ds" "forks (es @ ds) = forks es + forks ds" "irqs (es @ ds) = irqs es @ irqs ds"
  "requests [Fork f] = 1" "requests [Alloc f] = 1" "requests [Say fr bk fmt args] = 0" "requests [Irq line] = 0"
  "forks [Fork f] = 1" "forks [Alloc f] = 0" "forks [Say fr bk fmt args] = 0" "forks [Irq line] = 0"
  "irqs [Fork f] = []" "irqs [Alloc f] = []" "irqs [Say fr bk fmt args] = []" "irqs [Irq line] = [line]"
  by (simp_all add: requests_def forks_def irqs_def)

lemma system_fork:
  assumes inv: "system_inv N F M R parent c (Suc a) Ps s"
  shows "\<exists>P k. do_fork (the_link c) (the_names c) (the_regs c) flags 0 0 (ks s) = Some (Inr (0, k)) \<and> P \<notin> set Ps \<and>
    system_inv N F M R parent c a (Ps @ [P]) (s\<lparr>ks := k\<rparr>)"
proof -
  from inv have "queue_inv N (the_link c) (the_names c) (the_regs c) F M R parent (Suc a) Ps (ks s)"
    by (simp add: system_inv_def)
  from queue_fork [OF this, of flags 0 0] show ?thesis
    using inv by (fastforce simp: system_inv_def stack_ok_def)
qed

lemma system_alloc:
  assumes inv: "system_inv N F M R parent c (Suc a) Ps s" and fl: "flags \<noteq> 0"
  shows "\<exists>P m. alloc_pages ZONE_NORMAL 1 flags (km (ks s)) = Some (Inr (m, Some (of_nat P))) \<and> P \<notin> set Ps \<and>
    system_inv N F M R parent c a Ps (s\<lparr>ks := (ks s)\<lparr>km := m\<rparr>\<rparr>)"
proof -
  from inv have q: "queue_inv N (the_link c) (the_names c) (the_regs c) F M R parent (Suc a) Ps (ks s)"
    by (simp add: system_inv_def)
  then have pool: "pool (Suc a) (km (ks s)) M" by (simp add: queue_inv_def)
  obtain P m where P: "alloc_pages ZONE_NORMAL 1 flags (km (ks s)) = Some (Inr (m, Some (of_nat P)))"
    "\<not> bm_test (bits_map (km (ks s))) P" "\<And>x. bm_test (bits_map m) x \<longleftrightarrow> x = P \<or> bm_test (bits_map (km (ks s))) x" "pool a m M"
    using pool_alloc [OF pool fl] by blast
  have new: "P \<notin> set Ps" using q P(2) by (auto simp: queue_inv_def)
  have "queue_inv N (the_link c) (the_names c) (the_regs c) F M R parent a Ps ((ks s)\<lparr>km := m\<rparr>)"
    using q P(3,4) by (auto simp: queue_inv_def)
  then have "system_inv N F M R parent c a Ps (s\<lparr>ks := (ks s)\<lparr>km := m\<rparr>\<rparr>)"
    using inv by (simp add: system_inv_def stack_ok_def)
  with P(1) new show ?thesis by blast
qed

lemma system_say:
  assumes inv: "system_inv N F M R parent c a Ps s" and "cursor_ok t"
  shows "system_inv N F M R parent c a Ps (s\<lparr>ks := (ks s)\<lparr>con := t\<rparr>\<rparr>)"
  using assms by (simp add: system_inv_def stack_ok_def queue_inv_def)

lemma color_printk_cursor:
  assumes "cursor_ok s" and "color_printk fr bk m fmt args s = Inr (n, t)"
  shows "cursor_ok t"
proof -
  obtain buf where "vsprintf m fmt args = Inr buf" "foldR (print_char fr bk) buf s = Inr t"
    using assms(2) by (auto simp: color_printk_def bindR_eq_Inr split: if_splits)
  with tty.put_text [OF assms(1), of fr bk buf] show ?thesis by auto
qed

text \<open>What an interrupt leaves in the trace of the ports, the last access first.\<close>

definition irq_trace :: "nat \<Rightarrow> port_access list" where
  "irq_trace line = Out 0x20 0x20 # (if line = 1 then [In 0x60] else [])"

lemma irq_number:
  assumes "line < 24"
  shows "(0x20 + of_nat line :: uint64) = 0x21 \<longleftrightarrow> line = 1"
proof -
  have "unat (of_nat line :: uint64) = line" using assms by (intro unat_of_nat_small) simp
  then have "of_nat line = (1 :: uint64) \<longleftrightarrow> line = 1" by (simp add: word_unat_eq_iff)
  moreover have "0x20 + x = 0x21 \<longleftrightarrow> x = 1" for x :: uint64
    using add_left_cancel [of "0x20" x 1] by simp
  ultimately show ?thesis by simp
qed

lemma system_irq:
  assumes inv: "system_inv N F M R parent c a Ps s" and line: "line < 24"
    and d: "d = deliver (IDT_Table (io s) (0x20 + line)) (tss64 (ks s)) (mach (ks s))"
    and stub: "stub < 24" "the_stubs c stub = m_rip d" and s1: "s1 = run (interrupt_stubs (the_ret c) ! stub) d"
    and s2: "keeps_frame s1 s2" "\<forall>x. x \<notin> the_stack c \<longrightarrow> m_mem s2 x = m_mem s1 x"
    and t: "t = s\<lparr>ks := (ks s)\<lparr>mach := run RSETORE_ALL s2\<rparr>, io := do_IRQ (the_device c) (gpr s1 Rdi) (gpr s1 Rsi) (io s)\<rparr>"
  shows "system_inv N F M R parent c a Ps t \<and> gpr (mach (ks t)) = gpr (mach (ks s)) \<and> tss64 (ks t) = tss64 (ks s) \<and>
    ports (io t) = irq_trace line @ ports (io s)"
proof -
  have gate: "IDT_Table (io s) (0x20 + line) = set_gate 0x8E 2 (the_stubs c line)" and stk: "stack_ok N F c s"
    and inj: "inj_on (the_stubs c) {..< 24}" and q: "queue_inv N (the_link c) (the_names c) (the_regs c) F M R parent a Ps (ks s)"
    using inv line by (simp_all add: system_inv_def)
  have "m_rip d = the_stubs c line" using deliver_state(1) [OF d refl] by (simp add: gate irq_gate_fields)
  with inj stub line have "stub = line" by (simp add: inj_on_eq_iff)
  then have b: "s1 = run (Build_IRQ (the_ret c) (0x20 + of_nat line)) d"
    using s1 by (simp add: interrupt_stubs_nth [OF line])
  obtain m where m: "run RSETORE_ALL s2 = (mach (ks s))\<lparr>m_mem := m\<rparr>" "\<And>x. x \<notin> the_stack c \<Longrightarrow> m x = m_mem (mach (ks s)) x"
    using interrupt_memory [OF stk gate d b s2] by blast
  have "queue_inv N (the_link c) (the_names c) (the_regs c) F M R parent a Ps ((ks s)\<lparr>mach := (mach (ks s))\<lparr>m_mem := m\<rparr>\<rparr>)"
    by (rule queue_memory [OF q _ _ _ m(2)]) (use stk in \<open>simp_all add: stack_ok_def\<close>)
  moreover have io: "if_flag (io t) = if_flag (io s)" "IDT_Table (io t) = IDT_Table (io s)"
    by (simp_all add: t do_IRQ_def io_out8_def io_in8_def Let_def)
  moreover have "stack_ok N F c t" using stk by (simp add: t stack_ok_def)
  moreover have "ports (io t) = irq_trace line @ ports (io s)"
    using stub_state(2) [OF b] irq_number [OF line]
    by (simp add: t do_IRQ_def io_out8_def io_in8_def Let_def irq_trace_def)
  ultimately show ?thesis
    using inv by (simp add: system_inv_def t m(1))
qed

text \<open>One step of any kind.\<close>

definition event_ok :: "event \<Rightarrow> bool" where
  "event_ok e \<longleftrightarrow> (case e of Fork _ \<Rightarrow> True | Alloc flags \<Rightarrow> flags \<noteq> 0
     | Say _ _ fmt args \<Rightarrow> plain fmt \<and> length fmt < 4096 \<and> args = [] | Irq line \<Rightarrow> line < 24)"

definition kept :: "uintptr set \<Rightarrow> nat \<Rightarrow> nat set \<Rightarrow> pt_regs \<Rightarrow> task_struct \<Rightarrow> setting \<Rightarrow> nat \<Rightarrow> nat list \<Rightarrow> event list \<Rightarrow>
    system \<Rightarrow> system \<Rightarrow> bool" where
  "kept N F M R parent c a Ps es s t \<longleftrightarrow> (\<exists>Qs. length Qs = forks es \<and> system_inv N F M R parent c a (Ps @ Qs) t) \<and>
     gpr (mach (ks t)) = gpr (mach (ks s)) \<and> tss64 (ks t) = tss64 (ks s) \<and>
     ports (io t) = concat (map irq_trace (rev (irqs es))) @ ports (io s)"

lemma kept_one:
  assumes "kernel_step c e s t" and inv: "system_inv N F M R parent c (requests [e] + a) Ps s" and ok: "event_ok e"
  shows "kept N F M R parent c a Ps [e] s t"
proof (cases e)
  case (Fork flags)
  with assms(1) obtain r k where k: "do_fork (the_link c) (the_names c) (the_regs c) flags 0 0 (ks s) = Some (Inr (r, k))"
    "t = s\<lparr>ks := k\<rparr>" by (auto elim: forkE)
  have "queue_inv N (the_link c) (the_names c) (the_regs c) F M R parent (Suc a) Ps (ks s)"
    using inv Fork by (simp add: system_inv_def)
  from queue_fork [OF this, of flags 0 0] obtain P where
    "tss64 k = tss64 (ks s)" "gpr (mach k) = gpr (mach (ks s))"
    "queue_inv N (the_link c) (the_names c) (the_regs c) F M R parent a (Ps @ [P]) k" using k(1) by auto
  then show ?thesis
    using inv Fork k(2) by (auto simp: kept_def system_inv_def stack_ok_def intro!: exI [of _ "[P]"])
next
  case (Alloc flags)
  with assms(1) obtain m page where "alloc_pages ZONE_NORMAL 1 flags (km (ks s)) = Some (Inr (m, page))"
    "t = s\<lparr>ks := (ks s)\<lparr>km := m\<rparr>\<rparr>" by (auto elim: allocE)
  moreover have "system_inv N F M R parent c (Suc a) Ps s" "flags \<noteq> 0" using inv ok Alloc by (simp_all add: event_ok_def)
  ultimately show ?thesis
    using system_alloc [of N F M R parent c a Ps s flags] Alloc by (auto simp: kept_def)
next
  case (Say fr bk fmt args)
  with assms(1) obtain n u where u: "color_printk fr bk (m_mem (mach (ks s))) fmt args (con (ks s)) = Inr (n, u)"
    "t = s\<lparr>ks := (ks s)\<lparr>con := u\<rparr>\<rparr>" by (auto elim: sayE)
  have i: "system_inv N F M R parent c a Ps s" using inv Say by simp
  then have "cursor_ok u" by (intro color_printk_cursor [OF _ u(1)]) (simp add: system_inv_def queue_inv_def)
  from system_say [OF i this] show ?thesis using Say u(2) by (simp add: kept_def)
next
  case (Irq line)
  with inv have i: "system_inv N F M R parent c a Ps s" by simp
  from assms(1) [unfolded Irq] show ?thesis
  proof (rule irqE)
    fix stub s2
    let ?d = "deliver (IDT_Table (io s) (0x20 + line)) (tss64 (ks s)) (mach (ks s))"
    let ?s1 = "run (interrupt_stubs (the_ret c) ! stub) ?d"
    assume x: "t = s\<lparr>ks := (ks s)\<lparr>mach := run RSETORE_ALL s2\<rparr>,
        io := do_IRQ (the_device c) (gpr ?s1 Rdi) (gpr ?s1 Rsi) (io s)\<rparr>"
      "if_flag (io s)" "line < 24" "stub < 24" "the_stubs c stub = m_rip ?d" "keeps_frame ?s1 s2"
      "\<forall>x. x \<notin> the_stack c \<longrightarrow> m_mem s2 x = m_mem ?s1 x"
    from system_irq [OF i x(3) refl x(4,5) refl x(6,7,1)] show ?thesis by (simp add: kept_def Irq)
  qed
qed

lemma kept_runs:
  "runs c es s t \<Longrightarrow> \<forall>e \<in> set es. event_ok e \<Longrightarrow> system_inv N F M R parent c (requests es + a) Ps s \<Longrightarrow>
   kept N F M R parent c a Ps es s t"
proof (induction arbitrary: a rule: runs.induct)
  case (runs_none s)
  then show ?case by (simp add: kept_def)
next
  case (runs_more es s t e u)
  have "kept N F M R parent c (requests [e] + a) Ps es s t"
    by (rule runs_more.IH) (use runs_more.prems in \<open>simp_all add: add.assoc\<close>)
  then obtain Qs where Qs: "length Qs = forks es" "system_inv N F M R parent c (requests [e] + a) (Ps @ Qs) t"
    and t: "gpr (mach (ks t)) = gpr (mach (ks s))" "tss64 (ks t) = tss64 (ks s)"
      "ports (io t) = concat (map irq_trace (rev (irqs es))) @ ports (io s)"
    by (auto simp: kept_def)
  have "kept N F M R parent c a (Ps @ Qs) [e] t u"
    by (rule kept_one [OF runs_more.hyps(2) Qs(2)]) (use runs_more.prems in simp)
  then obtain Q where "length Q = forks [e]" "system_inv N F M R parent c a (Ps @ Qs @ Q) u"
    "gpr (mach (ks u)) = gpr (mach (ks t))" "tss64 (ks u) = tss64 (ks t)"
    "ports (io u) = concat (map irq_trace (rev (irqs [e]))) @ ports (io t)"
    by (auto simp: kept_def)
  with Qs(1) t show ?case by (auto simp: kept_def intro!: exI [of _ "Qs @ Q"])
qed

section \<open>Every event can happen\<close>

lemma event_happens:
  assumes inv: "system_inv N F M R parent c (requests [e] + a) Ps s" and ok: "event_ok e"
  shows "\<exists>t. kernel_step c e s t"
proof (cases e)
  case (Fork flags)
  with inv have "system_inv N F M R parent c (Suc a) Ps s" by simp
  from system_fork [OF this, of flags] show ?thesis using Fork step_fork by blast
next
  case (Alloc flags)
  with inv ok have "system_inv N F M R parent c (Suc a) Ps s" "flags \<noteq> 0" by (simp_all add: event_ok_def)
  from system_alloc [OF this] show ?thesis using Alloc step_alloc by blast
next
  case (Say fr bk fmt args)
  with inv ok have "cursor_ok (con (ks s))" and f: "formats (m_mem (mach (ks s))) fmt args 4095"
    by (auto simp: system_inv_def queue_inv_def event_ok_def intro!: formats_plain)
  from color_printk_returns [OF this, of fr bk] show ?thesis using Say step_say by blast
next
  case (Irq line)
  with ok have line: "line < 24" by (simp add: event_ok_def)
  define d where "d = deliver (IDT_Table (io s) (0x20 + line)) (tss64 (ks s)) (mach (ks s))"
  have "m_rip d = the_stubs c line"
    using deliver_state(1) [OF d_def refl] inv line by (simp add: system_inv_def irq_gate_fields)
  then have "kernel_step c (Irq line) s (s\<lparr>ks := (ks s)\<lparr>mach := run RSETORE_ALL (handled (run (interrupt_stubs (the_ret c) ! line) d))\<rparr>,
      io := do_IRQ (the_device c) (gpr (run (interrupt_stubs (the_ret c) ! line) d) Rdi)
              (gpr (run (interrupt_stubs (the_ret c) ! line) d) Rsi) (io s)\<rparr>)"
    using inv by (intro step_irq [OF _ line d_def line _ refl handled_keeps]) (simp_all add: system_inv_def handled_def)
  with Irq show ?thesis by blast
qed

lemma runs_exist:
  "\<forall>e \<in> set es. event_ok e \<Longrightarrow> system_inv N F M R parent c (requests es + a) Ps s \<Longrightarrow> \<exists>t. runs c es s t"
proof (induction es arbitrary: a rule: rev_induct)
  case Nil
  then show ?case using runs_none by blast
next
  case (snoc e es)
  have i: "system_inv N F M R parent c (requests es + (requests [e] + a)) Ps s"
    using snoc.prems(2) by (simp add: add.assoc)
  obtain t where t: "runs c es s t" using snoc.IH [OF _ i] snoc.prems(1) by auto
  from kept_runs [OF t _ i] snoc.prems(1)
  obtain Qs where "system_inv N F M R parent c (requests [e] + a) (Ps @ Qs) t" by (auto simp: kept_def)
  from event_happens [OF this] snoc.prems(1) obtain u where "kernel_step c e t u" by auto
  with t show ?case by (blast intro: runs_more)
qed

section \<open>From the boot loader\<close>

text \<open>
  The interrupt stack the kernel sets up, below \<^verbatim>\<open>0xffff800000007c00\<close>, is memory the kernel does not
  use otherwise, and no two stubs have the same address.
\<close>

definition setting_ok :: "uintptr set \<Rightarrow> nat \<Rightarrow> setting \<Rightarrow> bool" where
  "setting_ok N F c \<longleftrightarrow> inj_on (the_stubs c) {..< 24} \<and> block (0xffff800000007c00 - 200) 200 \<subseteq> the_stack c \<and>
     the_stack c \<subseteq> kernel_memory F \<and> the_stack c \<inter> N = {} \<and> the_stack c \<inter> block (the_regs c) 192 = {}"

text \<open>The state in which \<^verbatim>\<open>task_init\<close> makes the first child, after \<^verbatim>\<open>init_memory\<close> and \<^verbatim>\<open>init_interrupt\<close>.\<close>

definition at_first_fork :: "setting \<Rightarrow> uint64 \<Rightarrow> kmem \<Rightarrow> console \<Rightarrow> system \<Rightarrow> system" where
  "at_first_fork c stack_start m t s =
     s\<lparr>tr := load_TR 8,
       ks := task_init_setup (the_link c) stack_start
               ((ks s)\<lparr>tss64 := boot_tss stack_start (tss64 (ks s)), km := m, con := t\<rparr>),
       io := booted_io (the_link c) (the_stubs c) (io s)\<rparr>"

lemma task_init_setup_stack:
  assumes "init_tss k = INIT_TSS link"
  shows "get64 (tss64 (task_init_setup link st k)) 11 = 0xffff800000007c00"
proof -
  have "tss_ist2 (init_tss k) = 0xffff800000007c00" by (simp add: assms INIT_TSS_def)
  then show ?thesis by (simp add: task_init_setup_def Let_def interrupt_stack set_init_mm_def)
qed

lemma booted_system:
  assumes ready: "kernel_ready N (the_link c) (the_names c) (the_regs c) tbl (ks s)" "init_tss (ks s) = INIT_TSS (the_link c)"
    and "cursor_ok u" and F: "F = kernel_frames tbl (set_kernel_bounds (the_link c) (km (ks s)))"
    and boot: "boots_with n tbl (set_kernel_bounds (the_link c) (km (ks s)))" "F + n \<le> 63"
    and set: "setting_ok N F c" and mem: "init_memory tbl cr3 (set_kernel_bounds (the_link c) (km (ks s))) = Inr m"
  shows "system_inv N F (pages_known tbl) (read_pt_regs (m_mem (mach (ks s))) (the_regs c)) (INIT_TASK (the_link c)) c n []
    (at_first_fork c st m u s)"
proof -
  let ?k = "(ks s)\<lparr>tss64 := boot_tss st (tss64 (ks s)), km := m, con := u\<rparr>" and ?s = "at_first_fork c st m u s"
  let ?q = "queue_inv N (the_link c) (the_names c) (the_regs c) F (pages_known tbl)
      (read_pt_regs (m_mem (mach (ks s))) (the_regs c)) (INIT_TASK (the_link c)) n []"
  have "?q ((ks s)\<lparr>km := m, con := u, links := list_init (the_link c ''init_task_union'') (links (ks s))\<rparr>)"
    using booted_queue [OF ready(1) assms(3) boot(1), of cr3] boot(2) mem by (simp add: F)
  then have "?q (ks ?s)"
    by (simp add: queue_inv_def at_first_fork_def task_init_setup_def set_init_mm_def Let_def)
  moreover have "get64 (tss64 (ks ?s)) 11 = 0xffff800000007c00"
    using task_init_setup_stack [of ?k] ready(2) by (simp add: at_first_fork_def)
  then have "stack_ok N F c ?s" using set by (simp add: stack_ok_def setting_ok_def)
  moreover have "\<forall>line < 24. IDT_Table (io ?s) (0x20 + line) = set_gate 0x8E 2 (the_stubs c line)" "if_flag (io ?s)"
    by (simp_all add: at_first_fork_def booted_io_def irq_gate init_interrupt_table(2))
  ultimately show ?thesis using set by (simp add: system_inv_def setting_ok_def)
qed

section \<open>Properties\<close>



text \<open>A sample run of the sample kernel, whose interrupt stack is the 3 KB below \<^verbatim>\<open>0xffff800000007c00\<close>.\<close>

definition sample :: setting where
  "sample = \<lparr>the_link = boot_link, the_names = (\<lambda>_. 0x500), the_regs = 0x9000,
     the_stubs = (\<lambda>k. 0xffff800000106000 + 16 * of_nat k), the_ret = 0xffff800000104200, the_device = (\<lambda>_. 0),
     the_stack = block 0xffff800000007000 0xc00\<rparr>"

definition sample_events :: "event list" where
  "sample_events = [Irq 1, Fork 0, Irq 8, Say WHITE BLACK ''ok'' [], Alloc 0x91, Fork 0, Irq 0]"

lemma sample_ok: "setting_ok {0x500} 3 sample"
proof -
  have "inj_on (\<lambda>k. 0xffff800000106000 + 16 * of_nat k :: uint64) {..< 24}"
  proof (rule inj_onI)
    fix a b :: nat
    assume ab: "a \<in> {..< 24}" "b \<in> {..< 24}"
      and "0xffff800000106000 + 16 * of_nat a = (0xffff800000106000 + 16 * of_nat b :: uint64)"
    then have "of_nat (16 * a) = (of_nat (16 * b) :: uint64)" by simp
    then have "unat (of_nat (16 * a) :: uint64) = unat (of_nat (16 * b) :: uint64)" by (rule arg_cong)
    then show "a = b" using ab by (simp add: unat_of_nat_small del: of_nat_mult)
  qed
  moreover have "block (0xffff800000007000 + 0xb38) 200 \<subseteq> block 0xffff800000007000 0xc00"
    by (rule block_inner) simp_all
  moreover have "block 0xffff800000007000 0xc00 \<subseteq> kernel_memory 3"
    by (rule block_kernel_memory) (simp_all add: unat_PAGE_OFFSET)
  moreover have "block (0x9000 :: uintptr) 192 \<inter> block 0xffff800000007000 0xc00 = {}"
    by (rule blocks_disjoint) simp_all
  moreover have "block (0xffff800000007000 :: uintptr) 0xc00 \<inter> {0x500} = {}" by (simp add: block_iff)
  ultimately show ?thesis unfolding setting_ok_def by (auto simp: sample_def)
qed

lemma sample_boots:
  "kernel_ready {0x500} (the_link sample) (the_names sample) (the_regs sample) two_gigabytes (ks loaded)"
  "init_tss (ks loaded) = INIT_TSS (the_link sample)"
  "3 = kernel_frames two_gigabytes (set_kernel_bounds (the_link sample) (km (ks loaded)))"
  "boots_with 60 two_gigabytes (set_kernel_bounds (the_link sample) (km (ks loaded)))"
proof -
  have m: "fresh (set_kernel_bounds boot_link memory_management_struct)"
    "end_brk (set_kernel_bounds boot_link memory_management_struct) = 0xffff800000540000"
    "g_zone_dma (set_kernel_bounds boot_link memory_management_struct) = 0"
    "g_zone_normal (set_kernel_bounds boot_link memory_management_struct) = 0"
    by (simp_all add: set_kernel_bounds_def memory_management_struct_def fresh_def boot_link_def)
  have s: "the_link sample = boot_link" "the_names sample = (\<lambda>_. 0x500)" "the_regs sample = 0x9000"
    "km (ks loaded) = memory_management_struct" "init_tss (ks loaded) = INIT_TSS kernel_link"
    by (simp_all add: sample_def loaded_def idle_kernel_def)
  show "kernel_ready {0x500} (the_link sample) (the_names sample) (the_regs sample) two_gigabytes (ks loaded)"
    unfolding s by (rule loaded_ready)
  show "init_tss (ks loaded) = INIT_TSS (the_link sample)"
    unfolding s by (simp add: INIT_TSS_def init_stack_def boot_link_def)
  show "3 = kernel_frames two_gigabytes (set_kernel_bounds (the_link sample) (km (ks loaded)))"
    unfolding s using boots_with_two_gigabytes(1) [OF m] by simp
  show "boots_with 60 two_gigabytes (set_kernel_bounds (the_link sample) (km (ks loaded)))"
    unfolding s by (rule boots_with_two_gigabytes(2) [OF m]) simp
qed

lemma sample_events_ok:
  "\<forall>e \<in> set sample_events. event_ok e" "requests sample_events = 3" "forks sample_events = 2" "irqs sample_events = [1, 8, 0]"
  by (simp_all add: sample_events_def event_ok_def NUL_def requests_def forks_def irqs_def)



end
